(* ===== verification/Prelude.thy ===== *)
theory Prelude
  imports Main "HOL-Library.Word"
begin

text \<open>
  Shared vocabulary of the development: Go's strings, times and durations, its
  error values and log lines, ranges over maps, and the two generic locales the
  components interpret (an invariant of a transition system, and a codec whose
  encodings can be concatenated).

  Go strings and byte slices are both finite byte sequences; the type
  \<open>string\<close> (a list of 8-bit characters) models both.  A \<open>time.Time\<close> is the
  number of nanoseconds since the zero time, so \<open>0\<close> is the zero value.
\<close>

named_theorems gotime
  \<open>rewrite rules that turn Go's time operations into linear integer arithmetic\<close>

section \<open>Time\<close>

type_synonym gotime = int
type_synonym duration = int

definition maxInt64 :: int where "maxInt64 = 9223372036854775807"
definition minInt64 :: int where "minInt64 = - 9223372036854775808"

definition second :: duration where "second = 1000000000"
definition minute :: duration where "minute = 60 * second"
definition hour :: duration where "hour = 60 * minute"
definition millisecond :: duration where "millisecond = 1000000"

text \<open>\<open>t.Sub(u)\<close> saturates at the ends of the 64-bit range instead of wrapping.\<close>

definition timeSub :: "gotime \<Rightarrow> gotime \<Rightarrow> duration" where
  "timeSub t u = max minInt64 (min maxInt64 (t - u))"

definition timeAdd :: "gotime \<Rightarrow> duration \<Rightarrow> gotime" where
  "timeAdd t d = t + d"

definition timeAfter :: "gotime \<Rightarrow> gotime \<Rightarrow> bool" where
  "timeAfter t u \<longleftrightarrow> u < t"

definition timeIsZero :: "gotime \<Rightarrow> bool" where
  "timeIsZero t \<longleftrightarrow> t = 0"

text \<open>Two's complement wrap-around of Go's \<open>int64\<close> arithmetic.\<close>

definition wrap64 :: "int \<Rightarrow> int" where
  "wrap64 x = (x + 9223372036854775808) mod 18446744073709551616 - 9223372036854775808"

lemmas duration_defs = second_def minute_def hour_def millisecond_def

lemma timeSub_ge [gotime]:
  "minInt64 < d \<Longrightarrow> d \<le> maxInt64 \<Longrightarrow> d \<le> timeSub t u \<longleftrightarrow> d \<le> t - u"
  by (auto simp: timeSub_def maxInt64_def minInt64_def)

lemma timeSub_less [gotime]:
  "minInt64 < d \<Longrightarrow> d \<le> maxInt64 \<Longrightarrow> timeSub t u < d \<longleftrightarrow> t - u < d"
  by (auto simp: timeSub_def maxInt64_def minInt64_def)

lemma timeSub_exact: "minInt64 \<le> t - u \<Longrightarrow> t - u \<le> maxInt64 \<Longrightarrow> timeSub t u = t - u"
  by (simp add: timeSub_def)

lemma timeSub_range: "minInt64 \<le> timeSub t u \<and> timeSub t u \<le> maxInt64"
  by (simp add: timeSub_def maxInt64_def minInt64_def)

lemma wrap64_id: "minInt64 \<le> x \<Longrightarrow> x \<le> maxInt64 \<Longrightarrow> wrap64 x = x"
  by (simp add: wrap64_def maxInt64_def minInt64_def)

section \<open>Peer identifiers, errors and log lines\<close>

text \<open>A \<open>peer.ID\<close> is a Go string: the bytes of the multihash.\<close>

type_synonym peerID = string

text \<open>
  An error is a package-level \<open>errors.New\<close> value (identified by its text, which is
  distinct for all of them), an error value of a library, or a \<open>fmt.Errorf\<close> with its
  format and arguments, where \<open>FWrap\<close> marks an argument of the verb \<open>%w\<close>.
\<close>

datatype fmtarg =
    FStr string
  | FInt int
  | FDur int
  | FStrs "string list"
  | FErr goerror
  | FWrap goerror
and goerror =
    NewErr string
  | ExtErr string
  | FmtErrorf string "fmtarg list"

text \<open>\<open>errors.Is\<close>: the error itself, or anything it wraps.\<close>

fun errorsIs :: "goerror \<Rightarrow> goerror \<Rightarrow> bool"
  and wrapsIs :: "fmtarg list \<Rightarrow> goerror \<Rightarrow> bool" where
  "errorsIs (NewErr m) t = (NewErr m = t)"
| "errorsIs (ExtErr m) t = (ExtErr m = t)"
| "errorsIs (FmtErrorf f as) t = (FmtErrorf f as = t \<or> wrapsIs as t)"
| "wrapsIs [] t = False"
| "wrapsIs (FWrap e # as) t = (errorsIs e t \<or> wrapsIs as t)"
| "wrapsIs (FStr s # as) t = wrapsIs as t"
| "wrapsIs (FInt i # as) t = wrapsIs as t"
| "wrapsIs (FDur d # as) t = wrapsIs as t"
| "wrapsIs (FStrs ss # as) t = wrapsIs as t"
| "wrapsIs (FErr e # as) t = wrapsIs as t"

text \<open>One call of the \<open>logger\<close> interface: its level, format and arguments.\<close>

datatype logline =
    Debugf string "fmtarg list"
  | Infof string "fmtarg list"
  | Warnf string "fmtarg list"
  | Errorf string "fmtarg list"

fun isWarn :: "logline \<Rightarrow> bool" where
  "isWarn (Warnf f as) = True"
| "isWarn _ = False"

section \<open>Strings\<close>

text \<open>\<open>strings.Contains\<close>.\<close>

fun stringsContains :: "string \<Rightarrow> string \<Rightarrow> bool" where
  "stringsContains [] sub = (sub = [])"
| "stringsContains (c # cs) sub = (take (length sub) (c # cs) = sub \<or> stringsContains cs sub)"

lemma stringsContains_iff: "stringsContains s sub \<longleftrightarrow> (\<exists>pre post. s = pre @ sub @ post)"
proof (induction s)
  case Nil
  then show ?case by simp
next
  case (Cons c cs)
  have "take (length sub) (c # cs) = sub \<longleftrightarrow> (\<exists>post. c # cs = sub @ post)"
    by (metis append_eq_conv_conj)
  then show ?case using Cons by (auto simp: Cons_eq_append_conv)
qed

lemma stringsContains_set: "stringsContains s sub \<Longrightarrow> set sub \<subseteq> set s"
  by (auto simp: stringsContains_iff)

text \<open>\<open>%d\<close> of a natural number and of a Go integer.\<close>

fun natDec :: "nat \<Rightarrow> string" where
  "natDec n = (if n < 10 then [char_of (48 + n)] else natDec (n div 10) @ [char_of (48 + n mod 10)])"

declare natDec.simps [simp del]

definition intDec :: "int \<Rightarrow> string" where
  "intDec i = (if i < 0 then CHR ''-'' # natDec (nat (- i)) else natDec (nat i))"

definition undec :: "string \<Rightarrow> nat" where
  "undec s = foldl (\<lambda>v c. v * 10 + (of_char c - 48)) 0 s"

lemma digit_value: "v < 10 \<Longrightarrow> of_char (char_of (48 + v) :: char) - 48 = (v :: nat)"
  by (simp add: of_char_of)

lemma undec_natDec: "undec (natDec n) = n"
proof (induction n rule: natDec.induct)
  case (1 n)
  show ?case
  proof (cases "n < 10")
    case True
    then show ?thesis by (simp add: natDec.simps [of n] undec_def digit_value)
  next
    case False
    have "undec (natDec n) = undec (natDec (n div 10)) * 10 + n mod 10"
      using False digit_value [of "n mod 10"] by (simp add: natDec.simps [of n] undec_def)
    with 1 False show ?thesis by simp
  qed
qed

section \<open>Ranges over maps\<close>

text \<open>
  Go visits the entries of a map in an unspecified order.  Code that ranges over a map
  takes the order of the visit as an argument; \<open>range_order m ks\<close> says that \<open>ks\<close> is one
  the runtime may choose.
\<close>

definition range_order :: "('k \<rightharpoonup> 'v) \<Rightarrow> 'k list \<Rightarrow> bool" where
  "range_order m ks \<longleftrightarrow> distinct ks \<and> set ks = dom m"

text \<open>The loop that deletes, while ranging over a map, the entries a test selects.\<close>

fun range_delete :: "('k \<Rightarrow> 'v \<Rightarrow> bool) \<Rightarrow> 'k list \<Rightarrow> ('k \<rightharpoonup> 'v) \<Rightarrow> ('k \<rightharpoonup> 'v)" where
  "range_delete P [] m = m"
| "range_delete P (k # ks) m =
     range_delete P ks
       (case m k of None \<Rightarrow> m | Some v \<Rightarrow> if P k v then m(k := None) else m)"

text \<open>Its result, whatever the order of the visit.\<close>

definition map_drop :: "('k \<Rightarrow> 'v \<Rightarrow> bool) \<Rightarrow> ('k \<rightharpoonup> 'v) \<Rightarrow> ('k \<rightharpoonup> 'v)" where
  "map_drop P m = (\<lambda>k. case m k of None \<Rightarrow> None | Some v \<Rightarrow> if P k v then None else Some v)"

lemma range_delete_apply:
  "range_delete P ks m k = (if k \<in> set ks then map_drop P m k else m k)"
  by (induction ks arbitrary: m) (auto simp: map_drop_def split: option.splits)

lemma range_delete_eq: "dom m \<subseteq> set ks \<Longrightarrow> range_delete P ks m = map_drop P m"
  by (rule ext) (auto simp: range_delete_apply map_drop_def split: option.splits)

lemma map_drop_Some: "map_drop P m k = Some v \<longleftrightarrow> m k = Some v \<and> \<not> P k v"
  by (auto simp: map_drop_def split: option.splits)

lemma map_drop_None: "map_drop P m k = None \<longleftrightarrow> (\<forall>v. m k = Some v \<longrightarrow> P k v)"
  by (auto simp: map_drop_def split: option.splits)

section \<open>Invariants of transition systems\<close>

inductive reach :: "('s \<Rightarrow> bool) \<Rightarrow> ('s \<Rightarrow> 's \<Rightarrow> bool) \<Rightarrow> 's \<Rightarrow> bool" for init step where
  reach_init: "init s \<Longrightarrow> reach init step s"
| reach_step: "reach init step s \<Longrightarrow> step s t \<Longrightarrow> reach init step t"

locale invariant_system =
  fixes init :: "'s \<Rightarrow> bool" and step :: "'s \<Rightarrow> 's \<Rightarrow> bool" and inv :: "'s \<Rightarrow> bool"
  assumes inv_init: "init s \<Longrightarrow> inv s"
    and inv_step: "inv s \<Longrightarrow> step s t \<Longrightarrow> inv t"
begin

lemma reach_inv: "reach init step s \<Longrightarrow> inv s"
  by (induction rule: reach.induct) (auto intro: inv_init inv_step)

lemma steps_inv: "step\<^sup>*\<^sup>* s t \<Longrightarrow> inv s \<Longrightarrow> inv t"
  by (induction rule: rtranclp_induct) (auto intro: inv_step)

end

text \<open>
  A forward simulation: every step of the concrete system is a step of the abstract one or
  leaves the abstraction alone.
\<close>

locale refinement = invariant_system init step inv
  for init :: "'s \<Rightarrow> bool" and step :: "'s \<Rightarrow> 's \<Rightarrow> bool" and inv :: "'s \<Rightarrow> bool" +
  fixes absOf :: "'s \<Rightarrow> 'a" and ainit :: "'a \<Rightarrow> bool" and astep :: "'a \<Rightarrow> 'a \<Rightarrow> bool"
  assumes sim_init: "init s \<Longrightarrow> ainit (absOf s)"
    and sim_step: "inv s \<Longrightarrow> step s t \<Longrightarrow> absOf t = absOf s \<or> astep (absOf s) (absOf t)"
begin

lemma reach_abs: "reach init step s \<Longrightarrow> reach ainit astep (absOf s)"
proof (induction rule: reach.induct)
  case (reach_step s t)
  then show ?case using sim_step [OF reach_inv] by (metis reach.reach_step)
qed (rule reach.reach_init, rule sim_init)

lemma steps_abs: "step\<^sup>*\<^sup>* s t \<Longrightarrow> inv s \<Longrightarrow> astep\<^sup>*\<^sup>* (absOf s) (absOf t)"
proof (induction rule: rtranclp_induct)
  case (step t u)
  then show ?case using sim_step [OF steps_inv [OF step(1)]] by (metis rtranclp.rtrancl_into_rtrancl)
qed simp

end

section \<open>Codecs\<close>

text \<open>
  A codec that peels one item at a time off the front of its input, up to a terminator the
  items cannot be mistaken for: what it encodes it decodes, and it stops there.
\<close>

locale peel_codec =
  fixes enc :: "'a \<Rightarrow> 'b list" and peel :: "'b list \<Rightarrow> ('a \<times> 'b list) option"
    and good :: "'a \<Rightarrow> bool" and stop :: "'b list \<Rightarrow> bool" and after :: "'b list \<Rightarrow> 'b list"
    and dec :: "'b list \<Rightarrow> ('a list \<times> 'b list) option"
  assumes peel_enc: "good x \<Longrightarrow> peel (enc x @ ys) = Some (x, ys)"
    and enc_not_stop: "good x \<Longrightarrow> \<not> stop (enc x @ ys)"
    and dec_stop: "stop ys \<Longrightarrow> dec ys = Some ([], after ys)"
    and dec_peel: "\<not> stop ys \<Longrightarrow> peel ys = Some (x, zs) \<Longrightarrow> dec ys = map_option (apfst ((#) x)) (dec zs)"
begin

lemma dec_enc:
  assumes "\<forall>x \<in> set xs. good x" and "stop ys"
  shows "dec (concat (map enc xs) @ ys) = Some (xs, after ys)"
  using assms(1)
proof (induction xs)
  case Nil
  show ?case using assms(2) by (simp add: dec_stop)
next
  case (Cons x xs)
  then have "good x" by simp
  then have "dec (enc x @ concat (map enc xs) @ ys) = map_option (apfst ((#) x)) (dec (concat (map enc xs) @ ys))"
    by (intro dec_peel enc_not_stop peel_enc)
  with Cons show ?case by simp
qed

end

end
