(* ===== verification/Config.thy ===== *)
theory Config
  imports Complex_Main Prelude
begin

text \<open>
  The configuration types: \<open>Config\<close> of src/config.go, \<open>ResourceLimits\<close> of src/resource_limits.go,
  and the fields of pubsub's score parameters and thresholds that src/scoring.go sets.  A
  \<open>crypto.PrivKey\<close> is opaque (the type variable \<open>'key\<close>), a nil interface or function is \<open>None\<close>, and
  \<open>float64\<close> constants are rationals.  \<open>PeerScoreParams\<close> is a pointer the code writes through, so it
  is an address of the store of src/scoring.go's model; \<open>PeerScoreThresholds\<close> is only read.
\<close>

section \<open>Resource limits\<close>

record subnetConnLimit =
  PrefixLength :: int
  SubnetConns :: int

record resourceLimits =
  Conns :: int
  ConnsInbound :: int
  ConnsOutbound :: int
  Streams :: int
  StreamsInbound :: int
  StreamsOutbound :: int
  FD :: int
  PeerConns :: int
  PeerConnsInbound :: int
  PeerStreamsInbound :: int
  IPv4SubnetLimits :: "subnetConnLimit list"
  IPv6SubnetLimits :: "subnetConnLimit list"

section \<open>Peer scoring\<close>

type_synonym float64 = rat

text \<open>The fields of pubsub's structs that the code sets; the others keep Go's zero values.\<close>

record peerScoreParams =
  TopicScores :: "string list"
  AppSpecificScoreFn :: "peerID \<Rightarrow> float64"
  AppSpecificWeight :: float64
  IPColocationFactorWeight :: float64
  IPColocationFactorThreshold :: int
  BehaviourPenaltyWeight :: float64
  BehaviourPenaltyThreshold :: float64
  BehaviourPenaltyDecay :: float64
  DecayInterval :: duration
  DecayToZero :: float64
  RetainScore :: duration

record peerScoreThresholds =
  GossipThreshold :: float64
  PublishThreshold :: float64
  GraylistThreshold :: float64
  AcceptPXThreshold :: float64
  OpportunisticGraftThreshold :: float64

type_synonym addr = nat

section \<open>The configuration\<close>

record 'key config =
  Name :: string
  LoggerSet :: bool
  PrivateKey :: "'key option"
  ProtocolVersion :: string
  PeerCacheFile :: string
  AnnounceAddrs :: "string list"
  Port :: int
  PeerCacheTTL :: duration
  BootstrapPeers :: "string list"
  DisableDefaultBootstrapPeers :: bool
  StaticPeers :: "string list"
  AllowedPublisherIDs :: "string list"
  DHTMode :: string
  cfgPeerAddressStreamTimeout :: duration
  DHTCleanupInterval :: duration
  EnableNAT :: bool
  EnableMDNS :: bool
  AllowPrivateIPs :: bool
  MaxConnections :: int
  MinConnections :: int
  ConnectionGracePeriod :: duration
  ResourceLimitsCfg :: resourceLimits
  EnablePeerScoring :: bool
  PeerScoreParamsPtr :: "addr option"
  PeerScoreThresholdsPtr :: "peerScoreThresholds option"
  AppSpecificScore :: "(peerID \<Rightarrow> float64) option"
  PeerScoreInspectSet :: bool
  PeerScoreInspectPeriod :: duration
  DisablePeerExchange :: bool

text \<open>Go's zero values of the two configuration structs.\<close>

definition zeroResourceLimits :: resourceLimits where
  "zeroResourceLimits = \<lparr>Conns = 0, ConnsInbound = 0, ConnsOutbound = 0, Streams = 0,
     StreamsInbound = 0, StreamsOutbound = 0, FD = 0, PeerConns = 0, PeerConnsInbound = 0,
     PeerStreamsInbound = 0, IPv4SubnetLimits = [], IPv6SubnetLimits = []\<rparr>"

definition zeroConfig :: "'key config" where
  "zeroConfig = \<lparr>Name = [], LoggerSet = False, PrivateKey = None, ProtocolVersion = [],
     PeerCacheFile = [], AnnounceAddrs = [], Port = 0, PeerCacheTTL = 0, BootstrapPeers = [],
     DisableDefaultBootstrapPeers = False, StaticPeers = [], AllowedPublisherIDs = [],
     DHTMode = [], cfgPeerAddressStreamTimeout = 0, DHTCleanupInterval = 0, EnableNAT = False,
     EnableMDNS = False, AllowPrivateIPs = False, MaxConnections = 0, MinConnections = 0,
     ConnectionGracePeriod = 0, ResourceLimitsCfg = zeroResourceLimits, EnablePeerScoring = False,
     PeerScoreParamsPtr = None, PeerScoreThresholdsPtr = None, AppSpecificScore = None,
     PeerScoreInspectSet = False, PeerScoreInspectPeriod = 0, DisablePeerExchange = False\<rparr>"

section \<open>Defaults of the connection manager and the peer-address exchange\<close>

text \<open>\<open>connManagerSettings\<close>: only the value zero means unset.\<close>

definition connManagerSettings :: "'key config \<Rightarrow> int \<times> int \<times> duration" where
  "connManagerSettings c =
     (let maxConns = (if MaxConnections c = 0 then 35 else MaxConnections c);
          minConns = (if MinConnections c = 0 then 25 else MinConnections c);
          gracePeriod = (if ConnectionGracePeriod c = 0 then 20 * second else ConnectionGracePeriod c)
      in (minConns, maxConns, gracePeriod))"

definition peerAddressStreamTimeout :: duration where
  "peerAddressStreamTimeout = 10 * second"

end
