(* ===== verification/Addrs.thy ===== *)
theory Addrs
  imports Config
begin

text \<open>
  Peer addresses: \<open>parsePeerMultiaddrs\<close>, \<open>isDNSAddr\<close>, \<open>parseMultiaddrs\<close> and \<open>selectBootstrapPeers\<close> of
  src/client.go.  Multiaddrs, peer IDs' text form and DNS resolution belong to libp2p; they
  are the functions of the record \<open>netLib\<close>, over an opaque type \<open>'ma\<close> of multiaddrs.
\<close>

section \<open>What the code uses of libp2p's address libraries\<close>

record 'ma addrInfo =
  aiID :: peerID
  aiAddrs :: "'ma list"

record 'ma netLib =
  peerDecode :: "string \<Rightarrow> goerror + peerID"
  idString :: "peerID \<Rightarrow> string"
  newMultiaddr :: "string \<Rightarrow> goerror + 'ma"
  maString :: "'ma \<Rightarrow> string"
  firstProtocol :: "'ma \<Rightarrow> nat option"
  pDNSADDR :: nat
  splitAddr :: "'ma \<Rightarrow> 'ma option \<times> peerID"
  addrInfoFromP2pAddr :: "'ma \<Rightarrow> goerror + 'ma addrInfo"
  resolveDNS :: "'ma \<Rightarrow> goerror + 'ma list"
  defaultBootstrapPeers :: "'ma addrInfo list"

section \<open>Parsing\<close>

definition isDNSAddr :: "'ma netLib \<Rightarrow> 'ma \<Rightarrow> bool" where
  "isDNSAddr lib m \<longleftrightarrow> (case firstProtocol lib m of None \<Rightarrow> False | Some code \<Rightarrow> code = pDNSADDR lib)"

fun parseResolved :: "'ma netLib \<Rightarrow> 'ma list \<Rightarrow> 'ma addrInfo list \<times> logline list" where
  "parseResolved lib [] = ([], [])"
| "parseResolved lib (raddr # rest) =
     (case parseResolved lib rest of (infos, logs) \<Rightarrow>
       (case addrInfoFromP2pAddr lib raddr of
          Inl err \<Rightarrow> (infos, Errorf ''Invalid resolved peer address %s: %v''
                               [FStr (maString lib raddr), FErr err] # logs)
        | Inr ai \<Rightarrow> (ai # infos, logs)))"

definition parsePeerEntry :: "'ma netLib \<Rightarrow> string \<Rightarrow> 'ma addrInfo list \<times> logline list" where
  "parsePeerEntry lib peerStr =
     (case newMultiaddr lib peerStr of
        Inl err \<Rightarrow> ([], [Errorf ''Invalid bootstrap address %s: %v (hint: use /dns4/ for hostnames, /ip4/ for IP addresses, /dnsaddr/ for DNS-based discovery)''
                        [FStr peerStr, FErr err]])
      | Inr maddr \<Rightarrow>
          if isDNSAddr lib maddr then
            (case resolveDNS lib maddr of
               Inl err \<Rightarrow> ([], [Errorf ''Failed to resolve dnsaddr %s: %v'' [FStr peerStr, FErr err]])
             | Inr resolved \<Rightarrow>
                 (case parseResolved lib resolved of (infos, logs) \<Rightarrow>
                    (infos, Infof ''Resolved dnsaddr %s to %d peer(s)''
                              [FStr peerStr, FInt (int (length resolved))] # logs)))
          else
            (case addrInfoFromP2pAddr lib maddr of
               Inl err \<Rightarrow> ([], [Errorf ''Invalid bootstrap peer info %s: %v'' [FStr peerStr, FErr err]])
             | Inr ai \<Rightarrow> ([ai], [])))"

fun parsePeerMultiaddrs :: "'ma netLib \<Rightarrow> string list \<Rightarrow> 'ma addrInfo list \<times> logline list" where
  "parsePeerMultiaddrs lib [] = ([], [])"
| "parsePeerMultiaddrs lib (peerStr # rest) =
     (case parsePeerEntry lib peerStr of (infos, logs) \<Rightarrow>
       (case parsePeerMultiaddrs lib rest of (infos', logs') \<Rightarrow> (infos @ infos', logs @ logs')))"

fun parseMultiaddrs :: "'ma netLib \<Rightarrow> string list \<Rightarrow> 'ma list" where
  "parseMultiaddrs lib [] = []"
| "parseMultiaddrs lib (s # rest) =
     (case newMultiaddr lib s of
        Inl err \<Rightarrow> parseMultiaddrs lib rest
      | Inr m \<Rightarrow> m # parseMultiaddrs lib rest)"

section \<open>Choosing the bootstrap peers\<close>

definition selectBootstrapPeers :: "'ma netLib \<Rightarrow> 'key config \<Rightarrow> bool \<Rightarrow> 'ma addrInfo list \<times> logline list" where
  "selectBootstrapPeers lib config testMode =
     (if testMode then
        ([], [Infof ''Test mode detected - using no bootstrap peers (isolated mode)'' []])
      else if BootstrapPeers config \<noteq> [] then
        (case parsePeerMultiaddrs lib (BootstrapPeers config) of (peers, logs) \<Rightarrow>
           (peers, logs @ [Infof ''Using %d custom bootstrap peer(s)'' [FInt (int (length peers))]]))
      else if DisableDefaultBootstrapPeers config then
        ([], [Infof ''No bootstrap peers configured and default IPFS bootstrap peers disabled'' []])
      else
        (let peers = defaultBootstrapPeers lib
         in (peers, [Infof ''Using %d default IPFS bootstrap peers'' [FInt (int (length peers))]])))"

definition getBootstrapAndRelayPeers ::
  "'ma netLib \<Rightarrow> 'key config \<Rightarrow> bool \<Rightarrow> ('ma addrInfo list \<times> 'ma addrInfo list) \<times> logline list" where
  "getBootstrapAndRelayPeers lib config testMode =
     (case selectBootstrapPeers lib config testMode of (peers, logs) \<Rightarrow>
        ((peers, peers), logs @ [Infof ''Using bootstrap peers as relay peers'' []]))"

section \<open>Each entry is parsed on its own\<close>

lemma parsePeerMultiaddrs_concat:
  "parsePeerMultiaddrs lib cfgs =
     (concat (map (fst \<circ> parsePeerEntry lib) cfgs), concat (map (snd \<circ> parsePeerEntry lib) cfgs))"
  by (induction cfgs) (auto split: prod.splits)

lemma parsePeerMultiaddrs_append:
  "fst (parsePeerMultiaddrs lib (xs @ ys)) = fst (parsePeerMultiaddrs lib xs) @ fst (parsePeerMultiaddrs lib ys)"
  by (simp add: parsePeerMultiaddrs_concat)

lemma parseMultiaddrs_append:
  "parseMultiaddrs lib (xs @ ys) = parseMultiaddrs lib xs @ parseMultiaddrs lib ys"
  by (induction xs) (auto split: sum.splits)

lemma length_parseMultiaddrs: "length (parseMultiaddrs lib xs) \<le> length xs"
  by (induction xs) (auto split: sum.splits)

text \<open>A plain entry (not a dnsaddr) yields at most the peer it names, whatever DNS says.\<close>

lemma parsePeerEntry_plain:
  assumes "newMultiaddr lib s = Inr m" and "\<not> isDNSAddr lib m"
  shows "fst (parsePeerEntry lib s) = (case addrInfoFromP2pAddr lib m of Inl e \<Rightarrow> [] | Inr ai \<Rightarrow> [ai])"
  using assms by (auto simp: parsePeerEntry_def split: sum.splits)


section \<open>A concrete address library\<close>

text \<open>
  For the witnesses: a multiaddr is its text, which begins with a slash; the ID it names is its
  last segment when it has a "/p2p/" component; "/dnsaddr" introduces a name to resolve, which
  yields nothing; and an ID is any non-empty text.
\<close>

definition lastSegment :: "string \<Rightarrow> string" where
  "lastSegment s = rev (takeWhile (\<lambda>c. c \<noteq> CHR ''/'') (rev s))"

definition textID :: "string \<Rightarrow> peerID" where
  "textID m = (if stringsContains m ''/p2p/'' then lastSegment m else [])"

definition textLib :: "string netLib" where
  "textLib = \<lparr>peerDecode = (\<lambda>s. if s = [] then Inl (ExtErr ''empty peer ID'') else Inr s),
     idString = (\<lambda>p. p),
     newMultiaddr = (\<lambda>s. if take 1 s = ''/'' then Inr s else Inl (ExtErr ''must begin with /'')),
     maString = (\<lambda>m. m),
     firstProtocol = (\<lambda>m. if take 8 m = ''/dnsaddr'' then Some 56 else Some 4),
     pDNSADDR = 56,
     splitAddr = (\<lambda>m. (Some m, textID m)),
     addrInfoFromP2pAddr = (\<lambda>m. if textID m = [] then Inl (ExtErr ''invalid p2p multiaddr'')
                             else Inr \<lparr>aiID = textID m, aiAddrs = [m]\<rparr>),
     resolveDNS = (\<lambda>m. Inr []),
     defaultBootstrapPeers = [\<lparr>aiID = ''ipfs'', aiAddrs = [''/dnsaddr/bootstrap/p2p/ipfs'']\<rparr>]\<rparr>"

section \<open>Properties\<close>

text \<open>A private network never dials the public bootstrap peers: with the fallback disabled, the
  bootstrap (and relay) peers are exactly those the configured addresses name, whatever the
  library's default list is.\<close>

lemma no_default_bootstrap:
  assumes "DisableDefaultBootstrapPeers config"
  shows "fst (getBootstrapAndRelayPeers lib config False) =
    (fst (parsePeerMultiaddrs lib (BootstrapPeers config)), fst (parsePeerMultiaddrs lib (BootstrapPeers config)))"
  using assms
  by (auto simp: getBootstrapAndRelayPeers_def selectBootstrapPeers_def split: prod.splits)

lemma no_default_bootstrap_witness:
  "fst (getBootstrapAndRelayPeers textLib
     ((zeroConfig :: unit config)\<lparr>DisableDefaultBootstrapPeers := True, BootstrapPeers := [''/ip4/1/p2p/abc'']\<rparr>) False)
     = (fst (parsePeerMultiaddrs textLib [''/ip4/1/p2p/abc'']), fst (parsePeerMultiaddrs textLib [''/ip4/1/p2p/abc'']))"
  using no_default_bootstrap [of "(zeroConfig :: unit config)\<lparr>DisableDefaultBootstrapPeers := True,
      BootstrapPeers := [''/ip4/1/p2p/abc'']\<rparr>" textLib]
  by simp

end
