(* ===== verification/DropReport.thy ===== *)
theory DropReport
  imports Prelude "HOL-Library.Multiset"
begin

text \<open>
  \<open>dropReporter\<close> of src/allowlist.go: the lock-free counter that reports, at most once per interval,
  how many messages of non-allowlisted peers were dropped.  First the operation as one
  uninterrupted call, then as the sequence of its atomic steps, interleaved with those of
  any number of other callers and with the clock.  The lemmas show that no drop is lost
  whatever the interleaving, that the claims of the logging slot are an interval apart, and
  what the documented pitfall of the zero value does.
\<close>

definition dropLogInterval :: duration where "dropLogInterval = 30 * second"

record dropReporter =
  dropped :: "64 word"
  lastLog :: int
  reporterStart :: gotime

definition newDropReporter :: "gotime \<Rightarrow> dropReporter" where
  "newDropReporter now = \<lparr>dropped = 0, lastLog = 0, reporterStart = now\<rparr>"

text \<open>\<open>time.Since(r.start).Nanoseconds() + 1\<close>, the sum in 64-bit arithmetic.\<close>

definition elapsedMarker :: "dropReporter \<Rightarrow> gotime \<Rightarrow> int" where
  "elapsedMarker r now = wrap64 (timeSub now (reporterStart r) + 1)"

definition tooSoon :: "int \<Rightarrow> int \<Rightarrow> bool" where
  "tooSoon elapsed lst \<longleftrightarrow> lst \<noteq> 0 \<and> wrap64 (elapsed - lst) < dropLogInterval"

definition dropLine :: "64 word \<Rightarrow> logline" where
  "dropLine n = Infof ''Dropped %d message(s) from non-allowlisted peers since the last report'' [FInt (uint n)]"

text \<open>One call that nothing interrupts: the compare-and-swap then succeeds.\<close>

definition recordDrop :: "dropReporter \<Rightarrow> gotime \<Rightarrow> dropReporter \<times> logline list" where
  "recordDrop r now =
     (let r1 = r\<lparr>dropped := dropped r + 1\<rparr>;
          elapsed = elapsedMarker r1 now;
          lst = lastLog r1
      in if tooSoon elapsed lst then (r1, [])
         else (r1\<lparr>lastLog := elapsed, dropped := 0\<rparr>, [dropLine (dropped r1)]))"

section \<open>Concurrent callers\<close>

text \<open>
  Where a caller stands in \<open>recordDrop\<close>.  The callers are anonymous, so the system holds a
  multiset of positions.  \<open>adds\<close> and \<open>claims\<close> are history: how many drops were recorded, and
  the markers stored by successful compare-and-swaps, the latest first.
\<close>

datatype dropPC =
    Entered
  | Counted
  | Timed int
  | Loaded int int
  | Claimed
  | Swapped "64 word"

record dropSys =
  rep :: dropReporter
  clock :: gotime
  pcs :: "dropPC multiset"
  reported :: "64 word list"
  adds :: nat
  claims :: "int list"

definition dropInit :: "dropSys \<Rightarrow> bool" where
  "dropInit s \<longleftrightarrow> rep s = newDropReporter (clock s) \<and> pcs s = {#} \<and> reported s = [] \<and> adds s = 0 \<and> claims s = []"

inductive dropStep :: "dropSys \<Rightarrow> dropSys \<Rightarrow> bool" where
  ds_tick: "clock s \<le> t \<Longrightarrow> dropStep s (s\<lparr>clock := t\<rparr>)"
| ds_call: "dropStep s (s\<lparr>pcs := add_mset Entered (pcs s)\<rparr>)"
| ds_add: "pcs s = add_mset Entered M \<Longrightarrow>
    dropStep s (s\<lparr>pcs := add_mset Counted M, adds := adds s + 1,
      rep := (rep s)\<lparr>dropped := dropped (rep s) + 1\<rparr>\<rparr>)"
| ds_time: "pcs s = add_mset Counted M \<Longrightarrow>
    dropStep s (s\<lparr>pcs := add_mset (Timed (elapsedMarker (rep s) (clock s))) M\<rparr>)"
| ds_load: "pcs s = add_mset (Timed e) M \<Longrightarrow>
    dropStep s (s\<lparr>pcs := add_mset (Loaded e (lastLog (rep s))) M\<rparr>)"
| ds_soon: "pcs s = add_mset (Loaded e l) M \<Longrightarrow> tooSoon e l \<Longrightarrow> dropStep s (s\<lparr>pcs := M\<rparr>)"
| ds_cas_lost: "pcs s = add_mset (Loaded e l) M \<Longrightarrow> \<not> tooSoon e l \<Longrightarrow> lastLog (rep s) \<noteq> l \<Longrightarrow>
    dropStep s (s\<lparr>pcs := M\<rparr>)"
| ds_cas_won: "pcs s = add_mset (Loaded e l) M \<Longrightarrow> \<not> tooSoon e l \<Longrightarrow> lastLog (rep s) = l \<Longrightarrow>
    dropStep s (s\<lparr>pcs := add_mset Claimed M, claims := e # claims s,
      rep := (rep s)\<lparr>lastLog := e\<rparr>\<rparr>)"
| ds_swap: "pcs s = add_mset Claimed M \<Longrightarrow>
    dropStep s (s\<lparr>pcs := add_mset (Swapped (dropped (rep s))) M,
      rep := (rep s)\<lparr>dropped := 0\<rparr>\<rparr>)"
| ds_log: "pcs s = add_mset (Swapped n) M \<Longrightarrow>
    dropStep s (s\<lparr>pcs := M, reported := reported s @ [n]\<rparr>)"

inductive_cases dropStepE: "dropStep s t"

section \<open>No drop is lost\<close>

fun held :: "dropPC \<Rightarrow> 64 word" where
  "held (Swapped n) = n"
| "held _ = 0"

definition conserved :: "dropSys \<Rightarrow> bool" where
  "conserved s \<longleftrightarrow>
     of_nat (adds s) = dropped (rep s) + sum_list (reported s) + sum_mset (image_mset held (pcs s))"

interpretation conservation: invariant_system dropInit dropStep conserved
proof
  show "dropInit s \<Longrightarrow> conserved s" for s
    by (simp add: dropInit_def conserved_def newDropReporter_def)
  show "conserved s \<Longrightarrow> dropStep s t \<Longrightarrow> conserved t" for s t
    by (erule dropStepE) (auto simp: conserved_def algebra_simps)
qed

section \<open>Claims of the slot are an interval apart\<close>

definition markerOK :: "dropSys \<Rightarrow> int \<Rightarrow> bool" where
  "markerOK s e \<longleftrightarrow> 1 \<le> e \<and> e \<le> clock s - reporterStart (rep s) + 1"

fun pcOK :: "dropSys \<Rightarrow> dropPC \<Rightarrow> bool" where
  "pcOK s (Timed e) = markerOK s e"
| "pcOK s (Loaded e l) = (markerOK s e \<and> (l = 0 \<or> markerOK s l))"
| "pcOK s _ = True"

definition spaced :: "int list \<Rightarrow> bool" where
  "spaced = sorted_wrt (\<lambda>new old. old + dropLogInterval \<le> new)"

fun claiming :: "dropPC \<Rightarrow> nat" where
  "claiming Claimed = 1"
| "claiming (Swapped n) = 1"
| "claiming _ = 0"

text \<open>
  The elapsed time must fit in 64 bits, which it does for 292 years after the start; the
  clock never goes back, so it is enough to say so of the state reached.
\<close>

definition inEra :: "dropSys \<Rightarrow> bool" where
  "inEra s \<longleftrightarrow> clock s - reporterStart (rep s) < maxInt64"

definition claims_inv :: "dropSys \<Rightarrow> bool" where
  "claims_inv s \<longleftrightarrow>
     reporterStart (rep s) \<le> clock s \<and>
     lastLog (rep s) = (case claims s of [] \<Rightarrow> 0 | c # _ \<Rightarrow> c) \<and>
     (\<forall>c \<in> set (claims s). markerOK s c) \<and> (\<forall>x \<in># pcs s. pcOK s x) \<and> spaced (claims s) \<and>
     length (claims s) = length (reported s) + sum_mset (image_mset claiming (pcs s))"

lemma markerOK_cong:
  "markerOK (s\<lparr>pcs := M\<rparr>) = markerOK s"
  "markerOK (s\<lparr>reported := rs\<rparr>) = markerOK s"
  "markerOK (s\<lparr>adds := n\<rparr>) = markerOK s"
  "markerOK (s\<lparr>claims := cs\<rparr>) = markerOK s"
  "reporterStart r = reporterStart (rep s) \<Longrightarrow> markerOK (s\<lparr>rep := r\<rparr>) = markerOK s"
  by (auto simp: markerOK_def fun_eq_iff)

lemma pcOK_mono:
  "pcOK s x \<Longrightarrow> (\<And>e. markerOK s e \<Longrightarrow> markerOK t e) \<Longrightarrow> pcOK t x"
  by (cases x) auto

lemma elapsedMarker_OK:
  assumes "reporterStart (rep s) \<le> clock s" and "inEra s"
  shows "elapsedMarker (rep s) (clock s) = clock s - reporterStart (rep s) + 1"
    and "markerOK s (elapsedMarker (rep s) (clock s))"
proof -
  let ?d = "clock s - reporterStart (rep s)"
  have "timeSub (clock s) (reporterStart (rep s)) = ?d"
    using assms by (intro timeSub_exact) (auto simp: inEra_def minInt64_def)
  moreover have "wrap64 (?d + 1) = ?d + 1"
    using assms by (intro wrap64_id) (auto simp: inEra_def minInt64_def)
  ultimately show "elapsedMarker (rep s) (clock s) = ?d + 1" by (simp add: elapsedMarker_def)
  then show "markerOK s (elapsedMarker (rep s) (clock s))" using assms(1) by (simp add: markerOK_def)
qed

lemma not_tooSoon:
  assumes "inEra s" and "markerOK s e" and "markerOK s l" and "\<not> tooSoon e l"
  shows "l + dropLogInterval \<le> e"
proof -
  have "wrap64 (e - l) = e - l"
    using assms(1-3) by (intro wrap64_id) (auto simp: inEra_def markerOK_def minInt64_def maxInt64_def)
  then show ?thesis using assms(3,4) by (auto simp: tooSoon_def markerOK_def)
qed

lemma spaced_Cons:
  assumes "spaced (c # cs)" and "c + dropLogInterval \<le> e"
  shows "spaced (e # c # cs)"
  using assms by (fastforce simp: spaced_def dropLogInterval_def second_def)


lemma inEra_step: "dropStep s t \<Longrightarrow> inEra t \<Longrightarrow> inEra s"
  by (erule dropStepE) (auto simp: inEra_def)

lemma claims_inv_pcs:
  assumes "claims_inv s" and "\<forall>x \<in># M. pcOK s x"
    and "sum_mset (image_mset claiming M) = sum_mset (image_mset claiming (pcs s))"
  shows "claims_inv (s\<lparr>pcs := M\<rparr>)"
proof -
  have "pcOK (s\<lparr>pcs := M\<rparr>) x" if "pcOK s x" for x
    using that by (rule pcOK_mono) (simp add: markerOK_cong)
  then show ?thesis using assms by (simp add: claims_inv_def markerOK_cong)
qed

lemma claims_inv_frame:
  assumes "claims_inv s"
    and "lastLog r = lastLog (rep s)" and "reporterStart r = reporterStart (rep s)"
  shows "claims_inv (s\<lparr>rep := r\<rparr>)" and "claims_inv (s\<lparr>adds := n\<rparr>)"
    and "clock s \<le> t \<Longrightarrow> claims_inv (s\<lparr>clock := t\<rparr>)"
proof -
  have "pcOK (s\<lparr>rep := r\<rparr>) x" "pcOK (s\<lparr>adds := n\<rparr>) x"
    "clock s \<le> t \<Longrightarrow> pcOK (s\<lparr>clock := t\<rparr>) x" if "pcOK s x" for x
    using that assms(3) by (auto elim!: pcOK_mono simp: markerOK_def)
  then show "claims_inv (s\<lparr>rep := r\<rparr>)" "claims_inv (s\<lparr>adds := n\<rparr>)"
    "clock s \<le> t \<Longrightarrow> claims_inv (s\<lparr>clock := t\<rparr>)"
    using assms by (auto simp: claims_inv_def markerOK_def)
qed

lemma claims_inv_won:
  assumes "claims_inv s" and era: "inEra s" and pcs: "pcs s = add_mset (Loaded e l) M"
    and "\<not> tooSoon e l" and l: "lastLog (rep s) = l"
  shows "claims_inv (s\<lparr>pcs := add_mset Claimed M, claims := e # claims s, rep := (rep s)\<lparr>lastLog := e\<rparr>\<rparr>)"
    (is "claims_inv ?t")
proof -
  have ok: "markerOK ?t x \<longleftrightarrow> markerOK s x" for x by (simp add: markerOK_def)
  have pc: "pcOK ?t x" if "pcOK s x" for x using that by (rule pcOK_mono) (simp add: ok)
  have e: "markerOK s e" using assms(1) pcs by (auto simp: claims_inv_def)
  have "spaced (e # claims s)"
  proof (cases "claims s")
    case Nil
    then show ?thesis by (simp add: spaced_def)
  next
    case (Cons c cs)
    then have "l = c" "markerOK s c" "spaced (c # cs)"
      using assms(1) l by (auto simp: claims_inv_def)
    then show ?thesis using not_tooSoon [OF era e _ assms(4)] Cons by (simp add: spaced_Cons)
  qed
  then show ?thesis using assms(1) e pcs by (auto simp: claims_inv_def ok pc)
qed

lemma claims_inv_step:
  assumes "claims_inv s" and "inEra s" and "dropStep s t"
  shows "claims_inv t"
  using assms(3)
proof (cases rule: dropStep.cases)
  case (ds_tick t')
  then show ?thesis using assms(1) by (simp add: claims_inv_frame(3))
next
  case ds_call
  show ?thesis unfolding ds_call
    by (rule claims_inv_pcs [OF assms(1)]) (use assms(1) in \<open>auto simp: claims_inv_def\<close>)
next
  case (ds_add M)
  have "claims_inv (s\<lparr>pcs := add_mset Counted M\<rparr>)"
    using assms(1) ds_add(2) by (intro claims_inv_pcs) (auto simp: claims_inv_def)
  then have "claims_inv (s\<lparr>pcs := add_mset Counted M, adds := adds s + 1\<rparr>)"
    using claims_inv_frame(2) [of "s\<lparr>pcs := add_mset Counted M\<rparr>"] by simp
  then show ?thesis unfolding ds_add(1)
    using claims_inv_frame(1) [of "s\<lparr>pcs := add_mset Counted M, adds := adds s + 1\<rparr>"] by simp
next
  case (ds_time M)
  have "markerOK s (elapsedMarker (rep s) (clock s))"
    using assms by (intro elapsedMarker_OK(2)) (auto simp: claims_inv_def)
  then show ?thesis unfolding ds_time(1)
    by (intro claims_inv_pcs [OF assms(1)]) (use assms(1) ds_time(2) in \<open>auto simp: claims_inv_def\<close>)
next
  case (ds_load e M)
  have "lastLog (rep s) = 0 \<or> markerOK s (lastLog (rep s))"
    using assms(1) by (cases "claims s") (auto simp: claims_inv_def)
  then show ?thesis unfolding ds_load(1)
    by (intro claims_inv_pcs [OF assms(1)]) (use assms(1) ds_load(2) in \<open>auto simp: claims_inv_def\<close>)
next
  case (ds_soon e l M)
  then show ?thesis unfolding ds_soon(1)
    by (intro claims_inv_pcs [OF assms(1)]) (use assms(1) in \<open>auto simp: claims_inv_def\<close>)
next
  case (ds_cas_lost e l M)
  then show ?thesis unfolding ds_cas_lost(1)
    by (intro claims_inv_pcs [OF assms(1)]) (use assms(1) in \<open>auto simp: claims_inv_def\<close>)
next
  case (ds_cas_won e l M)
  then show ?thesis using claims_inv_won [OF assms(1,2)] by simp
next
  case (ds_swap M)
  have "claims_inv (s\<lparr>pcs := add_mset (Swapped (dropped (rep s))) M\<rparr>)"
    using assms(1) ds_swap(2) by (intro claims_inv_pcs) (auto simp: claims_inv_def)
  then show ?thesis unfolding ds_swap(1)
    using claims_inv_frame(1) [of "s\<lparr>pcs := add_mset (Swapped (dropped (rep s))) M\<rparr>"] by simp
next
  case (ds_log n M)
  have "pcOK t x" if "pcOK s x" for x
    using that unfolding ds_log by (rule pcOK_mono) (simp add: markerOK_cong)
  then show ?thesis using assms(1) ds_log by (auto simp: claims_inv_def markerOK_cong)
qed

interpretation claiming: invariant_system dropInit dropStep "\<lambda>s. inEra s \<longrightarrow> claims_inv s"
proof
  show "dropInit s \<Longrightarrow> inEra s \<longrightarrow> claims_inv s" for s
    by (simp add: dropInit_def claims_inv_def newDropReporter_def spaced_def)
  show "inEra s \<longrightarrow> claims_inv s \<Longrightarrow> dropStep s t \<Longrightarrow> inEra t \<longrightarrow> claims_inv t" for s t
    using claims_inv_step inEra_step by blast
qed

lemma spaced_length:
  "spaced (c # cs) \<Longrightarrow> \<forall>x \<in> set (c # cs). 1 \<le> x \<Longrightarrow> int (length cs) * dropLogInterval + 1 \<le> c"
proof (induction cs arbitrary: c)
  case Nil
  then show ?case by simp
next
  case (Cons d cs)
  then have "int (length cs) * dropLogInterval + 1 \<le> d" and "d + dropLogInterval \<le> c"
    by (auto simp: spaced_def)
  then show ?case by (simp add: algebra_simps)
qed

lemma claims_length:
  assumes "claims_inv s"
  shows "int (length (claims s)) \<le> (clock s - reporterStart (rep s)) div dropLogInterval + 1"
proof (cases "claims s")
  case Nil
  moreover have "0 \<le> (clock s - reporterStart (rep s)) div dropLogInterval"
    using assms by (simp add: claims_inv_def dropLogInterval_def second_def pos_imp_zdiv_nonneg_iff)
  ultimately show ?thesis by simp
next
  case (Cons c cs)
  then have "spaced (c # cs)" "\<forall>x \<in> set (c # cs). 1 \<le> x" "c \<le> clock s - reporterStart (rep s) + 1"
    using assms by (auto simp: claims_inv_def markerOK_def)
  with spaced_length [of c cs] have "int (length cs) * dropLogInterval \<le> clock s - reporterStart (rep s)" by linarith
  then have "int (length cs) * dropLogInterval div dropLogInterval
      \<le> (clock s - reporterStart (rep s)) div dropLogInterval"
    by (rule zdiv_mono1) (simp add: dropLogInterval_def second_def)
  then show ?thesis by (simp add: Cons dropLogInterval_def second_def)
qed


section \<open>The uninterrupted call is a run of the steps\<close>

lemma dropStep_trans: "dropStep s t \<Longrightarrow> dropStep\<^sup>*\<^sup>* t u \<Longrightarrow> dropStep\<^sup>*\<^sup>* s u"
  by (rule converse_rtranclp_into_rtranclp)

definition afterCall :: "dropSys \<Rightarrow> dropSys" where
  "afterCall s =
     (let r1 = (rep s)\<lparr>dropped := dropped (rep s) + 1\<rparr>;
          e = elapsedMarker r1 (clock s)
      in if tooSoon e (lastLog r1) then s\<lparr>rep := r1, adds := adds s + 1\<rparr>
         else s\<lparr>rep := r1\<lparr>lastLog := e, dropped := 0\<rparr>, adds := adds s + 1,
                reported := reported s @ [dropped r1], claims := e # claims s\<rparr>)"

lemma afterCall_rep: "rep (afterCall s) = fst (recordDrop (rep s) (clock s))"
  by (simp add: afterCall_def recordDrop_def Let_def)

lemma afterCall_run: "dropStep\<^sup>*\<^sup>* s (afterCall s)"
proof -
  let ?M = "pcs s"
  let ?r = "(rep s)\<lparr>dropped := dropped (rep s) + 1\<rparr>"
  let ?e = "elapsedMarker ?r (clock s)"
  let ?l = "lastLog (rep s)"
  define s1 where "s1 = s\<lparr>pcs := add_mset Entered ?M\<rparr>"
  define s2 where "s2 = s\<lparr>pcs := add_mset Counted ?M, adds := adds s + 1, rep := ?r\<rparr>"
  define s3 where "s3 = s2\<lparr>pcs := add_mset (Timed ?e) ?M\<rparr>"
  define s4 where "s4 = s2\<lparr>pcs := add_mset (Loaded ?e ?l) ?M\<rparr>"
  have "dropStep s s1" unfolding s1_def by (rule ds_call)
  moreover have "dropStep s1 s2" using ds_add [of s1 ?M] by (simp add: s1_def s2_def)
  moreover have "dropStep s2 s3" using ds_time [of s2 ?M] by (simp add: s2_def s3_def)
  moreover have "dropStep s3 s4" using ds_load [of s3 ?e ?M] by (simp add: s2_def s3_def s4_def)
  ultimately have upto: "dropStep\<^sup>*\<^sup>* s s4" by (meson dropStep_trans rtranclp.rtrancl_refl)
  show ?thesis
  proof (cases "tooSoon ?e ?l")
    case True
    then have "dropStep s4 (s4\<lparr>pcs := ?M\<rparr>)" by (intro ds_soon [of _ ?e ?l]) (simp_all add: s4_def)
    also have "s4\<lparr>pcs := ?M\<rparr> = afterCall s" using True by (simp add: s4_def s2_def afterCall_def Let_def)
    finally show ?thesis using upto by simp
  next
    case False
    define s5 where "s5 = s4\<lparr>pcs := add_mset Claimed ?M, claims := ?e # claims s, rep := ?r\<lparr>lastLog := ?e\<rparr>\<rparr>"
    define s6 where "s6 = s5\<lparr>pcs := add_mset (Swapped (dropped ?r)) ?M, rep := ?r\<lparr>lastLog := ?e, dropped := 0\<rparr>\<rparr>"
    have "dropStep s4 s5" using ds_cas_won [of s4 ?e ?l ?M] False by (simp add: s4_def s2_def s5_def)
    moreover have "dropStep s5 s6" using ds_swap [of s5 ?M] by (simp add: s4_def s2_def s5_def s6_def)
    moreover have "dropStep s6 (s6\<lparr>pcs := ?M, reported := reported s6 @ [dropped ?r]\<rparr>)"
      by (rule ds_log) (simp add: s6_def)
    moreover have "s6\<lparr>pcs := ?M, reported := reported s6 @ [dropped ?r]\<rparr> = afterCall s"
      using False by (simp add: s4_def s2_def s5_def s6_def afterCall_def Let_def)
    ultimately have "dropStep s4 s5" "dropStep s5 s6" "dropStep s6 (afterCall s)" by simp_all
    then show ?thesis using upto by (meson rtranclp.rtrancl_into_rtrancl)
  qed
qed

section \<open>Properties\<close>

text \<open>C26. No interleaving of callers loses a drop: at every moment the drops recorded so far are
  those counted, those reported and those held by callers about to report, modulo the
  counter's 64 bits.\<close>

theorem drops_conserved:
  assumes "reach dropInit dropStep s"
  shows "of_nat (adds s) = dropped (rep s) + sum_list (reported s) + sum_mset (image_mset held (pcs s))"
  using conservation.reach_inv [OF assms] by (simp add: conserved_def)

definition dropExample :: dropSys where
  "dropExample = \<lparr>rep = newDropReporter 7, clock = 7, pcs = {#}, reported = [], adds = 0, claims = []\<rparr>"

lemma dropExample_init: "reach dropInit dropStep dropExample"
  by (rule reach_init) (simp add: dropInit_def dropExample_def)

lemma reach_steps: "reach i st s \<Longrightarrow> st\<^sup>*\<^sup>* s t \<Longrightarrow> reach i st t"
  by (rotate_tac, induction rule: rtranclp_induct) (auto intro: reach_step)

lemma dropExample_reach: "reach dropInit dropStep (afterCall dropExample)"
  by (rule reach_steps [OF dropExample_init afterCall_run])

lemma drops_conserved_witness:
  "of_nat (adds (afterCall dropExample)) = dropped (rep (afterCall dropExample))
     + sum_list (reported (afterCall dropExample)) + sum_mset (image_mset held (pcs (afterCall dropExample)))"
  by (rule drops_conserved [OF dropExample_reach])

text \<open>C27. However many goroutines race for the slot, the lines emitted in the first \<open>d\<close> nanoseconds
  of the reporter's life are at most one per interval and one more.\<close>

theorem drop_lines_bounded:
  assumes "reach dropInit dropStep s" and "inEra s"
  shows "int (length (reported s)) \<le> (clock s - reporterStart (rep s)) div dropLogInterval + 1"
proof -
  have inv: "claims_inv s" using claiming.reach_inv [OF assms(1)] assms(2) by simp
  then have "length (reported s) \<le> length (claims s)" by (simp add: claims_inv_def)
  then show ?thesis using claims_length [OF inv] by linarith
qed

lemma drop_lines_bounded_witness:
  "int (length (reported (afterCall dropExample)))
     \<le> (clock (afterCall dropExample) - reporterStart (rep (afterCall dropExample))) div dropLogInterval + 1"
  by (rule drop_lines_bounded [OF dropExample_reach])
     (simp add: inEra_def afterCall_def dropExample_def newDropReporter_def Let_def maxInt64_def)

text \<open>Every uninterrupted call is a run of the interleaved system's steps with the same effect
  on the reporter.\<close>

lemma recordDrop_refines_steps:
  "\<exists>t. dropStep\<^sup>*\<^sup>* s t \<and> rep t = fst (recordDrop (rep s) (clock s)) \<and> pcs t = pcs s
     \<and> map dropLine (reported t) = map dropLine (reported s) @ snd (recordDrop (rep s) (clock s))"
  by (rule exI [of _ "afterCall s"])
     (simp add: afterCall_run afterCall_rep, simp add: afterCall_def recordDrop_def Let_def)

fun dropRun :: "dropReporter \<Rightarrow> gotime list \<Rightarrow> logline list" where
  "dropRun r [] = []"
| "dropRun r (t # ts) = snd (recordDrop r t) @ dropRun (fst (recordDrop r t)) ts"

lemma frozen_marker:
  "reporterStart r = 0 \<Longrightarrow> maxInt64 \<le> t \<Longrightarrow> elapsedMarker r t = minInt64"
  by (simp add: elapsedMarker_def timeSub_def wrap64_def maxInt64_def minInt64_def)

lemma frozen_silent:
  "reporterStart r = 0 \<Longrightarrow> lastLog r = minInt64 \<Longrightarrow> \<forall>t \<in> set ts. maxInt64 \<le> t \<Longrightarrow> dropRun r ts = []"
proof (induction ts arbitrary: r)
  case (Cons t ts)
  have "elapsedMarker (r\<lparr>dropped := dropped r + 1\<rparr>) t = minInt64"
    using Cons.prems by (simp add: frozen_marker)
  then show ?case using Cons
    by (simp add: recordDrop_def Let_def tooSoon_def minInt64_def wrap64_def dropLogInterval_def second_def)
qed simp

text \<open>The documented pitfall: a reporter whose start is the zero time logs its first drop and
  then, at any time after the year 293, never again.\<close>

lemma zero_reporter_latches:
  assumes "maxInt64 \<le> t" and "\<forall>u \<in> set ts. maxInt64 \<le> u"
  shows "dropRun \<lparr>dropped = 0, lastLog = 0, reporterStart = 0\<rparr> (t # ts) = [dropLine 1]"
proof -
  let ?r = "\<lparr>dropped = 0, lastLog = 0, reporterStart = 0\<rparr>"
  have "recordDrop ?r t = (?r\<lparr>lastLog := minInt64\<rparr>, [dropLine 1])"
    using assms(1) by (simp add: recordDrop_def Let_def tooSoon_def frozen_marker)
  then show ?thesis using assms(2) by (simp add: frozen_silent)
qed

lemma zero_reporter_latches_witness:
  "dropRun \<lparr>dropped = 0, lastLog = 0, reporterStart = 0\<rparr> (63870000000 * second # [63870000090 * second])
     = [dropLine 1]"
  by (rule zero_reporter_latches) (simp_all add: maxInt64_def second_def)

end
