(* ===== verification/Allowlist.thy ===== *)
theory Allowlist
  imports Addrs DropReport
begin

text \<open>
  The publisher allowlist of src/allowlist.go, and the GossipSub validator of src/scoring.go that
  enforces it.  The set of IDs is characterised exactly, shown to depend on configuration
  text alone (never on DNS), and the validator is shown to decide on the message's author
  alone and never to reject.
\<close>

section \<open>Building the set\<close>

record peerAllowlist =
  allowed :: "peerID set"
  drops :: dropReporter

definition ErrInvalidAllowedPublisherID :: goerror where
  "ErrInvalidAllowedPublisherID = NewErr ''invalid AllowedPublisherIDs entry''"

text \<open>The ID a raw static-peer entry names: "" when it is malformed or names none.\<close>

definition publisherIDFromRawMultiaddr :: "'ma netLib \<Rightarrow> string \<Rightarrow> peerID" where
  "publisherIDFromRawMultiaddr lib entry =
     (case newMultiaddr lib entry of
        Inl err \<Rightarrow> []
      | Inr maddr \<Rightarrow> snd (splitAddr lib maddr))"

definition warnStaticPeersWithoutPublisherID :: "string list \<Rightarrow> logline list" where
  "warnStaticPeersWithoutPublisherID unnamed =
     (if unnamed = [] then []
      else [Warnf ''Static peer(s) %q contributed no publisher ID: the entry does not end in a /p2p/<id> component, and resolved addresses are deliberately not trusted as publishers - use the /dnsaddr/<host>/p2p/<id> form when the publisher allowlist is in use''
             [FStrs unnamed]])"

text \<open>The loop over the entries: the set extended and the entries that named no ID.\<close>

fun addStaticLoop :: "'ma netLib \<Rightarrow> peerID set \<Rightarrow> string list \<Rightarrow> peerID set \<times> string list" where
  "addStaticLoop lib ids [] = (ids, [])"
| "addStaticLoop lib ids (entry # rest) =
     (let pid = publisherIDFromRawMultiaddr lib entry in
      if pid = [] then
        (case addStaticLoop lib ids rest of (ids', unnamed) \<Rightarrow> (ids', entry # unnamed))
      else addStaticLoop lib (insert pid ids) rest)"

definition addStaticPublisherIDs ::
  "'ma netLib \<Rightarrow> peerID set \<Rightarrow> string list \<Rightarrow> (peerID set \<times> nat) \<times> logline list" where
  "addStaticPublisherIDs lib ids rawEntries =
     (case addStaticLoop lib ids rawEntries of (ids', unnamed) \<Rightarrow>
        ((ids', card ids' - card ids), warnStaticPeersWithoutPublisherID unnamed))"

text \<open>Decoding \<open>AllowedPublisherIDs\<close>: the first invalid entry ends the loop with an error.\<close>

fun decodeAllowed :: "'ma netLib \<Rightarrow> peerID set \<Rightarrow> string list \<Rightarrow> goerror + peerID set" where
  "decodeAllowed lib ids [] = Inr ids"
| "decodeAllowed lib ids (entry # rest) =
     (case peerDecode lib entry of
        Inl err \<Rightarrow> Inl (FmtErrorf ''%w %q: %w''
                          [FWrap ErrInvalidAllowedPublisherID, FStr entry, FWrap err])
      | Inr pid \<Rightarrow> decodeAllowed lib (insert pid ids) rest)"

definition newPeerAllowlist ::
  "'ma netLib \<Rightarrow> 'key config \<Rightarrow> peerID \<Rightarrow> gotime \<Rightarrow> (goerror + peerAllowlist) \<times> logline list" where
  "newPeerAllowlist lib config selfID now =
     (if AllowedPublisherIDs config = [] then
        (Inr \<lparr>allowed = {}, drops = \<lparr>dropped = 0, lastLog = 0, reporterStart = 0\<rparr>\<rparr>, [])
      else
        (case decodeAllowed lib {} (AllowedPublisherIDs config) of
           Inl err \<Rightarrow> (Inl err, [])
         | Inr ids \<Rightarrow>
             (let configured = card ids;
                  ids1 = insert selfID ids;
                  fromSelf = card ids1 - configured
              in (case addStaticPublisherIDs lib ids1 (StaticPeers config) of
                    ((ids2, fromStatic), logs) \<Rightarrow>
                      (Inr \<lparr>allowed = ids2, drops = newDropReporter now\<rparr>,
                       logs @ [Infof ''Peer allowlist enabled: accepting pubsub messages from %d peer(s) - %d configured, %d for this node, %d from StaticPeers''
                                 [FInt (int (card ids2)), FInt (int configured),
                                  FInt (int fromSelf), FInt (int fromStatic)]])))))"

text \<open>A nil allowlist is \<open>None\<close>.\<close>

definition enabled :: "peerAllowlist option \<Rightarrow> bool" where
  "enabled a \<longleftrightarrow> (case a of None \<Rightarrow> False | Some al \<Rightarrow> 0 < card (allowed al))"

definition allows :: "peerAllowlist option \<Rightarrow> peerID \<Rightarrow> bool" where
  "allows a pid \<longleftrightarrow> (if \<not> enabled a then True else (case a of None \<Rightarrow> True | Some al \<Rightarrow> pid \<in> allowed al))"

section \<open>The validator\<close>

datatype validationResult = ValidationAccept | ValidationReject | ValidationIgnore

text \<open>
  The closure \<open>allowlistValidator\<close> returns, on a message by \<open>author\<close> that the peer \<open>from\<close> delivered,
  at time \<open>now\<close>: the verdict, the allowlist with its drop counters updated, and the log.
\<close>

definition allowlistValidator ::
  "peerAllowlist option \<Rightarrow> peerID \<Rightarrow> peerID \<Rightarrow> gotime
     \<Rightarrow> validationResult \<times> peerAllowlist option \<times> logline list" where
  "allowlistValidator a from author now =
     (if allows a author then (ValidationAccept, a, [])
      else (case a of
              None \<Rightarrow> (ValidationIgnore, a, [])
            | Some al \<Rightarrow>
                (case recordDrop (drops al) now of (r, logs) \<Rightarrow>
                   (ValidationIgnore, Some (al\<lparr>drops := r\<rparr>), logs))))"

section \<open>The set\<close>

text \<open>The IDs the text of the configuration names.\<close>

definition configuredIDs :: "'ma netLib \<Rightarrow> 'key config \<Rightarrow> peerID set" where
  "configuredIDs lib config = {pid. \<exists>entry \<in> set (AllowedPublisherIDs config). peerDecode lib entry = Inr pid}"

definition staticIDs :: "'ma netLib \<Rightarrow> 'key config \<Rightarrow> peerID set" where
  "staticIDs lib config = publisherIDFromRawMultiaddr lib ` set (StaticPeers config) - {[]}"

lemma addStaticLoop_eq:
  "addStaticLoop lib ids entries =
     (ids \<union> (publisherIDFromRawMultiaddr lib ` set entries - {[]}),
      filter (\<lambda>e. publisherIDFromRawMultiaddr lib e = []) entries)"
  by (induction entries arbitrary: ids) (auto simp: Let_def)

lemma decodeAllowed_Inr:
  "decodeAllowed lib ids entries = Inr ids' \<Longrightarrow>
     ids' = ids \<union> {pid. \<exists>entry \<in> set entries. peerDecode lib entry = Inr pid}
     \<and> (\<forall>entry \<in> set entries. \<exists>pid. peerDecode lib entry = Inr pid)"
  by (induction entries arbitrary: ids) (auto split: sum.splits)

text \<open>The entry whose error the loop reports: the first that does not decode.\<close>

definition invalidEntryError :: "'ma netLib \<Rightarrow> string \<Rightarrow> goerror" where
  "invalidEntryError lib entry =
     FmtErrorf ''%w %q: %w''
       [FWrap ErrInvalidAllowedPublisherID, FStr entry, FWrap (projl (peerDecode lib entry))]"

lemma decodeAllowed_find:
  "decodeAllowed lib ids entries =
     (case find (\<lambda>e. isl (peerDecode lib e)) entries of
        Some entry \<Rightarrow> Inl (invalidEntryError lib entry)
      | None \<Rightarrow> Inr (ids \<union> projr ` peerDecode lib ` set entries))"
proof (induction entries arbitrary: ids)
  case Nil
  then show ?case by simp
next
  case (Cons x xs)
  then show ?case
    by (cases "peerDecode lib x") (auto simp: invalidEntryError_def split: option.splits)
qed

lemma newPeerAllowlist_disabled:
  "AllowedPublisherIDs config = [] \<Longrightarrow>
     \<exists>al. fst (newPeerAllowlist lib config selfID now) = Inr al \<and> \<not> enabled (Some al)"
  by (simp add: newPeerAllowlist_def enabled_def)

lemma newPeerAllowlist_eq:
  assumes "AllowedPublisherIDs config \<noteq> []"
  shows "newPeerAllowlist lib config selfID now =
    (case decodeAllowed lib {} (AllowedPublisherIDs config) of
       Inl err \<Rightarrow> (Inl err, [])
     | Inr ids \<Rightarrow>
         (let ids1 = insert selfID ids; ids2 = ids1 \<union> staticIDs lib config in
           (Inr \<lparr>allowed = ids2, drops = newDropReporter now\<rparr>,
            warnStaticPeersWithoutPublisherID
                (filter (\<lambda>e. publisherIDFromRawMultiaddr lib e = []) (StaticPeers config))
              @ [Infof ''Peer allowlist enabled: accepting pubsub messages from %d peer(s) - %d configured, %d for this node, %d from StaticPeers''
                   [FInt (int (card ids2)), FInt (int (card ids)),
                    FInt (int (card ids1 - card ids)), FInt (int (card ids2 - card ids1))]])))"
  using assms
  by (simp add: newPeerAllowlist_def addStaticPublisherIDs_def addStaticLoop_eq staticIDs_def Let_def
      split: sum.splits)

lemma decodeAllowed_configured:
  "decodeAllowed lib {} (AllowedPublisherIDs config) = Inr ids \<Longrightarrow> ids = configuredIDs lib config"
  using decodeAllowed_Inr [of lib "{}" "AllowedPublisherIDs config" ids] by (simp add: configuredIDs_def)

lemma newPeerAllowlist_allowed:
  assumes "AllowedPublisherIDs config \<noteq> []"
    and "fst (newPeerAllowlist lib config selfID now) = Inr al"
  shows "allowed al = configuredIDs lib config \<union> {selfID} \<union> staticIDs lib config"
  using assms(2) decodeAllowed_configured [of lib config]
  unfolding newPeerAllowlist_eq [OF assms(1)] by (auto simp: Let_def split: sum.splits)

lemma finite_configured: "finite (configuredIDs lib config)"
proof -
  have "configuredIDs lib config \<subseteq> (projr \<circ> peerDecode lib) ` set (AllowedPublisherIDs config)"
    by (force simp: configuredIDs_def image_iff)
  then show ?thesis by (rule finite_subset) simp
qed

lemma finite_static: "finite (staticIDs lib config)"
  by (simp add: staticIDs_def)


lemma enabled_Some: "finite (allowed al) \<Longrightarrow> enabled (Some al) \<longleftrightarrow> allowed al \<noteq> {}"
  by (auto simp: enabled_def card_gt_0_iff)

lemma allows_Some:
  "allowed al \<noteq> {} \<Longrightarrow> finite (allowed al) \<Longrightarrow> allows (Some al) pid \<longleftrightarrow> pid \<in> allowed al"
  by (simp add: allows_def enabled_Some)

lemma allows_configured:
  assumes "AllowedPublisherIDs config \<noteq> []"
    and "fst (newPeerAllowlist lib config selfID now) = Inr al"
  shows "allows (Some al) pid \<longleftrightarrow>
    pid \<in> configuredIDs lib config \<or> pid = selfID \<or> pid \<in> staticIDs lib config"
  using newPeerAllowlist_allowed [OF assms]
  by (auto simp: allows_Some finite_configured finite_static)

lemma enabled_configured:
  assumes "fst (newPeerAllowlist lib config selfID now) = Inr al"
  shows "enabled (Some al) \<longleftrightarrow> AllowedPublisherIDs config \<noteq> []"
proof (cases "AllowedPublisherIDs config = []")
  case True
  then show ?thesis using assms newPeerAllowlist_disabled [OF True, of lib selfID now] by auto
next
  case False
  then show ?thesis using newPeerAllowlist_allowed [OF False assms]
    by (simp add: enabled_Some finite_configured finite_static)
qed

text \<open>The drop counters never influence a verdict.\<close>

lemma allows_drops [simp]: "allows (Some (al\<lparr>drops := r\<rparr>)) = allows (Some al)"
  by (simp add: allows_def enabled_def fun_eq_iff)

lemma validator_allows: "allows (fst (snd (allowlistValidator a from author now))) = allows a"
  by (auto simp: allowlistValidator_def split: option.splits prod.splits)

text \<open>A run of the validator over the messages pubsub hands to it: who delivered, who wrote, when.\<close>

fun validatorRun :: "peerAllowlist option \<Rightarrow> (peerID \<times> peerID \<times> gotime) list \<Rightarrow> validationResult list" where
  "validatorRun a [] = []"
| "validatorRun a ((from, author, now) # ms) =
     (case allowlistValidator a from author now of (v, a', logs) \<Rightarrow> v # validatorRun a' ms)"

lemma validatorRun_eq:
  "validatorRun a ms =
     map (\<lambda>(from, author, now). if allows a author then ValidationAccept else ValidationIgnore) ms"
proof (induction ms arbitrary: a)
  case (Cons m ms)
  obtain src author now where m: "m = (src, author, now)" by (metis prod_cases3)
  have "fst (allowlistValidator a src author now)
      = (if allows a author then ValidationAccept else ValidationIgnore)"
    by (auto simp: allowlistValidator_def split: option.splits prod.splits)
  then show ?case using Cons validator_allows [of a src author now]
    by (auto simp: m split: prod.splits)
qed simp

section \<open>Properties\<close>

text \<open>With a non-empty configuration the accepted publishers are exactly the configured IDs, the
  node's own ID and the IDs that static peers name in their text: a node can always publish,
  and no bootstrap peer is trusted by being one.\<close>

theorem allowlist_exact:
  assumes "AllowedPublisherIDs config \<noteq> []"
    and "fst (newPeerAllowlist lib config selfID now) = Inr al"
  shows "allows (Some al) pid \<longleftrightarrow>
    pid \<in> configuredIDs lib config \<or> pid = selfID \<or> pid \<in> staticIDs lib config"
  using assms by (rule allows_configured)

lemma allowlist_exact_witness:
  "\<exists>al. fst (newPeerAllowlist textLib ((zeroConfig :: unit config)\<lparr>AllowedPublisherIDs := [''abc'']\<rparr>) ''me'' 0) = Inr al
     \<and> allows (Some al) ''me''"
proof -
  let ?c = "(zeroConfig :: unit config)\<lparr>AllowedPublisherIDs := [''abc'']\<rparr>"
  obtain al where al: "fst (newPeerAllowlist textLib ?c ''me'' 0) = Inr al"
    by (simp add: newPeerAllowlist_def textLib_def addStaticPublisherIDs_def zeroConfig_def Let_def)
  then have "allows (Some al) ''me''" by (subst allowlist_exact [of ?c textLib "''me''" 0]) simp_all
  with al show ?thesis by blast
qed

lemma publisherID_resolver [simp]:
  "publisherIDFromRawMultiaddr (lib\<lparr>resolveDNS := r\<rparr>) = publisherIDFromRawMultiaddr lib"
  by (auto simp: publisherIDFromRawMultiaddr_def fun_eq_iff split: sum.splits)

lemma addStaticPublisherIDs_resolver [simp]:
  "addStaticPublisherIDs (lib\<lparr>resolveDNS := r\<rparr>) = addStaticPublisherIDs lib"
  by (simp add: addStaticPublisherIDs_def addStaticLoop_eq fun_eq_iff)

lemma decodeAllowed_resolver [simp]:
  "decodeAllowed (lib\<lparr>resolveDNS := r\<rparr>) ids entries = decodeAllowed lib ids entries"
  by (simp add: decodeAllowed_find invalidEntryError_def cong: option.case_cong)

text \<open>C22. No DNS answer decides who is trusted: replacing the resolver leaves the allowlist, its
  error and its log unchanged.\<close>

theorem allowlist_ignores_dns:
  "newPeerAllowlist (lib\<lparr>resolveDNS := r\<rparr>) config selfID now = newPeerAllowlist lib config selfID now"
  by (auto simp: newPeerAllowlist_def Let_def split: sum.splits)

text \<open>An entry of \<open>AllowedPublisherIDs\<close> that is not a peer ID is an error that wraps
  \<open>ErrInvalidAllowedPublisherID\<close> and names the first such entry; without one there is no error.\<close>

lemma allowlist_error:
  "(case fst (newPeerAllowlist lib config selfID now) of Inl err \<Rightarrow> Some err | Inr al \<Rightarrow> None)
     = map_option (invalidEntryError lib)
         (find (\<lambda>e. isl (peerDecode lib e)) (AllowedPublisherIDs config))
   \<and> errorsIs (invalidEntryError lib entry) ErrInvalidAllowedPublisherID"
  by (cases "AllowedPublisherIDs config = []")
     (auto simp: newPeerAllowlist_def decodeAllowed_find addStaticPublisherIDs_def Let_def
       invalidEntryError_def ErrInvalidAllowedPublisherID_def split: option.splits prod.splits)

text \<open>Over any sequence of messages the validator accepts exactly those whose author is allowed
  and ignores the rest; the delivering peer and the time play no part, and nothing is ever
  rejected (which would cost the sender score).\<close>

lemma validator_verdicts:
  "validatorRun a ms =
     map (\<lambda>(from, author, now). if allows a author then ValidationAccept else ValidationIgnore) ms
   \<and> ValidationReject \<notin> set (validatorRun a ms)"
  by (auto simp: validatorRun_eq split: if_splits prod.splits)

end
