(* ===== verification/Scoring.thy ===== *)
theory Scoring
  imports Allowlist
begin

text \<open>
  GossipSub configuration, src/scoring.go: the default score parameters and thresholds, their
  resolution from the configuration, the direct peers, and the assembly of the pubsub
  options.  \<open>*pubsub.PeerScoreParams\<close> values live in a store (a list of cells, a pointer is an index)
  because \<open>resolvePeerScoreConfig\<close> writes through the caller's pointer.
\<close>

section \<open>Score parameters\<close>

type_synonym paramStore = "peerScoreParams list"

definition defaultPeerScoreInspectPeriod :: duration where
  "defaultPeerScoreInspectPeriod = 10 * second"

definition ErrIncompletePeerScoreConfig :: goerror where
  "ErrIncompletePeerScoreConfig = NewErr ''PeerScoreParams and PeerScoreThresholds must both be set''"

definition defaultPeerScoreParams :: peerScoreParams where
  "defaultPeerScoreParams = \<lparr>TopicScores = [], AppSpecificScoreFn = (\<lambda>p. 0), AppSpecificWeight = 1,
     IPColocationFactorWeight = - 35, IPColocationFactorThreshold = 10,
     BehaviourPenaltyWeight = - 16, BehaviourPenaltyThreshold = 6, BehaviourPenaltyDecay = 928 / 1000,
     DecayInterval = 12 * second, DecayToZero = 1 / 100, RetainScore = 6 * hour\<rparr>"

text \<open>A fresh cell on every call.\<close>

definition DefaultPeerScoreParams :: "paramStore \<Rightarrow> paramStore \<times> addr" where
  "DefaultPeerScoreParams st = (st @ [defaultPeerScoreParams], length st)"

definition DefaultPeerScoreThresholds :: peerScoreThresholds where
  "DefaultPeerScoreThresholds = \<lparr>GossipThreshold = - 2000, PublishThreshold = - 4000,
     GraylistThreshold = - 8000, AcceptPXThreshold = 0, OpportunisticGraftThreshold = 0\<rparr>"

definition resolvePeerScoreConfig ::
  "'key config \<Rightarrow> paramStore \<Rightarrow> (goerror + (addr \<times> peerScoreThresholds) option) \<times> paramStore" where
  "resolvePeerScoreConfig config st =
     (let (st1, params) =
            (if EnablePeerScoring config \<and> PeerScoreParamsPtr config = None
             then (case DefaultPeerScoreParams st of (st', a) \<Rightarrow> (st', Some a))
             else (st, PeerScoreParamsPtr config));
          thresholds =
            (if EnablePeerScoring config \<and> PeerScoreThresholdsPtr config = None
             then Some DefaultPeerScoreThresholds else PeerScoreThresholdsPtr config)
      in (case (params, thresholds) of
            (None, None) \<Rightarrow> (Inr None, st1)
          | (Some a, Some th) \<Rightarrow>
              (Inr (Some (a, th)),
               case AppSpecificScore config of
                 None \<Rightarrow> st1
               | Some f \<Rightarrow> st1[a := (st1 ! a)\<lparr>AppSpecificScoreFn := f\<rparr>])
          | _ \<Rightarrow> (Inl ErrIncompletePeerScoreConfig, st1)))"

section \<open>Direct peers\<close>

fun dedupPeers :: "peerID set \<Rightarrow> 'ma addrInfo list \<Rightarrow> 'ma addrInfo list" where
  "dedupPeers seen [] = []"
| "dedupPeers seen (ai # rest) =
     (if aiID ai \<in> seen then dedupPeers seen rest
      else ai # dedupPeers (insert (aiID ai) seen) rest)"

definition directPeers ::
  "'ma netLib \<Rightarrow> 'key config \<Rightarrow> 'ma addrInfo list \<Rightarrow> 'ma addrInfo list \<times> logline list" where
  "directPeers lib config staticPeers =
     (case parsePeerMultiaddrs lib (BootstrapPeers config) of (bootstrap, logs) \<Rightarrow>
        (dedupPeers {} (staticPeers @ bootstrap), logs))"

section \<open>Options\<close>

datatype 'ma psOption =
    WithDefaultValidator bool \<comment> \<open>the allowlist validator, with \<open>WithValidatorInline\<close>\<close>
  | WithPeerExchange bool
  | WithPeerScore addr peerScoreThresholds
  | WithDirectPeers "'ma addrInfo list"
  | WithPeerScoreInspect duration

text \<open>
  The three groups of options in the order in which the code appends them.  The format verbs
  of the scoring line print its two thresholds; they are passed as rounded integers.
\<close>

definition validatorOptions :: "peerAllowlist option \<Rightarrow> 'ma psOption list" where
  "validatorOptions allowlist = (if enabled allowlist then [WithDefaultValidator True] else [])"

definition exchangeOptions :: "'key config \<Rightarrow> 'ma psOption list \<times> logline list" where
  "exchangeOptions config =
     (if DisablePeerExchange config then ([], [Infof ''GossipSub peer exchange disabled'' []])
      else ([WithPeerExchange True], []))"

definition scoreOptions ::
  "'ma netLib \<Rightarrow> 'key config \<Rightarrow> 'ma addrInfo list \<Rightarrow> addr \<Rightarrow> peerScoreThresholds
     \<Rightarrow> 'ma psOption list \<times> logline list" where
  "scoreOptions lib config staticPeers a th =
     (case directPeers lib config staticPeers of (direct, dlogs) \<Rightarrow>
        (let (directOpts, directLogs) =
               (if direct \<noteq> []
                then ([WithDirectPeers direct],
                      [Infof ''GossipSub scoring: %d trusted peer(s) exempt as direct peers''
                         [FInt (int (length direct))]])
                else ([], []));
             inspectOpts =
               (if PeerScoreInspectSet config
                then [WithPeerScoreInspect
                        (if PeerScoreInspectPeriod config \<le> 0 then defaultPeerScoreInspectPeriod
                         else PeerScoreInspectPeriod config)]
                else [])
         in (WithPeerScore a th # directOpts @ inspectOpts,
             dlogs @ directLogs @
               [Infof ''GossipSub peer scoring enabled (AcceptPXThreshold=%.0f, GraylistThreshold=%.0f)''
                  [FInt (round (AcceptPXThreshold th)), FInt (round (GraylistThreshold th))]])))"

definition buildPubSubOptions ::
  "'ma netLib \<Rightarrow> 'key config \<Rightarrow> paramStore \<Rightarrow> peerAllowlist option \<Rightarrow> 'ma addrInfo list
     \<Rightarrow> ((goerror + 'ma psOption list) \<times> paramStore) \<times> logline list" where
  "buildPubSubOptions lib config st allowlist staticPeers =
     (let (pxOpts, pxLogs) = exchangeOptions config;
          opts = validatorOptions allowlist @ pxOpts
      in (case resolvePeerScoreConfig config st of
            (Inl err, st') \<Rightarrow> ((Inl err, st'), pxLogs)
          | (Inr (Some (a, th)), st') \<Rightarrow>
              (case scoreOptions lib config staticPeers a th of (sOpts, sLogs) \<Rightarrow>
                 ((Inr (opts @ sOpts), st'), pxLogs @ sLogs))
          | (Inr None, st') \<Rightarrow>
              ((Inr opts, st'),
               pxLogs @
                 (if \<not> DisablePeerExchange config
                  then [Warnf ''GossipSub peer exchange is enabled without peer scoring; Sybil peers can capture the mesh - set EnablePeerScoring or DisablePeerExchange'' []]
                  else []))))"

section \<open>Lemmas\<close>

lemmas scoring_defs = resolvePeerScoreConfig_def DefaultPeerScoreParams_def Let_def

lemma resolve_result:
  "fst (resolvePeerScoreConfig config st) =
     (if EnablePeerScoring config
      then Inr (Some (case PeerScoreParamsPtr config of None \<Rightarrow> length st | Some a \<Rightarrow> a,
                      case PeerScoreThresholdsPtr config of None \<Rightarrow> DefaultPeerScoreThresholds | Some th \<Rightarrow> th))
      else case (PeerScoreParamsPtr config, PeerScoreThresholdsPtr config) of
             (None, None) \<Rightarrow> Inr None
           | (Some a, Some th) \<Rightarrow> Inr (Some (a, th))
           | _ \<Rightarrow> Inl ErrIncompletePeerScoreConfig)"
  by (auto simp: scoring_defs split: option.splits)

text \<open>What resolution writes: at most the score function of the resolved cell.\<close>

lemma resolve_store:
  assumes "i < length st"
  shows "snd (resolvePeerScoreConfig config st) ! i =
    (case (fst (resolvePeerScoreConfig config st), AppSpecificScore config) of
       (Inr (Some (a, th)), Some f) \<Rightarrow> if i = a then (st ! i)\<lparr>AppSpecificScoreFn := f\<rparr> else st ! i
     | _ \<Rightarrow> st ! i)"
  using assms
  by (cases "AppSpecificScore config") (auto simp: scoring_defs nth_append nth_list_update split: option.splits)

lemma dedupPeers_IDs: "set (map aiID (dedupPeers seen ais)) = set (map aiID ais) - seen"
  by (induction seen ais rule: dedupPeers.induct) auto

lemma dedupPeers_distinct: "distinct (map aiID (dedupPeers seen ais))"
proof (induction seen ais rule: dedupPeers.induct)
  case (2 seen ai rest)
  have "aiID ai \<notin> set (map aiID (dedupPeers (insert (aiID ai) seen) rest))"
    unfolding dedupPeers_IDs by simp
  then show ?case using 2 by simp
qed simp

lemma dedupPeers_unseen: "ai \<in> set (dedupPeers seen ais) \<Longrightarrow> aiID ai \<notin> seen"
  using dedupPeers_IDs [of seen ais] by force

lemma dedupPeers_first:
  "ai \<in> set (dedupPeers seen ais) \<Longrightarrow> find (\<lambda>x. aiID x = aiID ai) ais = Some ai"
proof (induction seen ais rule: dedupPeers.induct)
  case (2 seen x rest)
  show ?case
  proof (cases "ai = x \<and> aiID x \<notin> seen")
    case False
    let ?S = "if aiID x \<in> seen then seen else insert (aiID x) seen"
    have ai: "ai \<in> set (dedupPeers ?S rest)" using 2 False by (auto split: if_splits)
    then have "aiID ai \<notin> ?S" by (rule dedupPeers_unseen)
    then show ?thesis using 2 ai by (auto split: if_splits)
  qed simp
qed simp

lemma parseResolved_no_warnings: "l \<in> set (snd (parseResolved lib ms)) \<Longrightarrow> \<not> isWarn l"
  by (induction ms) (auto split: prod.splits sum.splits)

lemma parseEntry_no_warnings: "l \<in> set (snd (parsePeerEntry lib s)) \<Longrightarrow> \<not> isWarn l"
  using parseResolved_no_warnings [of l lib]
  by (auto simp: parsePeerEntry_def case_prod_beta split: sum.splits if_splits)

lemma parse_no_warnings: "l \<in> set (snd (parsePeerMultiaddrs lib cfgs)) \<Longrightarrow> \<not> isWarn l"
  by (auto simp: parsePeerMultiaddrs_concat dest: parseEntry_no_warnings)

lemma scoreOptions_logs: "l \<in> set (snd (scoreOptions lib config staticPeers a th)) \<Longrightarrow> \<not> isWarn l"
  using parse_no_warnings [of l lib "BootstrapPeers config"]
  by (auto simp: scoreOptions_def directPeers_def Let_def split: prod.splits if_splits)


lemma scoreOptions_opts:
  "WithPeerScore a th \<in> set (fst (scoreOptions lib config staticPeers a th))"
  "WithPeerExchange b \<notin> set (fst (scoreOptions lib config staticPeers a th))"
  "WithDirectPeers ds \<in> set (fst (scoreOptions lib config staticPeers a th)) \<longleftrightarrow>
     ds \<noteq> [] \<and> ds = fst (directPeers lib config staticPeers)"
  by (auto simp: scoreOptions_def Let_def split: prod.splits)

text \<open>Whether an option list turns scoring on, and whether it turns peer exchange on.\<close>

definition scores :: "'ma psOption list \<Rightarrow> bool" where
  "scores opts \<longleftrightarrow> list_ex (\<lambda>opt. case opt of WithPeerScore a th \<Rightarrow> True | _ \<Rightarrow> False) opts"

definition exchanges :: "'ma psOption list \<Rightarrow> bool" where
  "exchanges opts \<longleftrightarrow> list_ex (\<lambda>opt. case opt of WithPeerExchange b \<Rightarrow> b | _ \<Rightarrow> False) opts"

lemma scores_scoreOptions: "scores (fst (scoreOptions lib config staticPeers a th))"
  using scoreOptions_opts(1) by (force simp: scores_def list_ex_iff)

section \<open>Properties\<close>

text \<open>Which configurations run with scoring: all with \<open>EnablePeerScoring\<close>, the library defaults
  filling in what is unset; without it those that supply both halves; exactly one half is an
  error, none turns scoring off.\<close>

lemma scoring_resolution:
  "fst (resolvePeerScoreConfig config st) =
     (if EnablePeerScoring config
      then Inr (Some (case PeerScoreParamsPtr config of None \<Rightarrow> length st | Some a \<Rightarrow> a,
                      case PeerScoreThresholdsPtr config of None \<Rightarrow> DefaultPeerScoreThresholds | Some th \<Rightarrow> th))
      else case (PeerScoreParamsPtr config, PeerScoreThresholdsPtr config) of
             (None, None) \<Rightarrow> Inr None
           | (Some a, Some th) \<Rightarrow> Inr (Some (a, th))
           | _ \<Rightarrow> Inl ErrIncompletePeerScoreConfig)"
  by (rule resolve_result)

text \<open>C34. Resolution writes through the caller's pointer only to install \<open>AppSpecificScore\<close>: of the
  cells that existed before, only the resolved one changes, only when a score function is
  configured, and only in that field.\<close>

theorem scoring_writes:
  assumes "i < length st"
  shows "snd (resolvePeerScoreConfig config st) ! i =
    (case (fst (resolvePeerScoreConfig config st), AppSpecificScore config) of
       (Inr (Some (a, th)), Some f) \<Rightarrow> if i = a then (st ! i)\<lparr>AppSpecificScoreFn := f\<rparr> else st ! i
     | _ \<Rightarrow> st ! i)"
  using assms by (rule resolve_store)

lemma scoring_writes_witness:
  "AppSpecificScoreFn (snd (resolvePeerScoreConfig
      ((zeroConfig :: unit config)\<lparr>EnablePeerScoring := True, PeerScoreParamsPtr := Some 0,
         AppSpecificScore := Some (\<lambda>p. 7)\<rparr>) [defaultPeerScoreParams]) ! 0) ''abc'' = 7"
  by (subst scoring_writes) (simp_all add: resolve_result)

text \<open>The spec-violating mesh is never configured silently: whenever the options are built, a
  warning is logged exactly when they turn peer exchange on and scoring off.\<close>

lemma exchange_without_scoring_warns:
  assumes "fst (fst (buildPubSubOptions lib config st allowlist staticPeers)) = Inr opts"
  shows "(\<exists>l \<in> set (snd (buildPubSubOptions lib config st allowlist staticPeers)). isWarn l)
     \<longleftrightarrow> exchanges opts \<and> \<not> scores opts"
  using assms scores_scoreOptions scoreOptions_logs
  by (fastforce simp: buildPubSubOptions_def exchangeOptions_def validatorOptions_def exchanges_def scores_def
      Let_def case_prod_beta split: sum.splits option.splits if_splits prod.splits)

lemma exchange_without_scoring_warns_witness:
  "(\<exists>l \<in> set (snd (buildPubSubOptions textLib (zeroConfig :: unit config) [] None [])). isWarn l)
     \<longleftrightarrow> exchanges [WithPeerExchange True :: string psOption] \<and> \<not> scores [WithPeerExchange True :: string psOption]"
  by (rule exchange_without_scoring_warns)
     (simp add: buildPubSubOptions_def exchangeOptions_def validatorOptions_def enabled_def
       resolvePeerScoreConfig_def zeroConfig_def Let_def)

text \<open>The peers exempt from scoring are those the operator configured: the direct peers carry
  exactly the IDs of the static and the explicitly configured bootstrap peers, each once, with
  the first address record of that ID; the public default bootstrap peers are never among them.\<close>

lemma direct_peers_exact:
  "set (map aiID (fst (directPeers lib config staticPeers)))
     = set (map aiID staticPeers) \<union> set (map aiID (fst (parsePeerMultiaddrs lib (BootstrapPeers config))))
   \<and> distinct (map aiID (fst (directPeers lib config staticPeers)))
   \<and> list_all (\<lambda>ai. find (\<lambda>x. aiID x = aiID ai)
          (staticPeers @ fst (parsePeerMultiaddrs lib (BootstrapPeers config))) = Some ai)
       (fst (directPeers lib config staticPeers))"
  by (auto simp: directPeers_def case_prod_beta dedupPeers_IDs dedupPeers_distinct dedupPeers_first
      list_all_iff simp del: set_map)

end
