(* ===== verification/ResLimits.thy ===== *)
theory ResLimits
  imports Config
begin

text \<open>
  Resource-manager limits, src/resource_limits.go: validation of the overrides, the check of
  directional limits against the effective totals, and the construction of the manager.
  libp2p's resource manager is the parameter \<open>rc\<close>: how overrides combine with the auto-scaled
  defaults of the host, how a limit value is read, and what the constructor returns.
\<close>

section \<open>What the code uses of the resource manager\<close>

text \<open>The fields of \<open>rcmgr.ResourceLimits\<close> (each a \<open>LimitVal\<close>, an integer) the code sets and reads.\<close>

record rcLimits =
  rConns :: int
  rConnsInbound :: int
  rConnsOutbound :: int
  rStreams :: int
  rStreamsInbound :: int
  rStreamsOutbound :: int
  rFD :: int

record partialLimitConfig =
  pSystem :: rcLimits
  pPeerDefault :: rcLimits

record connLimitPerSubnet =
  rcPrefixLength :: int
  rcConnCount :: int

record ('eff, 'mgr) rcmgrLib =
  buildLimits :: "partialLimitConfig \<Rightarrow> 'eff" \<comment> \<open>\<open>overrides.Build(defaults.AutoScale())\<close>\<close>
  toPartial :: "'eff \<Rightarrow> partialLimitConfig" \<comment> \<open>\<open>effective.ToPartialLimitConfig()\<close>\<close>
  limitValBuild :: "int \<Rightarrow> int \<Rightarrow> int" \<comment> \<open>\<open>LimitVal.Build\<close>\<close>
  newResourceManager :: "'eff \<Rightarrow> connLimitPerSubnet list \<Rightarrow> connLimitPerSubnet list \<Rightarrow> goerror + 'mgr"

section \<open>Validation\<close>

definition errInvalidResourceLimits :: goerror where
  "errInvalidResourceLimits = NewErr ''invalid resource limits''"

definition errSystemLimitsNotInspectable :: goerror where
  "errSystemLimitsNotInspectable = NewErr ''system scope does not expose its limits''"

definition counts :: "resourceLimits \<Rightarrow> (string \<times> int) list" where
  "counts l =
     [(''Conns'', Conns l), (''ConnsInbound'', ConnsInbound l), (''ConnsOutbound'', ConnsOutbound l),
      (''Streams'', Streams l), (''StreamsInbound'', StreamsInbound l),
      (''StreamsOutbound'', StreamsOutbound l), (''FD'', FD l), (''PeerConns'', PeerConns l),
      (''PeerConnsInbound'', PeerConnsInbound l), (''PeerStreamsInbound'', PeerStreamsInbound l)]"

definition isZero :: "resourceLimits \<Rightarrow> bool" where
  "isZero l \<longleftrightarrow>
     (if IPv4SubnetLimits l \<noteq> [] \<or> IPv6SubnetLimits l \<noteq> [] then False
      else list_all (\<lambda>(name, v). v = 0) (counts l))"

text \<open>A nil error is \<open>None\<close>.\<close>

fun validateCounts :: "(string \<times> int) list \<Rightarrow> goerror option" where
  "validateCounts [] = None"
| "validateCounts ((name, v) # rest) =
     (if v < 0 then Some (FmtErrorf ''%w: %s must not be negative, got %d''
                            [FWrap errInvalidResourceLimits, FStr name, FInt v])
      else validateCounts rest)"

fun validateSubnetsFrom :: "nat \<Rightarrow> string \<Rightarrow> subnetConnLimit list \<Rightarrow> int \<Rightarrow> goerror option" where
  "validateSubnetsFrom i name [] maxPrefix = None"
| "validateSubnetsFrom i name (s # rest) maxPrefix =
     (if PrefixLength s < 0 \<or> maxPrefix < PrefixLength s then
        Some (FmtErrorf ''%w: %s[%d].PrefixLength must be between 0 and %d, got %d''
                [FWrap errInvalidResourceLimits, FStr name, FInt (int i), FInt maxPrefix, FInt (PrefixLength s)])
      else if SubnetConns s \<le> 0 then
        Some (FmtErrorf ''%w: %s[%d].Conns must be positive, got %d''
                [FWrap errInvalidResourceLimits, FStr name, FInt (int i), FInt (SubnetConns s)])
      else validateSubnetsFrom (Suc i) name rest maxPrefix)"

definition validateSubnetLimits :: "string \<Rightarrow> subnetConnLimit list \<Rightarrow> int \<Rightarrow> goerror option" where
  "validateSubnetLimits name limits maxPrefix = validateSubnetsFrom 0 name limits maxPrefix"

definition validate :: "resourceLimits \<Rightarrow> int \<Rightarrow> goerror option" where
  "validate l maxConns =
     (case validateCounts (counts l) of
        Some err \<Rightarrow> Some err
      | None \<Rightarrow>
          if 0 < Conns l \<and> Conns l < maxConns then
            Some (FmtErrorf ''%w: Conns (%d) is below MaxConnections (%d); the connection manager could never reach its high water mark''
                    [FWrap errInvalidResourceLimits, FInt (Conns l), FInt maxConns])
          else
            (case validateSubnetLimits ''IPv4SubnetLimits'' (IPv4SubnetLimits l) 32 of
               Some err \<Rightarrow> Some err
             | None \<Rightarrow> validateSubnetLimits ''IPv6SubnetLimits'' (IPv6SubnetLimits l) 128))"

section \<open>Directional limits\<close>

record limitPair =
  lpPart :: string
  lpTotal :: string
  partSet :: bool
  totalSet :: bool
  partVal :: int
  totalVal :: int

definition limitPairs :: "resourceLimits \<Rightarrow> partialLimitConfig \<Rightarrow> limitPair list" where
  "limitPairs l p =
     (let sys = pSystem p; peerDefault = pPeerDefault p in
      [\<lparr>lpPart = ''ConnsInbound'', lpTotal = ''Conns'', partSet = 0 < ConnsInbound l,
         totalSet = 0 < Conns l, partVal = rConnsInbound sys, totalVal = rConns sys\<rparr>,
       \<lparr>lpPart = ''ConnsOutbound'', lpTotal = ''Conns'', partSet = 0 < ConnsOutbound l,
         totalSet = 0 < Conns l, partVal = rConnsOutbound sys, totalVal = rConns sys\<rparr>,
       \<lparr>lpPart = ''StreamsInbound'', lpTotal = ''Streams'', partSet = 0 < StreamsInbound l,
         totalSet = 0 < Streams l, partVal = rStreamsInbound sys, totalVal = rStreams sys\<rparr>,
       \<lparr>lpPart = ''StreamsOutbound'', lpTotal = ''Streams'', partSet = 0 < StreamsOutbound l,
         totalSet = 0 < Streams l, partVal = rStreamsOutbound sys, totalVal = rStreams sys\<rparr>,
       \<lparr>lpPart = ''PeerConnsInbound'', lpTotal = ''PeerConns'', partSet = 0 < PeerConnsInbound l,
         totalSet = 0 < PeerConns l, partVal = rConnsInbound peerDefault, totalVal = rConns peerDefault\<rparr>])"

fun checkPairs :: "(int \<Rightarrow> int \<Rightarrow> int) \<Rightarrow> limitPair list \<Rightarrow> goerror option" where
  "checkPairs build [] = None"
| "checkPairs build (p # rest) =
     (if \<not> partSet p then checkPairs build rest
      else
        (let part = build (partVal p) 0; total = build (totalVal p) 0 in
         if part \<le> total then checkPairs build rest
         else if totalSet p then
           Some (FmtErrorf ''%w: %s (%d) exceeds %s (%d)''
                   [FWrap errInvalidResourceLimits, FStr (lpPart p), FInt part, FStr (lpTotal p), FInt total])
         else
           Some (FmtErrorf ''%w: %s (%d) exceeds the auto-scaled %s (%d); set %s as well''
                   [FWrap errInvalidResourceLimits, FStr (lpPart p), FInt part, FStr (lpTotal p), FInt total,
                    FStr (lpTotal p)])))"

definition checkDirectionalLimits ::
  "('eff, 'mgr) rcmgrLib \<Rightarrow> resourceLimits \<Rightarrow> 'eff \<Rightarrow> goerror option" where
  "checkDirectionalLimits rc l effective =
     checkPairs (limitValBuild rc) (limitPairs l (toPartial rc effective))"

section \<open>Building the manager\<close>

definition toConnLimitPerSubnet :: "subnetConnLimit list \<Rightarrow> connLimitPerSubnet list" where
  "toConnLimitPerSubnet limits =
     map (\<lambda>s. \<lparr>rcPrefixLength = PrefixLength s, rcConnCount = SubnetConns s\<rparr>) limits"

definition overridesOf :: "resourceLimits \<Rightarrow> partialLimitConfig" where
  "overridesOf l =
     \<lparr>pSystem = \<lparr>rConns = Conns l, rConnsInbound = ConnsInbound l, rConnsOutbound = ConnsOutbound l,
        rStreams = Streams l, rStreamsInbound = StreamsInbound l, rStreamsOutbound = StreamsOutbound l,
        rFD = FD l\<rparr>,
      pPeerDefault = \<lparr>rConns = PeerConns l, rConnsInbound = PeerConnsInbound l, rConnsOutbound = 0,
        rStreams = 0, rStreamsInbound = PeerStreamsInbound l, rStreamsOutbound = 0, rFD = 0\<rparr>\<rparr>"

text \<open>\<open>Inr None\<close> is the nil manager that leaves everything to go-libp2p.\<close>

definition buildResourceManager ::
  "('eff, 'mgr) rcmgrLib \<Rightarrow> resourceLimits \<Rightarrow> int \<Rightarrow> goerror + 'mgr option" where
  "buildResourceManager rc l maxConns =
     (if isZero l then Inr None
      else
        (case validate l maxConns of
           Some err \<Rightarrow> Inl err
         | None \<Rightarrow>
             (let effective = buildLimits rc (overridesOf l) in
              case checkDirectionalLimits rc l effective of
                Some err \<Rightarrow> Inl err
              | None \<Rightarrow>
                  (case newResourceManager rc effective (toConnLimitPerSubnet (IPv4SubnetLimits l))
                          (toConnLimitPerSubnet (IPv6SubnetLimits l)) of
                     Inl err \<Rightarrow> Inl (FmtErrorf ''failed to create resource manager: %w'' [FWrap err])
                   | Inr mgr \<Rightarrow> Inr (Some mgr)))))"

text \<open>The host options: none, or the one that installs the manager.\<close>

definition resourceManagerOptions ::
  "('eff, 'mgr) rcmgrLib \<Rightarrow> resourceLimits \<Rightarrow> int \<Rightarrow> goerror + 'mgr list" where
  "resourceManagerOptions rc l maxConns =
     (case buildResourceManager rc l maxConns of
        Inl err \<Rightarrow> Inl err
      | Inr None \<Rightarrow> Inr []
      | Inr (Some mgr) \<Rightarrow> Inr [mgr])"

text \<open>
  \<open>logSystemLimits\<close>: \<open>limit\<close> is the system scope's limit (its eight numbers in the order of the log
  line), or \<open>None\<close> when the scope does not expose one; \<open>ViewSystem\<close> returns what its callback does.
\<close>

definition logSystemLimits :: "int list option \<Rightarrow> logline list" where
  "logSystemLimits limit =
     (case limit of
        Some ns \<Rightarrow> [Infof ''Resource manager system limits: conns=%d inbound=%d outbound=%d streams=%d streamsInbound=%d streamsOutbound=%d fd=%d memory=%d''
                      (map FInt ns)]
      | None \<Rightarrow> [Warnf ''Could not read resource manager system limits: %v''
                   [FErr errSystemLimitsNotInspectable]])"

section \<open>What validation accepts\<close>

lemma validateCounts_None: "validateCounts cs = None \<longleftrightarrow> list_all (\<lambda>(name, v). 0 \<le> v) cs"
  by (induction cs rule: validateCounts.induct) auto

definition subnetOK :: "int \<Rightarrow> subnetConnLimit \<Rightarrow> bool" where
  "subnetOK maxPrefix s \<longleftrightarrow> 0 \<le> PrefixLength s \<and> PrefixLength s \<le> maxPrefix \<and> 0 < SubnetConns s"

lemma validateSubnets_None:
  "validateSubnetsFrom i name limits maxPrefix = None \<longleftrightarrow> list_all (subnetOK maxPrefix) limits"
  by (induction limits arbitrary: i) (auto simp: subnetOK_def)

definition errorWrapsInvalid :: "goerror option \<Rightarrow> bool" where
  "errorWrapsInvalid e = (case e of None \<Rightarrow> True | Some err \<Rightarrow> errorsIs err errInvalidResourceLimits)"

lemma errorsIs_invalid [simp]: "errorsIs errInvalidResourceLimits errInvalidResourceLimits"
  by (simp add: errInvalidResourceLimits_def)

lemma validateCounts_wraps: "errorWrapsInvalid (validateCounts cs)"
  by (induction cs rule: validateCounts.induct) (auto simp: errorWrapsInvalid_def)

lemma validateSubnets_wraps: "errorWrapsInvalid (validateSubnetsFrom i name limits maxPrefix)"
  by (induction i name limits maxPrefix rule: validateSubnetsFrom.induct) (auto simp: errorWrapsInvalid_def)

lemma checkPairs_wraps: "errorWrapsInvalid (checkPairs build ps)"
  by (induction build ps rule: checkPairs.induct) (auto simp: errorWrapsInvalid_def Let_def)

lemma checkPairs_None:
  "checkPairs build ps = None \<longleftrightarrow>
     list_all (\<lambda>p. \<not> partSet p \<or> build (partVal p) 0 \<le> build (totalVal p) 0) ps"
  by (induction ps) (auto simp: Let_def)

section \<open>Properties\<close>

text \<open>C30. Validation accepts exactly the overrides none of whose ten limits is negative, with \<open>Conns\<close> unset or at
  least the high water mark, and with subnet entries of a legal prefix and a positive count;
  every rejection wraps \<open>errInvalidResourceLimits\<close>.\<close>

theorem validate_exact:
  "(validate l maxConns = None) =
     (0 \<le> Conns l \<and> 0 \<le> ConnsInbound l \<and> 0 \<le> ConnsOutbound l \<and> 0 \<le> Streams l \<and> 0 \<le> StreamsInbound l
      \<and> 0 \<le> StreamsOutbound l \<and> 0 \<le> FD l \<and> 0 \<le> PeerConns l \<and> 0 \<le> PeerConnsInbound l \<and> 0 \<le> PeerStreamsInbound l
      \<and> (Conns l = 0 \<or> maxConns \<le> Conns l)
      \<and> list_all (subnetOK 32) (IPv4SubnetLimits l) \<and> list_all (subnetOK 128) (IPv6SubnetLimits l))
   \<and> errorWrapsInvalid (validate l maxConns)"
proof -
  have "errorWrapsInvalid (validate l maxConns)"
    using validateCounts_wraps [of "counts l"]
      validateSubnets_wraps [of 0 "''IPv4SubnetLimits''" "IPv4SubnetLimits l" 32]
      validateSubnets_wraps [of 0 "''IPv6SubnetLimits''" "IPv6SubnetLimits l" 128]
    by (auto simp: validate_def validateSubnetLimits_def errorWrapsInvalid_def split: option.splits)
  moreover have "(validate l maxConns = None) =
     (validateCounts (counts l) = None \<and> \<not> (0 < Conns l \<and> Conns l < maxConns)
      \<and> validateSubnetLimits ''IPv4SubnetLimits'' (IPv4SubnetLimits l) 32 = None
      \<and> validateSubnetLimits ''IPv6SubnetLimits'' (IPv6SubnetLimits l) 128 = None)"
    by (simp add: validate_def split: option.splits)
  ultimately show ?thesis
    by (auto simp: validateSubnetLimits_def validateSubnets_None validateCounts_None counts_def)
qed

text \<open>
  The documented behaviour of the resource manager the code relies on: a positive override
  is the effective limit, and a positive limit value reads as itself.
\<close>

definition overridesWin :: "('eff, 'mgr) rcmgrLib \<Rightarrow> resourceLimits \<Rightarrow> bool" where
  "overridesWin rc l \<longleftrightarrow>
     (let p = toPartial rc (buildLimits rc (overridesOf l)); o' = overridesOf l in
      (\<forall>v > 0. limitValBuild rc v 0 = v) \<and>
      (\<forall>f \<in> {rConns, rConnsInbound, rConnsOutbound, rStreams, rStreamsInbound, rStreamsOutbound}.
         (0 < f (pSystem o') \<longrightarrow> f (pSystem p) = f (pSystem o')) \<and>
         (0 < f (pPeerDefault o') \<longrightarrow> f (pPeerDefault p) = f (pPeerDefault o'))))"

text \<open>Each directional limit as configured, with its total as configured and as in effect.\<close>

definition directional :: "resourceLimits \<Rightarrow> partialLimitConfig \<Rightarrow> (int \<times> int \<times> int) list" where
  "directional l p =
     [(ConnsInbound l, Conns l, rConns (pSystem p)), (ConnsOutbound l, Conns l, rConns (pSystem p)),
      (StreamsInbound l, Streams l, rStreams (pSystem p)), (StreamsOutbound l, Streams l, rStreams (pSystem p)),
      (PeerConnsInbound l, PeerConns l, rConns (pPeerDefault p))]"

lemma directional_pair:
  fixes part total :: int
  assumes "\<forall>v > 0. build v 0 = v" and "0 < part \<longrightarrow> part' = part" and "0 < total \<longrightarrow> total' = total"
    and "part \<le> 0 \<or> build part' 0 \<le> build total' 0"
  shows "part \<le> 0 \<or> part \<le> build total' 0 \<and> (total \<le> 0 \<or> part \<le> total)"
  using assms by (cases "0 < part"; cases "0 < total") auto

lemma directional_ok:
  assumes win: "overridesWin rc l"
    and "checkDirectionalLimits rc l (buildLimits rc (overridesOf l)) = None"
  shows "list_all (\<lambda>(part, total, eff). part \<le> 0 \<or> part \<le> limitValBuild rc eff 0 \<and> (total \<le> 0 \<or> part \<le> total))
    (directional l (toPartial rc (buildLimits rc (overridesOf l))))"
proof -
  let ?p = "toPartial rc (buildLimits rc (overridesOf l))"
  let ?o = "overridesOf l"
  have pos: "\<forall>v > 0. limitValBuild rc v 0 = v" using win by (simp add: overridesWin_def Let_def)
  have sys: "0 < f (pSystem ?o) \<longrightarrow> f (pSystem ?p) = f (pSystem ?o)"
    and peer: "0 < f (pPeerDefault ?o) \<longrightarrow> f (pPeerDefault ?p) = f (pPeerDefault ?o)"
    if "f \<in> {rConns, rConnsInbound, rConnsOutbound, rStreams, rStreamsInbound, rStreamsOutbound}" for f
    using win that unfolding overridesWin_def Let_def by blast+
  have checked: "ConnsInbound l \<le> 0 \<or> limitValBuild rc (rConnsInbound (pSystem ?p)) 0 \<le> limitValBuild rc (rConns (pSystem ?p)) 0"
    "ConnsOutbound l \<le> 0 \<or> limitValBuild rc (rConnsOutbound (pSystem ?p)) 0 \<le> limitValBuild rc (rConns (pSystem ?p)) 0"
    "StreamsInbound l \<le> 0 \<or> limitValBuild rc (rStreamsInbound (pSystem ?p)) 0 \<le> limitValBuild rc (rStreams (pSystem ?p)) 0"
    "StreamsOutbound l \<le> 0 \<or> limitValBuild rc (rStreamsOutbound (pSystem ?p)) 0 \<le> limitValBuild rc (rStreams (pSystem ?p)) 0"
    "PeerConnsInbound l \<le> 0 \<or> limitValBuild rc (rConnsInbound (pPeerDefault ?p)) 0 \<le> limitValBuild rc (rConns (pPeerDefault ?p)) 0"
    using assms(2) unfolding checkDirectionalLimits_def checkPairs_None
    by (simp_all add: limitPairs_def Let_def disj_imp not_le)
  have vals: "0 < Conns l \<longrightarrow> rConns (pSystem ?p) = Conns l"
    "0 < ConnsInbound l \<longrightarrow> rConnsInbound (pSystem ?p) = ConnsInbound l"
    "0 < ConnsOutbound l \<longrightarrow> rConnsOutbound (pSystem ?p) = ConnsOutbound l"
    "0 < Streams l \<longrightarrow> rStreams (pSystem ?p) = Streams l"
    "0 < StreamsInbound l \<longrightarrow> rStreamsInbound (pSystem ?p) = StreamsInbound l"
    "0 < StreamsOutbound l \<longrightarrow> rStreamsOutbound (pSystem ?p) = StreamsOutbound l"
    "0 < PeerConns l \<longrightarrow> rConns (pPeerDefault ?p) = PeerConns l"
    "0 < PeerConnsInbound l \<longrightarrow> rConnsInbound (pPeerDefault ?p) = PeerConnsInbound l"
    using sys [of rConns] sys [of rConnsInbound] sys [of rConnsOutbound] sys [of rStreams]
      sys [of rStreamsInbound] sys [of rStreamsOutbound] peer [of rConns] peer [of rConnsInbound]
    by (simp_all add: overridesOf_def)
  note pair = directional_pair [where build = "limitValBuild rc", OF pos]
  show ?thesis unfolding directional_def list.pred_inject prod.case
    using pair [OF vals(2,1) checked(1)] pair [OF vals(3,1) checked(2)] pair [OF vals(5,4) checked(3)]
      pair [OF vals(6,4) checked(4)] pair [OF vals(8,7) checked(5)]
    by (simp only: list.pred_inject simp_thms)
qed

text \<open>C31. Of the inbound and outbound limits the operator sets, none of the five that the code checks (all but
  \<open>PeerStreamsInbound\<close>) is capped silently: when the manager is built, each is at most its total as it is in effect, and at
  most the total as configured where that is set too.  The sixth is not checked: the check gives the same verdict
  whatever \<open>PeerStreamsInbound\<close> is, so above the auto-scaled streams of a peer it is capped without an error.\<close>

theorem directional_limits_effective:
  assumes "overridesWin rc l" and "buildResourceManager rc l maxConns = Inr (Some mgr)"
  shows "list_all (\<lambda>(part, total, eff). part \<le> 0 \<or> part \<le> limitValBuild rc eff 0 \<and> (total \<le> 0 \<or> part \<le> total))
    (directional l (toPartial rc (buildLimits rc (overridesOf l))))
   \<and> (\<forall>n effective. checkDirectionalLimits rc (l\<lparr>PeerStreamsInbound := n\<rparr>) effective = checkDirectionalLimits rc l effective)"
proof
  show "list_all (\<lambda>(part, total, eff). part \<le> 0 \<or> part \<le> limitValBuild rc eff 0 \<and> (total \<le> 0 \<or> part \<le> total))
    (directional l (toPartial rc (buildLimits rc (overridesOf l))))"
    using assms(2)
    by (intro directional_ok [OF assms(1)])
       (auto simp: buildResourceManager_def Let_def split: if_splits option.splits)
  show "\<forall>n effective. checkDirectionalLimits rc (l\<lparr>PeerStreamsInbound := n\<rparr>) effective = checkDirectionalLimits rc l effective"
    by (simp add: checkDirectionalLimits_def limitPairs_def)
qed

text \<open>A resource manager for the witness: 64 connections and streams by default, overrides win.\<close>

definition toyLimits :: "rcLimits \<Rightarrow> rcLimits" where
  "toyLimits o' = (let d = (\<lambda>v. if v = 0 then 64 else v) in
     \<lparr>rConns = d (rConns o'), rConnsInbound = d (rConnsInbound o'), rConnsOutbound = d (rConnsOutbound o'),
      rStreams = d (rStreams o'), rStreamsInbound = d (rStreamsInbound o'),
      rStreamsOutbound = d (rStreamsOutbound o'), rFD = d (rFD o')\<rparr>)"

definition toyRcmgr :: "(partialLimitConfig, unit) rcmgrLib" where
  "toyRcmgr = \<lparr>buildLimits = (\<lambda>p. \<lparr>pSystem = toyLimits (pSystem p), pPeerDefault = toyLimits (pPeerDefault p)\<rparr>),
     toPartial = (\<lambda>p. p), limitValBuild = (\<lambda>v d. if v = 0 then d else v),
     newResourceManager = (\<lambda>e v4 v6. Inr ())\<rparr>"

lemma toyRcmgr_overridesWin: "overridesWin toyRcmgr l"
  by (simp add: overridesWin_def toyRcmgr_def toyLimits_def Let_def)

text \<open>Forty inbound connections fit; a hundred inbound streams per peer are accepted where a peer has 64 streams in all.\<close>

lemma directional_limits_effective_witness:
  "list_all (\<lambda>(part, total, eff). part \<le> 0 \<or> part \<le> limitValBuild toyRcmgr eff 0 \<and> (total \<le> 0 \<or> part \<le> total))
    (directional (zeroResourceLimits\<lparr>ConnsInbound := 40\<rparr>)
       (toPartial toyRcmgr (buildLimits toyRcmgr (overridesOf (zeroResourceLimits\<lparr>ConnsInbound := 40\<rparr>)))))
   \<and> (let l = zeroResourceLimits\<lparr>ConnsInbound := 40, PeerStreamsInbound := 100\<rparr>; e = buildLimits toyRcmgr (overridesOf l) in
      checkDirectionalLimits toyRcmgr l e = None \<and> rStreamsInbound (pPeerDefault e) = 100 \<and> rStreams (pPeerDefault e) = 64)"
proof -
  have "buildResourceManager toyRcmgr (zeroResourceLimits\<lparr>ConnsInbound := 40\<rparr>) 35 = Inr (Some ())"
    by (simp add: buildResourceManager_def isZero_def counts_def zeroResourceLimits_def validate_def
        validateSubnetLimits_def checkDirectionalLimits_def limitPairs_def toyRcmgr_def toyLimits_def
        overridesOf_def Let_def)
  note built = directional_limits_effective [OF toyRcmgr_overridesWin this]
  then show ?thesis
    by (simp add: checkDirectionalLimits_def limitPairs_def toyRcmgr_def toyLimits_def overridesOf_def zeroResourceLimits_def Let_def)
qed

text \<open>A zero \<open>ResourceLimits\<close> leaves the manager to go-libp2p whatever the rest of the
  configuration and the host say, and anything else either fails or installs exactly one
  manager.\<close>

lemma resource_manager_options:
  "resourceManagerOptions rc l maxConns =
     (if isZero l then Inr []
      else case buildResourceManager rc l maxConns of
             Inl err \<Rightarrow> Inl err
           | Inr mgr \<Rightarrow> Inr [the mgr])
   \<and> (isZero l \<or> buildResourceManager rc l maxConns \<noteq> Inr None)"
  by (auto simp: resourceManagerOptions_def buildResourceManager_def Let_def split: sum.splits option.splits)

end
