(* ===== verification/Limiter.thy ===== *)
theory Limiter
  imports Prelude
begin

text \<open>
  The per-peer budget of inbound peer-address requests (\<open>peerAddressLimiter\<close> of
  src/types.go): one fixed window per peer, counted from the peer's first request, and
  pruned on every call.  The lemmas bound what a peer is granted in any interval of the
  window's length, show that the windows of different peers do not interfere, and bound
  the map by the peers seen within the last window.
\<close>

section \<open>State and operations\<close>

definition peerAddressRequestWindow :: duration where
  "peerAddressRequestWindow = minute"

definition peerAddressRequestsPerWindow :: nat where
  "peerAddressRequestsPerWindow = 512"

record requestWindow =
  start :: gotime
  count :: nat

record peerAddressLimiter =
  windows :: "peerID \<rightharpoonup> requestWindow"

definition newPeerAddressLimiter :: peerAddressLimiter where
  "newPeerAddressLimiter = \<lparr>windows = Map.empty\<rparr>"

definition windowExpired :: "gotime \<Rightarrow> peerID \<Rightarrow> requestWindow \<Rightarrow> bool" where
  "windowExpired now p w \<longleftrightarrow> peerAddressRequestWindow \<le> timeSub now (start w)"

text \<open>Reading a missing key of a Go map yields the zero value of its element type.\<close>

definition windowOf :: "(peerID \<rightharpoonup> requestWindow) \<Rightarrow> peerID \<Rightarrow> requestWindow" where
  "windowOf ws p = (case ws p of None \<Rightarrow> \<lparr>start = 0, count = 0\<rparr> | Some w \<Rightarrow> w)"

definition allow :: "peerAddressLimiter \<Rightarrow> peerID \<Rightarrow> gotime \<Rightarrow> peerAddressLimiter \<times> bool \<times> bool" where
  "allow l peer now =
     (let ws = map_drop (windowExpired now) (windows l);
          w0 = windowOf ws peer;
          w1 = (if count w0 = 0 then w0\<lparr>start := now\<rparr> else w0);
          w = w1\<lparr>count := count w1 + 1\<rparr>;
          l' = l\<lparr>windows := ws(peer \<mapsto> w)\<rparr>
      in if peerAddressRequestsPerWindow < count w
         then (l', False, count w = peerAddressRequestsPerWindow + 1)
         else (l', True, False))"

text \<open>
  A history of calls: the peer and the time of each request, in the order in which the
  limiter's mutex admits them, with the verdict each call returned.
\<close>

fun allowRun :: "peerAddressLimiter \<Rightarrow> (peerID \<times> gotime) list \<Rightarrow> ((peerID \<times> gotime) \<times> bool \<times> bool) list" where
  "allowRun l [] = []"
| "allowRun l ((p, t) # evs) =
     (case allow l p t of (l', v) \<Rightarrow> ((p, t), v) # allowRun l' evs)"

section \<open>One call\<close>

lemmas limiter_consts = peerAddressRequestWindow_def peerAddressRequestsPerWindow_def duration_defs

lemma windowExpired_iff: "windowExpired now p w \<longleftrightarrow> minute \<le> now - start w"
  unfolding windowExpired_def peerAddressRequestWindow_def
  by (subst timeSub_ge) (auto simp: duration_defs minInt64_def maxInt64_def)

text \<open>The live window of a peer, as the next call at \<open>now\<close> finds it.\<close>

definition live :: "peerAddressLimiter \<Rightarrow> peerID \<Rightarrow> gotime \<Rightarrow> requestWindow option" where
  "live l p now = map_drop (windowExpired now) (windows l) p"

definition used :: "peerAddressLimiter \<Rightarrow> peerID \<Rightarrow> gotime \<Rightarrow> nat" where
  "used l p now = (case live l p now of None \<Rightarrow> 0 | Some w \<Rightarrow> count w)"

text \<open>Every window in the map has counted a request.\<close>

definition limiter_inv :: "peerAddressLimiter \<Rightarrow> bool" where
  "limiter_inv l \<longleftrightarrow> (\<forall>p w. windows l p = Some w \<longrightarrow> 0 < count w)"

lemma limiter_inv_new [simp]: "limiter_inv newPeerAddressLimiter"
  by (simp add: limiter_inv_def newPeerAddressLimiter_def)

lemma allow_verdict:
  "snd (allow l p now) =
     (used l p now < peerAddressRequestsPerWindow, used l p now = peerAddressRequestsPerWindow)"
  by (auto simp: allow_def used_def live_def windowOf_def Let_def
        peerAddressRequestsPerWindow_def split: option.splits)

lemma live_Some: "live l p now = Some w \<longleftrightarrow> windows l p = Some w \<and> now - start w < minute"
  by (auto simp: live_def map_drop_Some windowExpired_iff)

lemma live_count: "limiter_inv l \<Longrightarrow> live l p now = Some w \<Longrightarrow> 0 < count w"
  by (auto simp: live_Some limiter_inv_def)

lemma allow_windows:
  assumes "limiter_inv l"
  shows "windows (fst (allow l p now)) =
    (\<lambda>q. live l q now)
      (p \<mapsto> (case live l p now of None \<Rightarrow> \<lparr>start = now, count = 1\<rparr>
             | Some w \<Rightarrow> w\<lparr>count := count w + 1\<rparr>))"
  using live_count [OF assms, of p now]
  by (cases "live l p now") (auto simp: allow_def live_def windowOf_def Let_def)

lemma allow_inv: "limiter_inv l \<Longrightarrow> limiter_inv (fst (allow l p now))"
  by (subst limiter_inv_def)
     (auto simp: allow_windows live_Some limiter_inv_def split: option.splits if_splits)


section \<open>Histories of calls\<close>

fun allowState :: "peerAddressLimiter \<Rightarrow> (peerID \<times> gotime) list \<Rightarrow> peerAddressLimiter" where
  "allowState l [] = l"
| "allowState l ((p, t) # evs) = allowState (fst (allow l p t)) evs"

definition granted :: "peerID \<Rightarrow> gotime \<Rightarrow> gotime \<Rightarrow> ((peerID \<times> gotime) \<times> bool \<times> bool) list \<Rightarrow> nat" where
  "granted p lo hi vs = length (filter (\<lambda>((q, t), a, f). q = p \<and> lo \<le> t \<and> t < hi \<and> a) vs)"

definition warned :: "peerID \<Rightarrow> gotime \<Rightarrow> gotime \<Rightarrow> ((peerID \<times> gotime) \<times> bool \<times> bool) list \<Rightarrow> nat" where
  "warned p lo hi vs = length (filter (\<lambda>((q, t), a, f). q = p \<and> lo \<le> t \<and> t < hi \<and> f) vs)"

lemma allowRun_Cons:
  "allowRun l ((p, t) # evs) =
     ((p, t), used l p t < peerAddressRequestsPerWindow, used l p t = peerAddressRequestsPerWindow)
       # allowRun (fst (allow l p t)) evs"
  using allow_verdict [of l p t] by (auto split: prod.splits)

lemma map_fst_allowRun [simp]: "map fst (allowRun l evs) = evs"
  by (induction l evs rule: allowRun.induct) (auto split: prod.splits)

lemma allowRun_append: "allowRun l (xs @ ys) = allowRun l xs @ allowRun (allowState l xs) ys"
  by (induction xs arbitrary: l) (auto split: prod.splits)

lemma allowState_append: "allowState l (xs @ ys) = allowState (allowState l xs) ys"
  by (induction xs arbitrary: l) auto

lemma allowState_inv: "limiter_inv l \<Longrightarrow> limiter_inv (allowState l evs)"
  by (induction l evs rule: allowState.induct) (auto intro: allow_inv)

declare allowRun.simps(2) [simp del]
lemmas allowRun_simps = allowRun.simps(1) allowRun_Cons granted_def warned_def

text \<open>
  What a peer can still be granted in an interval \<open>[lo, lo + minute)\<close>: the rest of its
  window if that window began inside the interval, and one whole budget more otherwise.
\<close>

definition grantBound :: "peerAddressLimiter \<Rightarrow> peerID \<Rightarrow> gotime \<Rightarrow> nat" where
  "grantBound l p lo =
     (case windows l p of None \<Rightarrow> peerAddressRequestsPerWindow
      | Some w \<Rightarrow> (peerAddressRequestsPerWindow - count w) +
                    (if lo \<le> start w then 0 else peerAddressRequestsPerWindow))"

definition warnBound :: "peerAddressLimiter \<Rightarrow> peerID \<Rightarrow> gotime \<Rightarrow> nat" where
  "warnBound l p lo =
     (case windows l p of None \<Rightarrow> 1
      | Some w \<Rightarrow> (if count w \<le> peerAddressRequestsPerWindow then 1 else 0) +
                    (if lo \<le> start w then 0 else 1))"

lemma grantBound_max: "grantBound l p lo \<le> 2 * peerAddressRequestsPerWindow"
  by (auto simp: grantBound_def split: option.splits)

lemma warnBound_max: "warnBound l p lo \<le> 2"
  by (auto simp: warnBound_def split: option.splits)

lemma allow_other: "limiter_inv l \<Longrightarrow> q \<noteq> p \<Longrightarrow> windows (fst (allow l q t)) p = live l p t"
  by (simp add: allow_windows)

lemma allow_same:
  "limiter_inv l \<Longrightarrow> windows (fst (allow l p t)) p =
     Some (case live l p t of None \<Rightarrow> \<lparr>start = t, count = 1\<rparr> | Some w \<Rightarrow> w\<lparr>count := count w + 1\<rparr>)"
  by (simp add: allow_windows)

lemma live_None: "live l p t = None \<Longrightarrow> windows l p = Some w \<Longrightarrow> minute \<le> t - start w"
  using live_Some [of l p t w] by force

lemma windows_cases:
  obtains "windows l p = None" "live l p t = None"
  | w where "windows l p = Some w" "live l p t = None" "minute \<le> t - start w"
  | w where "windows l p = Some w" "live l p t = Some w" "t - start w < minute"
proof (cases "live l p t")
  case None
  then show ?thesis by (cases "windows l p") (auto dest: live_None that)
next
  case (Some w)
  then show ?thesis using that by (auto simp: live_Some)
qed

lemma grantBound_step:
  assumes inv: "limiter_inv l" and t: "lo \<le> t" "t < lo + minute"
  shows "(if q = p \<and> used l p t < peerAddressRequestsPerWindow then 1 else 0)
           + grantBound (fst (allow l q t)) p lo \<le> grantBound l p lo"
  by (rule windows_cases [of l p t]; cases "q = p"; insert t)
     (auto simp: grantBound_def used_def allow_same [OF inv] allow_other [OF inv]
        peerAddressRequestsPerWindow_def)

lemma warnBound_step:
  assumes inv: "limiter_inv l" and t: "lo \<le> t" "t < lo + minute"
  shows "(if q = p \<and> used l p t = peerAddressRequestsPerWindow then 1 else 0)
           + warnBound (fst (allow l q t)) p lo \<le> warnBound l p lo"
  by (rule windows_cases [of l p t]; cases "q = p"; insert t)
     (auto simp: warnBound_def used_def allow_same [OF inv] allow_other [OF inv]
        peerAddressRequestsPerWindow_def)


lemma sorted_times_ge:
  "sorted (map snd ((q, t) # evs)) \<Longrightarrow> c \<le> t \<Longrightarrow> \<forall>(q', u) \<in> set ((q, t) # evs). c \<le> u"
  by fastforce

text \<open>The calls of a history with a time in \<open>[lo, hi)\<close> at which a test of the limiter holds.\<close>

fun hits :: "(peerAddressLimiter \<Rightarrow> peerID \<Rightarrow> gotime \<Rightarrow> bool) \<Rightarrow> gotime \<Rightarrow> gotime
    \<Rightarrow> peerAddressLimiter \<Rightarrow> (peerID \<times> gotime) list \<Rightarrow> nat" where
  "hits h lo hi l [] = 0"
| "hits h lo hi l ((q, t) # evs) =
     (if lo \<le> t \<and> t < hi \<and> h l q t then 1 else 0) + hits h lo hi (fst (allow l q t)) evs"

lemma hits_after: "\<forall>(q, t) \<in> set evs. hi \<le> t \<Longrightarrow> hits h lo hi l evs = 0"
  by (induction evs arbitrary: l) auto

lemma granted_hits:
  "granted p lo hi (allowRun l evs) =
     hits (\<lambda>l q t. q = p \<and> used l p t < peerAddressRequestsPerWindow) lo hi l evs"
  by (induction evs arbitrary: l) (auto simp: allowRun_simps)

lemma warned_hits:
  "warned p lo hi (allowRun l evs) =
     hits (\<lambda>l q t. q = p \<and> used l p t = peerAddressRequestsPerWindow) lo hi l evs"
  by (induction evs arbitrary: l) (auto simp: allowRun_simps)

text \<open>
  A potential that every call inside the interval pays from bounds the hits of the whole
  history: what happened before the interval can only have left at most the maximum.
\<close>

locale interval_potential =
  fixes hit :: "peerAddressLimiter \<Rightarrow> peerID \<Rightarrow> gotime \<Rightarrow> bool" and lo :: gotime
    and potential :: "peerAddressLimiter \<Rightarrow> nat" and maximum :: nat
  assumes pays: "limiter_inv l \<Longrightarrow> lo \<le> t \<Longrightarrow> t < lo + minute \<Longrightarrow>
      (if hit l q t then 1 else 0) + potential (fst (allow l q t)) \<le> potential l"
    and capped: "potential l \<le> maximum"
begin

lemma hits_bound:
  assumes "limiter_inv l" and "sorted (map snd evs)"
  shows "hits hit lo (lo + minute) l evs
    \<le> (if \<forall>(q, t) \<in> set evs. lo \<le> t then potential l else maximum)"
  using assms
proof (induction evs arbitrary: l)
  case Nil
  then show ?case by simp
next
  case (Cons e evs)
  obtain q t where e: "e = (q, t)" by force
  let ?l = "fst (allow l q t)"
  have IH: "hits hit lo (lo + minute) ?l evs
      \<le> (if \<forall>(q, t) \<in> set evs. lo \<le> t then potential ?l else maximum)"
    using Cons.prems by (intro Cons.IH) (auto simp: allow_inv)
  consider "t < lo" | "lo \<le> t" "t < lo + minute" | "lo + minute \<le> t" by linarith
  then show ?case
  proof cases
    case 1
    then show ?thesis using IH capped [of ?l] by (auto simp: e split: if_splits)
  next
    case 2
    have "\<forall>(q', u) \<in> set (e # evs). lo \<le> u"
      using Cons.prems(2) 2(1) unfolding e by (rule sorted_times_ge)
    then show ?thesis using IH pays [OF Cons.prems(1) 2, of q] 2 by (auto simp: e)
  next
    case 3
    have "\<forall>(q', u) \<in> set (e # evs). lo + minute \<le> u"
      using Cons.prems(2) 3 unfolding e by (rule sorted_times_ge)
    then show ?thesis by (simp add: hits_after)
  qed
qed

lemma hits_le_maximum: "limiter_inv l \<Longrightarrow> sorted (map snd evs) \<Longrightarrow> hits hit lo (lo + minute) l evs \<le> maximum"
  using hits_bound [of l evs] capped [of l] by (auto split: if_splits)

end

interpretation grants: interval_potential
  "\<lambda>l q t. q = p \<and> used l p t < peerAddressRequestsPerWindow" lo
  "\<lambda>l. grantBound l p lo" "2 * peerAddressRequestsPerWindow" for p lo
  by unfold_locales (use grantBound_step in force, rule grantBound_max)

interpretation warnings: interval_potential
  "\<lambda>l q t. q = p \<and> used l p t = peerAddressRequestsPerWindow" lo
  "\<lambda>l. warnBound l p lo" 2 for p lo
  by unfold_locales (use warnBound_step in force, rule warnBound_max)

text \<open>Two limiters that agree on a peer from some time on give it the same verdicts.\<close>

definition agree_from :: "gotime \<Rightarrow> peerID \<Rightarrow> peerAddressLimiter \<Rightarrow> peerAddressLimiter \<Rightarrow> bool" where
  "agree_from T p l l' \<longleftrightarrow> (\<forall>t \<ge> T. live l p t = live l' p t)"

lemma agree_from_refl [simp]: "agree_from T p l l"
  by (simp add: agree_from_def)

lemma agree_used: "agree_from T p l l' \<Longrightarrow> T \<le> t \<Longrightarrow> used l p t = used l' p t"
  by (simp add: agree_from_def used_def)

lemma live_mono: "live l p u = Some w \<Longrightarrow> t \<le> u \<Longrightarrow> live l p t = Some w"
  by (simp add: live_Some)

lemma live_windows:
  assumes "windows l p = live l' p t" and "t \<le> u"
  shows "live l p u = live l' p u"
proof (cases "windows l p")
  case None
  then have "live l p u = None" by (simp add: live_def map_drop_def)
  moreover have "live l' p u = None"
    using live_mono [OF _ assms(2), of l' p] assms(1) None by (cases "live l' p u") auto
  ultimately show ?thesis by simp
next
  case (Some w)
  then have "windows l' p = Some w" using assms(1) by (metis live_Some)
  with Some show ?thesis by (simp add: live_def map_drop_def)
qed

lemma agree_from_other:
  assumes "limiter_inv l" and "q \<noteq> p" and "agree_from T p l l'" and "T \<le> t"
  shows "agree_from t p (fst (allow l q t)) l'"
  using live_windows [OF allow_other [OF assms(1,2)]] assms(3,4)
  by (auto simp: agree_from_def)

lemma agree_from_same:
  assumes "limiter_inv l" and "limiter_inv l'" and "agree_from T p l l'" and "T \<le> t"
  shows "agree_from t p (fst (allow l p t)) (fst (allow l' p t))"
proof -
  have "live l p t = live l' p t" using assms(3,4) by (simp add: agree_from_def)
  then have "windows (fst (allow l p t)) p = windows (fst (allow l' p t)) p"
    using assms(1,2) by (simp add: allow_same)
  then show ?thesis by (simp add: agree_from_def live_def map_drop_def)
qed

lemma allowRun_isolated:
  assumes "limiter_inv l" and "limiter_inv l'" and "agree_from T p l l'"
    and "sorted (map snd evs)" and "\<forall>(q, t) \<in> set evs. T \<le> t"
  shows "filter (\<lambda>v. fst (fst v) = p) (allowRun l evs) = allowRun l' (filter (\<lambda>e. fst e = p) evs)"
  using assms
proof (induction evs arbitrary: l l' T)
  case Nil
  then show ?case by simp
next
  case (Cons e evs)
  obtain q t where e: "e = (q, t)" by force
  have later: "\<forall>(q', u) \<in> set evs. t \<le> u" and T: "T \<le> t" and sorted: "sorted (map snd evs)"
    using Cons.prems(4,5) by (auto simp: e)
  show ?case
  proof (cases "q = p")
    case True
    have "filter (\<lambda>v. fst (fst v) = p) (allowRun (fst (allow l p t)) evs)
        = allowRun (fst (allow l' p t)) (filter (\<lambda>e. fst e = p) evs)"
      by (rule Cons.IH [OF allow_inv allow_inv agree_from_same _ later])
         (use Cons.prems(1-3) T sorted in auto)
    then show ?thesis using True agree_used [OF Cons.prems(3) T] by (simp add: e allowRun_Cons)
  next
    case False
    have "filter (\<lambda>v. fst (fst v) = p) (allowRun (fst (allow l q t)) evs)
        = allowRun l' (filter (\<lambda>e. fst e = p) evs)"
      by (rule Cons.IH [OF allow_inv _ agree_from_other _ later])
         (use Cons.prems(1-3) T sorted False in auto)
    then show ?thesis using False by (simp add: e allowRun_Cons)
  qed
qed

text \<open>
  The windows of a history: each began with a request of its peer and has counted only
  requests the peer made since.
\<close>

definition since :: "peerID \<Rightarrow> gotime \<Rightarrow> (peerID \<times> gotime) list \<Rightarrow> nat" where
  "since p s evs = length (filter (\<lambda>(q, t). q = p \<and> s \<le> t) evs)"

lemma allowState_windows:
  assumes "sorted (map snd evs)" and "windows (allowState newPeerAddressLimiter evs) p = Some w"
  shows "(p, start w) \<in> set evs \<and> count w \<le> since p (start w) evs
      \<and> (\<forall>(q, t) \<in> set evs. t - start w < minute)"
  using assms
proof (induction evs arbitrary: w rule: rev_induct)
  case Nil
  then show ?case by (simp add: newPeerAddressLimiter_def)
next
  case (snoc e evs)
  obtain q t where e: "e = (q, t)" by force
  let ?l = "allowState newPeerAddressLimiter evs"
  have inv: "limiter_inv ?l" by (simp add: allowState_inv)
  have before: "\<forall>(q', u) \<in> set evs. u \<le> t" and sorted: "sorted (map snd evs)"
    using snoc.prems(1) by (auto simp: e sorted_append)
  have w: "windows (fst (allow ?l q t)) p = Some w"
    using snoc.prems(2) by (simp add: e allowState_append)
  note IH = snoc.IH [OF sorted]
  show ?case
  proof (cases "live ?l p t")
    case None
    then have "p = q \<and> w = \<lparr>start = t, count = 1\<rparr>"
      using w by (cases "q = p") (auto simp: allow_same [OF inv] allow_other [OF inv])
    then show ?thesis using before by (auto simp: e since_def duration_defs)
  next
    case (Some v)
    then have v: "windows ?l p = Some v" "t - start v < minute" by (auto simp: live_Some)
    have "start w = start v \<and> count w = (if q = p then count v + 1 else count v)"
      using w Some by (cases "q = p") (auto simp: allow_same [OF inv] allow_other [OF inv])
    then show ?thesis using IH [OF v(1)] v(2) before
      by (auto simp: e since_def)
  qed
qed

lemma interval_bounds:
  assumes "sorted (map snd evs)"
  shows "granted p lo (lo + peerAddressRequestWindow) (allowRun newPeerAddressLimiter evs)
           \<le> 2 * peerAddressRequestsPerWindow"
    and "warned p lo (lo + peerAddressRequestWindow) (allowRun newPeerAddressLimiter evs) \<le> 2"
  using assms grants.hits_le_maximum [of newPeerAddressLimiter evs p lo]
    warnings.hits_le_maximum [of newPeerAddressLimiter evs p lo]
  by (simp_all add: granted_hits warned_hits peerAddressRequestWindow_def)

section \<open>Clock readings out of order\<close>

text \<open>
  The clock is read before the mutex is taken, so a later call may come with an earlier time, by at most the
  time \<open>skew\<close> a call waits.  A window can then begin as early as \<open>minute - skew\<close> after the one before it.  Of the windows that
  begin from \<open>c\<close> on and can give something before \<open>hi\<close> there are at most so many, counted up to three.
\<close>

definition skewOK :: "gotime \<Rightarrow> gotime \<Rightarrow> gotime \<Rightarrow> bool" where
  "skewOK lo hi skew \<longleftrightarrow> 0 \<le> skew \<and> hi - lo + 4 * skew \<le> 2 * minute \<and> 5 * skew \<le> minute"

definition laterWindows :: "gotime \<Rightarrow> gotime \<Rightarrow> gotime \<Rightarrow> nat" where
  "laterWindows hi skew c =
     (if hi + skew \<le> c then 0
      else if hi + skew \<le> c + (minute - skew) then 1
      else if hi + skew \<le> c + 2 * (minute - skew) then 2 else 3)"

definition later :: "gotime \<Rightarrow> gotime \<Rightarrow> gotime \<Rightarrow> gotime \<Rightarrow> nat" where
  "later lo hi skew c = (if c \<le> lo - minute then 3 else laterWindows hi skew c)"

definition nextWindows :: "gotime \<Rightarrow> gotime \<Rightarrow> gotime \<Rightarrow> nat" where
  "nextWindows hi skew s = min 2 (laterWindows hi skew (s + (minute - skew)))"

lemma later_mono: "c \<le> c' \<Longrightarrow> later lo hi skew c' \<le> later lo hi skew c"
  by (simp add: later_def laterWindows_def)

lemma later_max: "later lo hi skew c \<le> 3"
  by (simp add: later_def laterWindows_def)

lemma later_step: "skewOK lo hi skew \<Longrightarrow> t < hi + skew \<Longrightarrow> Suc (nextWindows hi skew t) \<le> later lo hi skew t"
  by (auto simp: skewOK_def later_def laterWindows_def nextWindows_def min_def)

lemma later_two:
  "skewOK lo hi skew \<Longrightarrow> lo - minute < s \<Longrightarrow> s + (minute - skew) \<le> c \<Longrightarrow> later lo hi skew c \<le> nextWindows hi skew s"
  by (auto simp: skewOK_def later_def laterWindows_def nextWindows_def min_def duration_defs)

text \<open>
  What a window still gives after \<open>n\<close> calls is \<open>left n\<close>, and a call counts if \<open>hit\<close> holds of the calls before it in its window.
\<close>

locale window_budget =
  fixes hit :: "nat \<Rightarrow> bool" and left :: "nat \<Rightarrow> nat" and budget :: nat
  assumes pays: "(if hit n then 1 else 0) + left (Suc n) \<le> left n" and whole: "left 0 \<le> budget"
begin

definition bound :: "gotime \<Rightarrow> gotime \<Rightarrow> gotime \<Rightarrow> requestWindow option \<Rightarrow> gotime \<Rightarrow> nat" where
  "bound lo hi skew w c =
     (case w of None \<Rightarrow> budget * later lo hi skew c
      | Some w \<Rightarrow>
          if start w \<le> lo - minute then 3 * budget
          else if hi + skew \<le> start w then 0
          else left (count w) + budget * nextWindows hi skew (start w))"

lemma left_le: "left n \<le> budget"
proof (induction n)
  case (Suc n)
  then show ?case using pays [of n] by linarith
qed (rule whole)

lemma mult_le: "a \<le> b \<Longrightarrow> budget * a \<le> budget * (b :: nat)"
  by (rule mult_le_mono2)

lemma bound_max: "bound lo hi skew w c \<le> 3 * budget"
proof -
  have "left n + budget * nextWindows hi skew s \<le> 3 * budget" for n s
  proof -
    have "nextWindows hi skew s \<le> 2" by (simp add: nextWindows_def)
    from mult_le [OF this] left_le [of n] show ?thesis by linarith
  qed
  then show ?thesis using mult_le [OF later_max] by (auto simp: bound_def mult.commute split: option.split)
qed

text \<open>A window that opens at \<open>t\<close>: its first call and all it and later windows can give.\<close>

lemma bound_open:
  assumes ok: "skewOK lo hi skew" and "c \<le> t"
  shows "(if lo \<le> t \<and> t < hi \<and> hit 0 then 1 else 0) + bound lo hi skew (Some \<lparr>start = t, count = 1\<rparr>) c' \<le> budget * later lo hi skew c"
proof -
  consider "t \<le> lo - minute" | "lo - minute < t" "hi + skew \<le> t" | "lo - minute < t" "t < hi + skew" by linarith
  then show ?thesis
  proof cases
    case 1
    then have "later lo hi skew c = 3" "t < lo" using assms by (simp_all add: later_def duration_defs)
    then show ?thesis using bound_max [of lo hi skew "Some \<lparr>start = t, count = 1\<rparr>" c'] by simp
  next
    case 2
    then show ?thesis using ok by (simp add: bound_def skewOK_def)
  next
    case 3
    have "Suc (nextWindows hi skew t) \<le> later lo hi skew c"
      using later_step [OF ok 3(2)] later_mono [OF assms(2), of lo hi skew] by linarith
    then have "budget + budget * nextWindows hi skew t \<le> budget * later lo hi skew c"
      using mult_le [of "Suc (nextWindows hi skew t)" "later lo hi skew c"] by simp
    moreover have "(if hit 0 then 1 else 0) + left 1 \<le> budget" using pays [of 0] whole by simp
    ultimately show ?thesis using 3 by (auto simp: bound_def)
  qed
qed

text \<open>One call at \<open>t\<close>, when every later one comes with a time of at least \<open>t - skew\<close>.\<close>

lemma bound_expired:
  assumes ok: "skewOK lo hi skew" and "minute \<le> t - start w"
  shows "budget * later lo hi skew (t - skew) \<le> bound lo hi skew (Some w) c"
proof -
  consider "start w \<le> lo - minute" | "lo - minute < start w" "hi + skew \<le> start w" | "lo - minute < start w" "start w < hi + skew" by linarith
  then show ?thesis
  proof cases
    case 1
    then show ?thesis using mult_le [OF later_max] by (auto simp: bound_def mult.commute)
  next
    case 2
    then have "later lo hi skew (t - skew) = 0" using assms by (simp add: later_def laterWindows_def skewOK_def)
    then show ?thesis by simp
  next
    case 3
    then have "later lo hi skew (t - skew) \<le> nextWindows hi skew (start w)"
      using assms(2) by (intro later_two ok) simp_all
    then have "budget * later lo hi skew (t - skew) \<le> left (count w) + budget * nextWindows hi skew (start w)"
      by (intro trans_le_add2 mult_le)
    then show ?thesis using 3 by (simp add: bound_def)
  qed
qed

lemma bound_live:
  assumes "skewOK lo hi skew" and "t - start w < minute" and "start w - skew \<le> t"
  shows "(if lo \<le> t \<and> t < hi \<and> hit (count w) then 1 else 0) + bound lo hi skew (Some (w\<lparr>count := count w + 1\<rparr>)) c'
    \<le> bound lo hi skew (Some w) c"
  using assms pays [of "count w"] by (auto simp: bound_def skewOK_def)

lemma bound_call:
  assumes inv: "limiter_inv l" and ok: "skewOK lo hi skew" and t: "c \<le> t"
    and early: "\<And>w. windows l p = Some w \<Longrightarrow> start w - skew \<le> t"
  shows "(if q = p \<and> lo \<le> t \<and> t < hi \<and> hit (used l p t) then 1 else 0)
      + bound lo hi skew (windows (fst (allow l q t)) p) (max c (t - skew)) \<le> bound lo hi skew (windows l p) c"
proof (rule windows_cases [of l p t])
  assume w: "windows l p = None" "live l p t = None"
  have "budget * later lo hi skew (max c (t - skew)) \<le> budget * later lo hi skew c" by (intro mult_le later_mono) simp
  then show ?thesis using w bound_open [OF ok t]
    by (cases "q = p") (simp_all add: used_def allow_same [OF inv] allow_other [OF inv] bound_def [of _ _ _ None])
next
  fix w assume w: "windows l p = Some w" "live l p t = None" "minute \<le> t - start w"
  have gone: "budget * later lo hi skew (t - skew) \<le> bound lo hi skew (Some w) c" by (rule bound_expired [OF ok w(3)])
  have "budget * later lo hi skew (max c (t - skew)) \<le> budget * later lo hi skew (t - skew)" by (intro mult_le later_mono) simp
  then have none: "budget * later lo hi skew (max c (t - skew)) \<le> bound lo hi skew (Some w) c" using gone by (rule order_trans)
  have "t - skew \<le> t" using ok by (simp add: skewOK_def)
  from bound_open [OF ok this, of "max c (t - skew)"] gone none show ?thesis using w
    by (cases "q = p") (simp_all add: used_def allow_same [OF inv] allow_other [OF inv] bound_def [of _ _ _ None] del: mult_le_cancel1)
next
  fix w assume w: "windows l p = Some w" "live l p t = Some w" "t - start w < minute"
  show ?thesis
  proof (cases "q = p")
    case True
    then show ?thesis using w bound_live [OF ok w(3) early [OF w(1)]] by (simp add: used_def allow_same [OF inv])
  next
    case False
    then show ?thesis using w by (simp add: allow_other [OF inv] bound_def)
  qed
qed

lemma hits_bounded:
  assumes ok: "skewOK lo hi skew"
  shows "limiter_inv l \<Longrightarrow> sorted_wrt (\<lambda>t t'. t \<le> t' + skew) (map snd evs) \<Longrightarrow>
     \<forall>(q, t) \<in> set evs. c \<le> t \<and> (\<forall>w. windows l p = Some w \<longrightarrow> start w - skew \<le> t) \<Longrightarrow>
     hits (\<lambda>l q t. q = p \<and> hit (used l p t)) lo hi l evs \<le> bound lo hi skew (windows l p) c"
proof (induction evs arbitrary: l c)
  case (Cons e evs)
  obtain q t where e: "e = (q, t)" by force
  let ?l = "fst (allow l q t)"
  have early: "start w - skew \<le> t" if "windows l p = Some w" for w
    using Cons.prems(3) that by (auto simp: e)
  have c: "c \<le> t" using Cons.prems(3) by (auto simp: e)
  have starts: "start w = t \<or> (\<exists>v. windows l p = Some v \<and> start w = start v)" if "windows ?l p = Some w" for w
    using that by (cases "q = p")
      (auto simp: allow_same [OF Cons.prems(1)] allow_other [OF Cons.prems(1)] live_Some split: option.splits)
  have "hits (\<lambda>l q t. q = p \<and> hit (used l p t)) lo hi ?l evs \<le> bound lo hi skew (windows ?l p) (max c (t - skew))"
  proof (rule Cons.IH)
    show "limiter_inv ?l" using Cons.prems(1) by (rule allow_inv)
    show "sorted_wrt (\<lambda>t t'. t \<le> t' + skew) (map snd evs)" using Cons.prems(2) by simp
    show "\<forall>(q', t') \<in> set evs. max c (t - skew) \<le> t' \<and> (\<forall>w. windows ?l p = Some w \<longrightarrow> start w - skew \<le> t')"
    proof (intro ballI, clarify)
      fix q' t' assume ev: "(q', t') \<in> set evs"
      then have "t \<le> t' + skew" "c \<le> t'" using Cons.prems(2,3) by (auto simp: e)
      moreover have "start v - skew \<le> t'" if "windows l p = Some v" for v using Cons.prems(3) ev that by auto
      ultimately show "max c (t - skew) \<le> t' \<and> (\<forall>w. windows ?l p = Some w \<longrightarrow> start w - skew \<le> t')"
        using starts by fastforce
    qed
  qed
  moreover have "(if q = p \<and> lo \<le> t \<and> t < hi \<and> hit (used l p t) then 1 else 0)
      + bound lo hi skew (windows ?l p) (max c (t - skew)) \<le> bound lo hi skew (windows l p) c"
    by (rule bound_call [OF Cons.prems(1) ok c]) (rule early)
  ultimately show ?case by (auto simp: e)
qed simp

lemma hits_three:
  assumes "skewOK lo hi skew" and "sorted_wrt (\<lambda>t t'. t \<le> t' + skew) (map snd evs)"
  shows "hits (\<lambda>l q t. q = p \<and> hit (used l p t)) lo hi newPeerAddressLimiter evs \<le> 3 * budget"
proof -
  let ?c = "Min (insert 0 (snd ` set evs))"
  have "?c \<le> t" if "(q, t) \<in> set evs" for q t
    using that by (intro Min_le) force+
  then have "hits (\<lambda>l q t. q = p \<and> hit (used l p t)) lo hi newPeerAddressLimiter evs
      \<le> bound lo hi skew (windows newPeerAddressLimiter p) ?c"
    by (intro hits_bounded [OF assms(1) limiter_inv_new assms(2)]) (auto simp: newPeerAddressLimiter_def)
  also have "\<dots> \<le> 3 * budget" by (rule bound_max)
  finally show ?thesis .
qed

end

text \<open>The requests a window grants, and its one warning.\<close>

interpretation requests: window_budget "\<lambda>n. n < peerAddressRequestsPerWindow" "\<lambda>n. peerAddressRequestsPerWindow - n" peerAddressRequestsPerWindow
  by unfold_locales auto

interpretation cautions: window_budget "\<lambda>n. n = peerAddressRequestsPerWindow" "\<lambda>n. if n \<le> peerAddressRequestsPerWindow then 1 else 0" 1
  by unfold_locales auto

lemma skewed_bounds:
  assumes "skewOK lo hi skew" and "sorted_wrt (\<lambda>t t'. t \<le> t' + skew) (map snd evs)"
  shows "granted p lo hi (allowRun newPeerAddressLimiter evs) \<le> 3 * peerAddressRequestsPerWindow"
    and "warned p lo hi (allowRun newPeerAddressLimiter evs) \<le> 3"
  using requests.hits_three [OF assms, of p] cautions.hits_three [OF assms, of p]
  by (simp_all add: granted_hits warned_hits)

section \<open>Properties\<close>

text \<open>Whatever the other peers do, a peer is granted at most two budgets of requests in any
  interval as long as the window, and the operator is warned about it at most twice.\<close>

lemma limiter_interval_bound:
  assumes "sorted (map snd evs)"
  shows "granted p lo (lo + peerAddressRequestWindow) (allowRun newPeerAddressLimiter evs)
           \<le> 2 * peerAddressRequestsPerWindow
       \<and> warned p lo (lo + peerAddressRequestWindow) (allowRun newPeerAddressLimiter evs) \<le> 2"
  using assms by (intro conjI interval_bounds)

lemma limiter_interval_bound_witness:
  "granted ''a'' 0 (0 + peerAddressRequestWindow)
     (allowRun newPeerAddressLimiter [(''a'', 0), (''b'', 1), (''a'', 2)])
     \<le> 2 * peerAddressRequestsPerWindow"
  using limiter_interval_bound [of "[(''a'', 0), (''b'', 1), (''a'', 2)]" "''a''" 0] by simp

text \<open>C19. The verdicts a peer receives depend on its own requests alone: removing every other
  peer's calls from the history leaves them unchanged, so a flood costs nobody else anything.\<close>

theorem limiter_isolation:
  assumes "sorted (map snd evs)"
  shows "filter (\<lambda>v. fst (fst v) = p) (allowRun newPeerAddressLimiter evs)
       = allowRun newPeerAddressLimiter (filter (\<lambda>e. fst e = p) evs)"
proof (cases evs)
  case Nil
  then show ?thesis by simp
next
  case (Cons e es)
  then have "\<forall>(q, t) \<in> set evs. snd e \<le> t" using assms by auto
  then show ?thesis using allowRun_isolated [OF _ _ agree_from_refl assms] by simp
qed

lemma limiter_isolation_witness:
  "filter (\<lambda>v. fst (fst v) = ''a'') (allowRun newPeerAddressLimiter [(''b'', 1), (''a'', 2), (''b'', 3)])
     = allowRun newPeerAddressLimiter [(''a'', 2)]"
  using limiter_isolation [of "[(''b'', 1), (''a'', 2), (''b'', 3)]" "''a''"] by simp

text \<open>C36. A request is rejected only if the peer already made a whole budget of requests less than
  a window ago: a peer that stays within the budget is never turned away.\<close>

theorem limiter_within_budget:
  assumes "sorted (map snd (evs @ [(p, now)]))"
    and "since p (now - peerAddressRequestWindow + 1) evs < peerAddressRequestsPerWindow"
  shows "fst (snd (allow (allowState newPeerAddressLimiter evs) p now))"
proof -
  let ?l = "allowState newPeerAddressLimiter evs"
  have sorted: "sorted (map snd evs)" using assms(1) by (simp add: sorted_append)
  have "used ?l p now < peerAddressRequestsPerWindow"
  proof (cases "live ?l p now")
    case None
    then show ?thesis by (simp add: used_def peerAddressRequestsPerWindow_def)
  next
    case (Some w)
    then have "count w \<le> since p (start w) evs" and "now - minute + 1 \<le> start w"
      using allowState_windows [OF sorted] by (auto simp: live_Some)
    moreover have "since p s evs \<le> since p s' evs" if "s' \<le> s" for s s'
      unfolding since_def using that by (induction evs) auto
    ultimately have "count w \<le> since p (now - minute + 1) evs" by (meson order_trans)
    then show ?thesis using Some assms(2) by (simp add: used_def peerAddressRequestWindow_def)
  qed
  then show ?thesis by (simp add: allow_verdict)
qed

lemma limiter_within_budget_witness:
  "fst (snd (allow (allowState newPeerAddressLimiter [(''b'', 1), (''a'', 2)]) ''a'' 3))"
  by (rule limiter_within_budget) (simp_all add: since_def peerAddressRequestsPerWindow_def)

text \<open>The map never outgrows the peers seen within the last window: after a call at \<open>now\<close>,
  every peer it holds has made a request less than a window before \<open>now\<close>.\<close>

theorem limiter_map_bounded:
  assumes "sorted (map snd (evs @ [(q, now)]))"
  shows "dom (windows (allowState newPeerAddressLimiter (evs @ [(q, now)])))
    \<subseteq> {p. \<exists>t. (p, t) \<in> set (evs @ [(q, now)]) \<and> now - t < peerAddressRequestWindow}"
  using allowState_windows [OF assms] by (fastforce simp: peerAddressRequestWindow_def)

lemma limiter_map_bounded_witness:
  "dom (windows (allowState newPeerAddressLimiter ([(''b'', 1), (''a'', 2)] @ [(''c'', 10 * minute)])))
    \<subseteq> {p. \<exists>t. (p, t) \<in> set ([(''b'', 1), (''a'', 2)] @ [(''c'', 10 * minute)])
              \<and> 10 * minute - t < peerAddressRequestWindow}"
  by (rule limiter_map_bounded) (simp add: duration_defs)

end
