(* ===== verification/Utf8.thy ===== *)
theory Utf8
  imports Prelude
begin

text \<open>
  The part of Go's unicode/utf8 package that \<open>sanitizePeerName\<close> relies on, directly and
  through \<open>strings.Map\<close>: decoding one rune from the front of a byte string, the
  \<open>range\<close> loop over the runes of a string, encoding a rune, and \<open>RuneStart\<close>.  The main
  facts: decoding inverts encoding on every Unicode scalar value (an interpretation of
  the codec locale), every decoded rune is a scalar value, and in an encoded string the
  bytes that start a rune are exactly those at the boundaries between runes.
\<close>

type_synonym rune = nat

abbreviation byteOf :: "char \<Rightarrow> nat" where "byteOf c \<equiv> of_char c"

definition RuneError :: rune where "RuneError = 65533"

definition validRune :: "rune \<Rightarrow> bool" where
  "validRune r \<longleftrightarrow> r < 55296 \<or> 57343 < r \<and> r \<le> 1114111"

definition inRange :: "nat \<Rightarrow> nat \<Rightarrow> char \<Rightarrow> bool" where
  "inRange lo hi c \<longleftrightarrow> lo \<le> byteOf c \<and> byteOf c \<le> hi"

definition isCont :: "char \<Rightarrow> bool" where
  "isCont c \<longleftrightarrow> inRange 128 191 c"

definition runeStart :: "char \<Rightarrow> bool" where
  "runeStart c \<longleftrightarrow> \<not> isCont c"

text \<open>The range the second byte must lie in, by the first byte (Go's \<open>acceptRanges\<close>).\<close>

definition second3 :: "nat \<Rightarrow> char \<Rightarrow> bool" where
  "second3 b0 c = inRange (if b0 = 224 then 160 else 128) (if b0 = 237 then 159 else 191) c"

definition second4 :: "nat \<Rightarrow> char \<Rightarrow> bool" where
  "second4 b0 c = inRange (if b0 = 240 then 144 else 128) (if b0 = 244 then 143 else 191) c"

text \<open>\<open>DecodeRuneInString\<close>: the first rune and its width; \<open>(RuneError, 1)\<close> for an invalid byte.\<close>

fun decodeRune :: "string \<Rightarrow> rune \<times> nat" where
  "decodeRune [] = (RuneError, 0)"
| "decodeRune (c0 # cs) =
     (let b0 = byteOf c0 in
      if b0 < 128 then (b0, 1)
      else if b0 < 194 then (RuneError, 1)
      else if b0 < 224 then
        (case cs of
           c1 # _ \<Rightarrow> if isCont c1 then (b0 mod 32 * 64 + byteOf c1 mod 64, 2) else (RuneError, 1)
         | _ \<Rightarrow> (RuneError, 1))
      else if b0 < 240 then
        (case cs of
           c1 # c2 # _ \<Rightarrow>
             if second3 b0 c1 \<and> isCont c2
             then (b0 mod 16 * 4096 + byteOf c1 mod 64 * 64 + byteOf c2 mod 64, 3)
             else (RuneError, 1)
         | _ \<Rightarrow> (RuneError, 1))
      else if b0 < 245 then
        (case cs of
           c1 # c2 # c3 # _ \<Rightarrow>
             if second4 b0 c1 \<and> isCont c2 \<and> isCont c3
             then (b0 mod 8 * 262144 + byteOf c1 mod 64 * 4096 + byteOf c2 mod 64 * 64
                     + byteOf c3 mod 64, 4)
             else (RuneError, 1)
         | _ \<Rightarrow> (RuneError, 1))
      else (RuneError, 1))"

lemma decodeRune_width: "s \<noteq> [] \<Longrightarrow> 0 < snd (decodeRune s)"
  by (cases s) (auto simp: Let_def split: list.splits)

text \<open>The runes a \<open>for _, c := range s\<close> loop visits.\<close>

function runes :: "string \<Rightarrow> rune list" where
  "runes s = (if s = [] then [] else fst (decodeRune s) # runes (drop (snd (decodeRune s)) s))"
  by pat_completeness auto
termination
  by (relation "measure length") (auto simp: decodeRune_width)

declare runes.simps [simp del]
declare decodeRune.simps [simp del]

text \<open>\<open>AppendRune\<close>: anything that is not a scalar value is written as \<open>RuneError\<close>.\<close>

definition encodeScalar :: "rune \<Rightarrow> string" where
  "encodeScalar r =
     (if r < 128 then [char_of r]
      else if r < 2048 then [char_of (192 + r div 64), char_of (128 + r mod 64)]
      else if r < 65536 then
        [char_of (224 + r div 4096), char_of (128 + r div 64 mod 64), char_of (128 + r mod 64)]
      else [char_of (240 + r div 262144), char_of (128 + r div 4096 mod 64),
            char_of (128 + r div 64 mod 64), char_of (128 + r mod 64)])"

definition encodeRune :: "rune \<Rightarrow> string" where
  "encodeRune r = encodeScalar (if validRune r then r else RuneError)"

definition encodeRunes :: "rune list \<Rightarrow> string" where
  "encodeRunes rs = concat (map encodeRune rs)"

section \<open>Decoding inverts encoding\<close>

lemma byteOf_less: "byteOf c < 256"
  by (metis of_char_of char_of_char mod_less_divisor zero_less_numeral)

lemma byteOf_char_of [simp]: "n < 256 \<Longrightarrow> byteOf (char_of n) = n"
  by (simp add: of_char_of)

lemmas range_defs = inRange_def isCont_def second3_def second4_def

lemma tag_mod [simp]:
  "(t::nat) < 64 \<Longrightarrow> (128 + t) mod 64 = t"
  "q < 32 \<Longrightarrow> (192 + q) mod 32 = (q::nat)"
  "q < 16 \<Longrightarrow> (224 + q) mod 16 = (q::nat)"
  "q < 8 \<Longrightarrow> (240 + q) mod 8 = (q::nat)"
  using mod_mult_self3 [of 2 64 t] mod_mult_self3 [of 6 32 q] mod_mult_self3 [of 14 16 q]
    mod_mult_self3 [of 30 8 q]
  by simp_all

lemma split3: "(r::nat) div 4096 * 4096 + r div 64 mod 64 * 64 + r mod 64 = r"
proof -
  have "r div 4096 = r div 64 div 64" using div_mult2_eq [of r 64 64] by simp
  moreover have "r div 64 div 64 * 64 + r div 64 mod 64 = r div 64" by (rule div_mult_mod_eq)
  moreover have "r div 64 * 64 + r mod 64 = r" by (rule div_mult_mod_eq)
  ultimately show ?thesis by linarith
qed

lemma split4:
  "(r::nat) div 262144 * 262144 + r div 4096 mod 64 * 4096 + r div 64 mod 64 * 64 + r mod 64 = r"
proof -
  have "r div 262144 = r div 4096 div 64" using div_mult2_eq [of r 4096 64] by simp
  moreover have "r div 4096 div 64 * 64 + r div 4096 mod 64 = r div 4096" by (rule div_mult_mod_eq)
  ultimately show ?thesis using split3 [of r] by linarith
qed

lemma decode2:
  "2 \<le> q \<Longrightarrow> q < 32 \<Longrightarrow> t < 64 \<Longrightarrow>
     decodeRune (char_of (192 + q) # char_of (128 + t) # ys) = (q * 64 + t, 2)"
  by (simp add: decodeRune.simps range_defs Let_def)

lemma decode3:
  "q < 16 \<Longrightarrow> t < 64 \<Longrightarrow> u < 64 \<Longrightarrow> (q = 0 \<longrightarrow> 32 \<le> t) \<Longrightarrow> (q = 13 \<longrightarrow> t \<le> 31) \<Longrightarrow>
     decodeRune (char_of (224 + q) # char_of (128 + t) # char_of (128 + u) # ys)
       = (q * 4096 + t * 64 + u, 3)"
  by (simp add: decodeRune.simps range_defs Let_def)

lemma decode4:
  "q < 5 \<Longrightarrow> t < 64 \<Longrightarrow> u < 64 \<Longrightarrow> v < 64 \<Longrightarrow> (q = 0 \<longrightarrow> 16 \<le> t) \<Longrightarrow> (q = 4 \<longrightarrow> t \<le> 15) \<Longrightarrow>
     decodeRune (char_of (240 + q) # char_of (128 + t) # char_of (128 + u) # char_of (128 + v) # ys)
       = (q * 262144 + t * 4096 + u * 64 + v, 4)"
  by (simp add: decodeRune.simps range_defs Let_def)

lemma decode_encode2:
  assumes "128 \<le> r" and "r < 2048"
  shows "decodeRune (encodeScalar r @ ys) = (r, 2)"
  using assms decode2 [of "r div 64" "r mod 64" ys] by (simp add: encodeScalar_def)

lemma decode_encode3:
  assumes "2048 \<le> r" and "r < 65536" and "validRune r"
  shows "decodeRune (encodeScalar r @ ys) = (r, 3)"
proof -
  define p q t where pqt: "p = r div 4096" "q = r div 64 mod 64" "t = r mod 64"
  have r: "r = p * 4096 + q * 64 + t" and b: "q < 64" "t < 64"
    using split3 [of r] by (simp_all add: pqt)
  have "p < 16" "p = 0 \<longrightarrow> 32 \<le> q" "p = 13 \<longrightarrow> q \<le> 31"
    using assms b unfolding validRune_def r by linarith+
  then show ?thesis
    using assms(1,2) decode3 [of p q t ys] b
    by (simp add: encodeScalar_def pqt [symmetric] r [symmetric])
qed

lemma decode_encode4:
  assumes "65536 \<le> r" and "r \<le> 1114111"
  shows "decodeRune (encodeScalar r @ ys) = (r, 4)"
proof -
  define p q t u where pqt: "p = r div 262144" "q = r div 4096 mod 64" "t = r div 64 mod 64" "u = r mod 64"
  have r: "r = p * 262144 + q * 4096 + t * 64 + u" and b: "q < 64" "t < 64" "u < 64"
    using split4 [of r] by (simp_all add: pqt)
  have "p < 5" "p = 0 \<longrightarrow> 16 \<le> q" "p = 4 \<longrightarrow> q \<le> 15"
    using assms b unfolding r by linarith+
  then show ?thesis
    using assms decode4 [of p q t u ys] b
    by (simp add: encodeScalar_def pqt [symmetric] r [symmetric])
qed

lemma length_encodeScalar:
  "length (encodeScalar r) = (if r < 128 then 1 else if r < 2048 then 2 else if r < 65536 then 3 else 4)"
  by (simp add: encodeScalar_def)

lemma decode_encode:
  assumes "validRune r"
  shows "decodeRune (encodeRune r @ ys) = (r, length (encodeRune r))"
proof -
  consider "r < 128" | "128 \<le> r" "r < 2048" | "2048 \<le> r" "r < 65536" | "65536 \<le> r" by linarith
  then show ?thesis
  proof cases
    case 1
    then show ?thesis using assms
      by (simp add: encodeRune_def encodeScalar_def decodeRune.simps Let_def)
  qed (use assms in \<open>simp_all add: encodeRune_def length_encodeScalar decode_encode2
        decode_encode3 decode_encode4 validRune_def\<close>)
qed


definition peelRune :: "string \<Rightarrow> (rune \<times> string) option" where
  "peelRune s = (if s = [] then None
     else Some (fst (decodeRune s), drop (snd (decodeRune s)) s))"

lemma encodeRune_nonempty [simp]: "encodeRune r \<noteq> []"
  by (simp add: encodeRune_def encodeScalar_def)

interpretation utf8: peel_codec encodeRune peelRune validRune "\<lambda>s. s = []" "\<lambda>s. s"
    "\<lambda>s. Some (runes s, [])"
  by unfold_locales
     (auto simp: peelRune_def decode_encode runes.simps [of "[]"] runes.simps split: if_splits)

lemma runes_encodeRunes: "\<forall>r \<in> set rs. validRune r \<Longrightarrow> runes (encodeRunes rs) = rs"
  using utf8.dec_enc [of rs "[]"] by (simp add: encodeRunes_def)

section \<open>Every decoded rune is a scalar value\<close>

lemma inRangeE:
  assumes "inRange lo hi c" and "128 \<le> lo" and "hi \<le> 191"
  obtains t where "byteOf c = 128 + t" and "t < 64" and "lo \<le> 128 + t" and "128 + t \<le> hi"
proof
  show "byteOf c = 128 + (byteOf c - 128)" "byteOf c - 128 < (64::nat)"
    "lo \<le> 128 + (byteOf c - 128)" "128 + (byteOf c - 128) \<le> hi"
    using assms by (auto simp: inRange_def)
qed

lemma isContE: "isCont c \<Longrightarrow> (\<And>t. byteOf c = 128 + t \<Longrightarrow> t < 64 \<Longrightarrow> P) \<Longrightarrow> P"
  unfolding isCont_def by (erule inRangeE) auto

lemma validRune_RuneError [simp]: "validRune RuneError"
  by (simp add: validRune_def RuneError_def)

lemma valid2:
  assumes "isCont c1"
  shows "validRune (b mod 32 * 64 + byteOf c1 mod 64)"
proof -
  have "b mod 32 < 32" "byteOf c1 mod 64 < (64::nat)" by simp_all
  then show ?thesis unfolding validRune_def by linarith
qed

lemma valid3:
  assumes "224 \<le> b" and "b < 240" and "second3 b c1"
  shows "validRune (b mod 16 * 4096 + byteOf c1 mod 64 * 64 + byteOf c2 mod 64)"
proof -
  define q where "q = b - 224"
  then have q: "b = 224 + q" "q < 16" using assms(1,2) by auto
  obtain t where t: "byteOf c1 = 128 + t" "t < 64" "q = 13 \<longrightarrow> t \<le> 31"
    using assms(3) unfolding second3_def q by (auto elim!: inRangeE split: if_splits)
  define u where "u = byteOf c2 mod (64::nat)"
  then have "u < 64" by simp
  moreover have "b mod 16 = q" "byteOf c1 mod 64 = t" using q t by simp_all
  ultimately have "q * 4096 + t * 64 + u < 55296 \<or> 57343 < q * 4096 + t * 64 + u"
    using q(2) t(2,3) by (cases "q \<le> 12"; cases "q = 13") linarith+
  then show ?thesis using \<open>u < 64\<close> \<open>b mod 16 = q\<close> \<open>byteOf c1 mod 64 = t\<close> q(2) t(2)
    unfolding validRune_def u_def [symmetric] by auto
qed

lemma valid4:
  assumes "240 \<le> b" and "b < 245" and "second4 b c1"
  shows "validRune (b mod 8 * 262144 + byteOf c1 mod 64 * 4096 + byteOf c2 mod 64 * 64
           + byteOf c3 mod 64)"
proof -
  define q where "q = b - 240"
  then have q: "b = 240 + q" "q < 5" using assms(1,2) by auto
  obtain t where t: "byteOf c1 = 128 + t" "t < 64" "q = 0 \<longrightarrow> 16 \<le> t" "q = 4 \<longrightarrow> t \<le> 15"
    using assms(3) unfolding second4_def q by (auto elim!: inRangeE split: if_splits)
  define u v where uv: "u = byteOf c2 mod (64::nat)" "v = byteOf c3 mod (64::nat)"
  then have "u < 64" "v < 64" by simp_all
  moreover have "b mod 8 = q" "byteOf c1 mod 64 = t" using q t by simp_all
  ultimately show ?thesis using q(2) t(2-4) unfolding validRune_def uv [symmetric] by simp linarith
qed

lemma decodeRune_valid: "validRune (fst (decodeRune s))"
proof (cases s)
  case Nil
  then show ?thesis by (simp add: decodeRune.simps)
next
  case (Cons c0 cs)
  have "byteOf c0 < 128 \<Longrightarrow> validRune (byteOf c0)" by (simp add: validRune_def)
  then show ?thesis unfolding Cons decodeRune.simps Let_def
    by (auto simp: valid2 valid3 valid4 split: list.splits)
qed

lemma runes_valid: "r \<in> set (runes s) \<Longrightarrow> validRune r"
proof (induction s rule: runes.induct)
  case (1 s)
  then show ?case
    by (subst (asm) (2) runes.simps) (auto simp: decodeRune_valid split: if_splits)
qed

section \<open>Rune boundaries of an encoded string\<close>

lemma encodeRunes_simps [simp]:
  "encodeRunes [] = []"
  "encodeRunes (r # rs) = encodeRune r @ encodeRunes rs"
  "encodeRunes (rs @ qs) = encodeRunes rs @ encodeRunes qs"
  by (simp_all add: encodeRunes_def)

lemma length_encodeRune: "0 < length (encodeRune r) \<and> length (encodeRune r) \<le> 4"
  by (simp add: encodeRune_def length_encodeScalar)

lemma mod_64_less: "128 + n mod 64 \<le> (191::nat)"
  using mod_less_divisor [of 64 n] by linarith

lemma runeStart_lead: "(n::nat) < 128 \<or> 192 \<le> n \<and> n < 256 \<Longrightarrow> runeStart (char_of n)"
  by (auto simp: runeStart_def isCont_def inRange_def)

lemma runeStart_cont: "\<not> runeStart (char_of (128 + n mod 64 :: nat))"
proof -
  have "128 + n mod 64 < (256::nat)" using mod_64_less [of n] by linarith
  then show ?thesis using mod_64_less [of n] by (simp add: runeStart_def isCont_def inRange_def)
qed

lemma encodeScalar_shape:
  assumes "validRune r"
  shows "\<exists>c cs. encodeScalar r = c # cs \<and> runeStart c \<and> (\<forall>x \<in> set cs. \<not> runeStart x)"
proof -
  consider "r < 128" | "128 \<le> r" "r < 2048" | "2048 \<le> r" "r < 65536" | "65536 \<le> r" by linarith
  then show ?thesis
  proof cases
    case 1
    then show ?thesis by (simp add: encodeScalar_def runeStart_lead)
  next
    case 2
    then have "192 + r div 64 < 256" by simp
    then show ?thesis using 2 by (simp add: encodeScalar_def runeStart_lead runeStart_cont)
  next
    case 3
    then have "224 + r div 4096 < 256" by simp
    then show ?thesis using 3 by (simp add: encodeScalar_def runeStart_lead runeStart_cont)
  next
    case 4
    then have "240 + r div 262144 < 256" using assms by (auto simp: validRune_def)
    then show ?thesis using 4 by (simp add: encodeScalar_def runeStart_lead runeStart_cont)
  qed
qed

lemma runeStart_encodeRune:
  assumes "i < length (encodeRune r)"
  shows "runeStart (encodeRune r ! i) \<longleftrightarrow> i = 0"
proof -
  have "validRune (if validRune r then r else RuneError)" by simp
  then obtain c cs where "encodeRune r = c # cs" "runeStart c" "\<forall>x \<in> set cs. \<not> runeStart x"
    unfolding encodeRune_def using encodeScalar_shape by blast
  then show ?thesis using assms by (cases i) auto
qed

definition boundary :: "rune list \<Rightarrow> nat \<Rightarrow> bool" where
  "boundary rs i \<longleftrightarrow> (\<exists>k \<le> length rs. i = length (encodeRunes (take k rs)))"

lemma boundary_Cons:
  "boundary (r # rs) i \<longleftrightarrow>
     i = 0 \<or> length (encodeRune r) \<le> i \<and> boundary rs (i - length (encodeRune r))"
proof
  assume "boundary (r # rs) i"
  then obtain k where k: "k \<le> Suc (length rs)" "i = length (encodeRunes (take k (r # rs)))"
    by (auto simp: boundary_def)
  then show "i = 0 \<or> length (encodeRune r) \<le> i \<and> boundary rs (i - length (encodeRune r))"
    by (cases k) (auto simp: boundary_def)
next
  assume "i = 0 \<or> length (encodeRune r) \<le> i \<and> boundary rs (i - length (encodeRune r))"
  then show "boundary (r # rs) i"
  proof
    assume "i = 0"
    then show ?thesis by (auto simp: boundary_def intro: exI [of _ 0])
  next
    assume "length (encodeRune r) \<le> i \<and> boundary rs (i - length (encodeRune r))"
    then obtain k where "k \<le> length rs" "i = length (encodeRunes (take (Suc k) (r # rs)))"
      by (auto simp: boundary_def)
    then show ?thesis unfolding boundary_def by (intro exI [of _ "Suc k"]) simp
  qed
qed

lemma runeStart_boundary:
  "i < length (encodeRunes rs) \<Longrightarrow> runeStart (encodeRunes rs ! i) \<longleftrightarrow> boundary rs i"
proof (induction rs arbitrary: i)
  case Nil
  then show ?case by simp
next
  case (Cons r rs)
  then show ?case using length_encodeRune [of r]
    by (cases "i < length (encodeRune r)")
       (auto simp: nth_append runeStart_encodeRune boundary_Cons)
qed

end
