(* ===== verification/PeerName.thy ===== *)
theory PeerName
  imports Utf8
begin

text \<open>
  \<open>sanitizePeerName\<close> of src/types.go: the peer-controlled name of a gossip envelope is cut to a
  bounded prefix, its non-printable runes are dropped, and the rest is truncated to 64 bytes
  on a rune boundary.  The Unicode tables behind \<open>unicode.IsPrint\<close> above U+00FF are a
  parameter \<open>uni\<close> (they are data of the Go release); the Latin-1 half is written out.
\<close>

definition maxPeerNameLen :: nat where "maxPeerNameLen = 64"

text \<open>\<open>unicode.IsPrint\<close>: a property table up to U+00FF, range tables above.\<close>

definition isPrint :: "(rune \<Rightarrow> bool) \<Rightarrow> rune \<Rightarrow> bool" where
  "isPrint uni r =
     (if r \<le> 255 then 32 \<le> r \<and> r < 127 \<or> 161 \<le> r \<and> r \<noteq> 173 else uni r)"

text \<open>
  \<open>strings.Map\<close> with a mapping that returns the rune itself or drops it: every invalid byte
  is a \<open>RuneError\<close>, and the kept runes are encoded again.
\<close>

definition stringsMapKeep :: "(rune \<Rightarrow> bool) \<Rightarrow> string \<Rightarrow> string" where
  "stringsMapKeep keep s = encodeRunes (filter keep (runes s))"

text \<open>\<open>for cut > 0 && !utf8.RuneStart(name[cut]) { cut-- }\<close>\<close>

fun backToRuneStart :: "string \<Rightarrow> nat \<Rightarrow> nat" where
  "backToRuneStart name 0 = 0"
| "backToRuneStart name (Suc n) =
     (if \<not> runeStart (name ! Suc n) then backToRuneStart name n else Suc n)"

definition sanitizePeerName :: "(rune \<Rightarrow> bool) \<Rightarrow> string \<Rightarrow> string" where
  "sanitizePeerName uni name0 =
     (let name1 = (if 4 * maxPeerNameLen < length name0 then take (4 * maxPeerNameLen) name0 else name0);
          name = stringsMapKeep (isPrint uni) name1
      in if length name \<le> maxPeerNameLen then name
         else take (backToRuneStart name maxPeerNameLen) name)"

section \<open>Where the truncation cuts\<close>

lemma backToRuneStart_le: "backToRuneStart name n \<le> n"
  by (induction n) auto

lemma backToRuneStart_start: "backToRuneStart name n = 0 \<or> runeStart (name ! backToRuneStart name n)"
  by (induction n) auto

lemma backToRuneStart_skips: "backToRuneStart name n < i \<Longrightarrow> i \<le> n \<Longrightarrow> \<not> runeStart (name ! i)"
  by (induction n) (auto split: if_splits simp: le_Suc_eq)

lemma boundary_0 [simp]: "boundary rs 0"
  by (auto simp: boundary_def intro: exI [of _ 0])

lemma cut_boundary:
  assumes "n < length (encodeRunes rs)"
  shows "boundary rs (backToRuneStart (encodeRunes rs) n)"
proof -
  let ?c = "backToRuneStart (encodeRunes rs) n"
  have "?c < length (encodeRunes rs)" using assms backToRuneStart_le [of "encodeRunes rs" n] by simp
  then show ?thesis using backToRuneStart_start [of "encodeRunes rs" n] runeStart_boundary by auto
qed

lemma take_boundary:
  assumes "k \<le> length rs"
  shows "take (length (encodeRunes (take k rs))) (encodeRunes rs) = encodeRunes (take k rs)"
proof -
  have "encodeRunes rs = encodeRunes (take k rs) @ encodeRunes (drop k rs)"
    using encodeRunes_simps(3) [of "take k rs" "drop k rs"] by simp
  then show ?thesis by simp
qed

text \<open>
  The specification: of the printable runes of the bounded input, keep the longest prefix
  whose encoding fits.
\<close>

definition fits :: "rune list \<Rightarrow> nat \<Rightarrow> bool" where
  "fits rs k \<longleftrightarrow> k \<le> length rs \<and> length (encodeRunes (take k rs)) \<le> maxPeerNameLen"

definition printableRunes :: "(rune \<Rightarrow> bool) \<Rightarrow> string \<Rightarrow> rune list" where
  "printableRunes uni name = filter (isPrint uni) (runes (take (4 * maxPeerNameLen) name))"

lemma sanitize_alt:
  "sanitizePeerName uni name =
     (let s = encodeRunes (printableRunes uni name)
      in if length s \<le> maxPeerNameLen then s else take (backToRuneStart s maxPeerNameLen) s)"
  by (simp add: sanitizePeerName_def stringsMapKeep_def printableRunes_def Let_def)

lemma length_encodeRunes_take_mono:
  "j \<le> k \<Longrightarrow> length (encodeRunes (take j rs)) \<le> length (encodeRunes (take k rs))"
proof -
  assume "j \<le> k"
  then have "take k rs = take j rs @ drop j (take k rs)" by (metis append_take_drop_id min.absorb1 take_take)
  then show ?thesis by (metis encodeRunes_simps(3) le_add1 length_append)
qed

lemma sanitize_prefix:
  obtains k where "sanitizePeerName uni name = encodeRunes (take k (printableRunes uni name))"
    and "fits (printableRunes uni name) k"
    and "\<And>j. fits (printableRunes uni name) j \<Longrightarrow> j \<le> k"
proof -
  let ?rs = "printableRunes uni name"
  let ?s = "encodeRunes ?rs"
  show ?thesis
  proof (cases "length ?s \<le> maxPeerNameLen")
    case True
    then show ?thesis
      by (intro that [of "length ?rs"]) (auto simp: sanitize_alt Let_def fits_def)
  next
    case False
    let ?c = "backToRuneStart ?s maxPeerNameLen"
    have c: "?c \<le> maxPeerNameLen" by (rule backToRuneStart_le)
    have "boundary ?rs ?c" using False by (intro cut_boundary) simp
    then obtain k where k: "k \<le> length ?rs" "?c = length (encodeRunes (take k ?rs))"
      by (auto simp: boundary_def)
    show ?thesis
    proof (rule that [of k])
      show "sanitizePeerName uni name = encodeRunes (take k ?rs)"
        using False k by (simp add: sanitize_alt take_boundary)
      show "fits ?rs k" using k c by (simp add: fits_def)
      fix j
      assume j: "fits ?rs j"
      show "j \<le> k"
      proof (rule ccontr)
        assume "\<not> j \<le> k"
        let ?j = "length (encodeRunes (take (Suc k) ?rs))"
        have "?j \<le> maxPeerNameLen"
          using j \<open>\<not> j \<le> k\<close> length_encodeRunes_take_mono [of "Suc k" j ?rs] by (simp add: fits_def)
        moreover have "?c < ?j" using k j \<open>\<not> j \<le> k\<close> length_encodeRune
          by (simp add: fits_def take_Suc_conv_app_nth)
        moreover have "boundary ?rs ?j"
          using j \<open>\<not> j \<le> k\<close> by (auto simp: boundary_def fits_def intro!: exI [of _ "Suc k"])
        ultimately show False
          using backToRuneStart_skips [of ?s maxPeerNameLen ?j] runeStart_boundary [of ?j ?rs] False
          by simp
      qed
    qed
  qed
qed


lemma printableRunes_valid: "\<forall>r \<in> set (printableRunes uni name). validRune r \<and> isPrint uni r"
  by (auto simp: printableRunes_def runes_valid)

text \<open>The reference: take whole runes while their encodings still fit.\<close>

fun fitPrefix :: "nat \<Rightarrow> rune list \<Rightarrow> rune list" where
  "fitPrefix n [] = []"
| "fitPrefix n (r # rs) =
     (if length (encodeRune r) \<le> n then r # fitPrefix (n - length (encodeRune r)) rs else [])"

lemma fitPrefix_take:
  assumes "k \<le> length rs" and "length (encodeRunes (take k rs)) \<le> n"
    and "\<And>j. j \<le> length rs \<Longrightarrow> length (encodeRunes (take j rs)) \<le> n \<Longrightarrow> j \<le> k"
  shows "fitPrefix n rs = take k rs"
  using assms
proof (induction rs arbitrary: n k)
  case Nil
  then show ?case by simp
next
  case (Cons r rs)
  show ?case
  proof (cases k)
    case 0
    then show ?thesis using Cons.prems(3) [of 1] by auto
  next
    case (Suc k')
    let ?n = "n - length (encodeRune r)"
    have "fitPrefix ?n rs = take k' rs"
    proof (rule Cons.IH)
      show "k' \<le> length rs" and "length (encodeRunes (take k' rs)) \<le> ?n"
        using Cons.prems(1,2) Suc by auto
      show "j \<le> k'" if "j \<le> length rs" "length (encodeRunes (take j rs)) \<le> ?n" for j
        using Cons.prems(3) [of "Suc j"] Cons.prems(2) that Suc by auto
    qed
    then show ?thesis using Cons.prems(2) Suc by simp
  qed
qed

text \<open>The names the sanitizer leaves alone.\<close>

definition cleanName :: "(rune \<Rightarrow> bool) \<Rightarrow> string \<Rightarrow> bool" where
  "cleanName uni s \<longleftrightarrow> length s \<le> maxPeerNameLen \<and> encodeRunes (runes s) = s
     \<and> list_all (isPrint uni) (runes s)"

lemma cleanName_encode:
  "\<forall>r \<in> set rs. validRune r \<and> isPrint uni r \<Longrightarrow> length (encodeRunes rs) \<le> maxPeerNameLen
     \<Longrightarrow> cleanName uni (encodeRunes rs)"
  by (simp add: cleanName_def runes_encodeRunes list_all_iff)

lemma sanitize_clean: "cleanName uni (sanitizePeerName uni name)"
proof (rule sanitize_prefix [of uni name])
  fix k
  assume "sanitizePeerName uni name = encodeRunes (take k (printableRunes uni name))"
    and "fits (printableRunes uni name) k"
  then show ?thesis using printableRunes_valid [of uni name]
    by (auto simp: fits_def intro!: cleanName_encode dest: in_set_takeD)
qed

lemma sanitize_fixed: "cleanName uni s \<Longrightarrow> sanitizePeerName uni s = s"
  by (auto simp: cleanName_def sanitizePeerName_def stringsMapKeep_def maxPeerNameLen_def list_all_iff)

section \<open>Properties\<close>

text \<open>C23. Whatever a peer sends as its name, what is stored and surfaced is at most 64 bytes of
  well-formed UTF-8 made of printable runes only.\<close>

theorem sanitize_safe:
  "length (sanitizePeerName uni name) \<le> 64
   \<and> encodeRunes (runes (sanitizePeerName uni name)) = sanitizePeerName uni name
   \<and> list_all (isPrint uni) (runes (sanitizePeerName uni name))"
  using sanitize_clean [of uni name] by (simp add: cleanName_def maxPeerNameLen_def)

text \<open>C24. The sanitized name is made of the printable runes of the first 256 bytes, taken greedily
  from the front while whole runes still fit into 64 bytes.\<close>

theorem sanitize_longest_prefix:
  "sanitizePeerName uni name = encodeRunes (fitPrefix 64 (printableRunes uni name))"
proof (rule sanitize_prefix [of uni name])
  fix k
  assume "sanitizePeerName uni name = encodeRunes (take k (printableRunes uni name))"
    and "fits (printableRunes uni name) k"
    and "\<And>j. fits (printableRunes uni name) j \<Longrightarrow> j \<le> k"
  then show ?thesis using fitPrefix_take [of k "printableRunes uni name" 64]
    by (simp add: fits_def maxPeerNameLen_def)
qed

text \<open>Sanitizing changes exactly the names that are not already clean (so the warning about
  \<open>Config.Name\<close> is given exactly then), and sanitizing twice is sanitizing once.\<close>

lemma sanitize_fixed_points:
  "(sanitizePeerName uni name = name \<longleftrightarrow> cleanName uni name)
   \<and> sanitizePeerName uni (sanitizePeerName uni name) = sanitizePeerName uni name"
  using sanitize_clean [of uni name] sanitize_fixed [of uni] by metis

end
