(* ===== verification/Tracker.thy ===== *)
theory Tracker
  imports Limiter PeerName
begin

text \<open>
  \<open>peerTracker\<close> of src/types.go: the names, topic membership, last-seen times and malformed-message
  counts of the peers this node hears from.  Every operation is one critical section of the
  tracker's lock, so a history of calls is a list of operations.  The lemmas give the
  tracker's invariant (names are sanitized, skipping is exactly having reached the
  threshold, last-seen times are kept for exactly the topic peers) and its consequences
  for histories.
\<close>

definition malformedThreshold :: nat where "malformedThreshold = 5"

record peerTracker =
  names :: "peerID \<rightharpoonup> string"
  isRelaying :: "string \<rightharpoonup> bool"
  topicPeers :: "peerID \<rightharpoonup> bool"
  lastSeen :: "peerID \<rightharpoonup> gotime"
  malformed :: "peerID \<rightharpoonup> nat"
  skipMalformed :: "peerID \<rightharpoonup> bool"

definition newPeerTracker :: peerTracker where
  "newPeerTracker = \<lparr>names = Map.empty, isRelaying = Map.empty, topicPeers = Map.empty,
     lastSeen = Map.empty, malformed = Map.empty, skipMalformed = Map.empty\<rparr>"

text \<open>Reads of absent keys give the zero value of the element type.\<close>

definition shouldSkipMalformed :: "peerTracker \<Rightarrow> peerID \<Rightarrow> bool" where
  "shouldSkipMalformed pt p = (case skipMalformed pt p of None \<Rightarrow> False | Some b \<Rightarrow> b)"

definition malformedCount :: "peerTracker \<Rightarrow> peerID \<Rightarrow> nat" where
  "malformedCount pt p = (case malformed pt p of None \<Rightarrow> 0 | Some n \<Rightarrow> n)"

definition recordMalformed :: "peerTracker \<Rightarrow> peerID \<Rightarrow> peerTracker \<times> nat \<times> bool" where
  "recordMalformed pt p =
     (let pt1 = pt\<lparr>malformed := (malformed pt)(p \<mapsto> malformedCount pt p + 1)\<rparr>;
          c = malformedCount pt1 p
      in if malformedThreshold \<le> c \<and> \<not> shouldSkipMalformed pt1 p
         then (pt1\<lparr>skipMalformed := (skipMalformed pt1)(p \<mapsto> True)\<rparr>, c, True)
         else (pt1, c, False))"

definition updateName :: "(rune \<Rightarrow> bool) \<Rightarrow> peerTracker \<Rightarrow> peerID \<Rightarrow> string \<Rightarrow> peerTracker \<times> string" where
  "updateName uni pt p name0 =
     (let name = sanitizePeerName uni name0 in (pt\<lparr>names := (names pt)(p \<mapsto> name)\<rparr>, name))"

definition getName :: "peerTracker \<Rightarrow> peerID \<Rightarrow> string" where
  "getName pt p = (case names pt p of Some name \<Rightarrow> name | None \<Rightarrow> ''unknown'')"

definition recordMessageFrom :: "peerTracker \<Rightarrow> peerID \<Rightarrow> gotime \<Rightarrow> peerTracker" where
  "recordMessageFrom pt p now =
     pt\<lparr>topicPeers := (topicPeers pt)(p \<mapsto> True), lastSeen := (lastSeen pt)(p \<mapsto> now)\<rparr>"

text \<open>The keys of \<open>topicPeers\<close>, in the order \<open>ks\<close> in which the runtime visits the map.\<close>

definition getAllTopicPeers :: "peerTracker \<Rightarrow> peerID list \<Rightarrow> peerID list" where
  "getAllTopicPeers pt ks = filter (\<lambda>p. topicPeers pt p \<noteq> None) ks"

section \<open>Histories\<close>

datatype trackerOp =
    RecordMalformed peerID
  | UpdateName peerID string
  | RecordMessageFrom peerID gotime

fun trackerStep :: "(rune \<Rightarrow> bool) \<Rightarrow> peerTracker \<Rightarrow> trackerOp \<Rightarrow> peerTracker" where
  "trackerStep uni pt (RecordMalformed p) = fst (recordMalformed pt p)"
| "trackerStep uni pt (UpdateName p s) = fst (updateName uni pt p s)"
| "trackerStep uni pt (RecordMessageFrom p t) = recordMessageFrom pt p t"

definition trackerRun :: "(rune \<Rightarrow> bool) \<Rightarrow> peerTracker \<Rightarrow> trackerOp list \<Rightarrow> peerTracker" where
  "trackerRun uni = foldl (trackerStep uni)"

text \<open>The transitions into the skip state a history reports, peer by peer.\<close>

fun skipReports :: "(rune \<Rightarrow> bool) \<Rightarrow> peerTracker \<Rightarrow> trackerOp list \<Rightarrow> peerID list" where
  "skipReports uni pt [] = []"
| "skipReports uni pt (op # ops) =
     (case op of RecordMalformed p \<Rightarrow> if snd (snd (recordMalformed pt p)) then [p] else [] | _ \<Rightarrow> [])
       @ skipReports uni (trackerStep uni pt op) ops"

definition reportsOf :: "peerID \<Rightarrow> trackerOp list \<Rightarrow> nat" where
  "reportsOf p ops = length (filter (\<lambda>op. op = RecordMalformed p) ops)"

section \<open>The invariant\<close>

lemmas tracker_defs = recordMalformed_def updateName_def recordMessageFrom_def
  shouldSkipMalformed_def malformedCount_def newPeerTracker_def Let_def

definition tracker_inv :: "(rune \<Rightarrow> bool) \<Rightarrow> peerTracker \<Rightarrow> bool" where
  "tracker_inv uni pt \<longleftrightarrow>
     (\<forall>p s. names pt p = Some s \<longrightarrow> cleanName uni s) \<and>
     (\<forall>p. shouldSkipMalformed pt p \<longleftrightarrow> malformedThreshold \<le> malformedCount pt p) \<and>
     dom (lastSeen pt) = dom (topicPeers pt)"

lemma tracker_inv_new [simp]: "tracker_inv uni newPeerTracker"
  by (simp add: tracker_inv_def tracker_defs malformedThreshold_def)

lemma malformedCount_recordMalformed [simp]:
  "malformedCount (fst (recordMalformed pt p)) q = malformedCount pt q + (if q = p then 1 else 0)"
  by (auto simp: tracker_defs)

lemma shouldSkip_recordMalformed [simp]:
  "shouldSkipMalformed (fst (recordMalformed pt p)) q
     \<longleftrightarrow> shouldSkipMalformed pt q \<or> q = p \<and> malformedThreshold \<le> malformedCount pt p + 1"
  by (auto simp: tracker_defs)

lemma recordMalformed_frame [simp]:
  "names (fst (recordMalformed pt p)) = names pt"
  "topicPeers (fst (recordMalformed pt p)) = topicPeers pt"
  "lastSeen (fst (recordMalformed pt p)) = lastSeen pt"
  by (simp_all add: tracker_defs)

lemma updateName_frame [simp]:
  "malformedCount (fst (updateName uni pt p s)) = malformedCount pt"
  "shouldSkipMalformed (fst (updateName uni pt p s)) = shouldSkipMalformed pt"
  "topicPeers (fst (updateName uni pt p s)) = topicPeers pt"
  "lastSeen (fst (updateName uni pt p s)) = lastSeen pt"
  by (simp_all add: tracker_defs fun_eq_iff)

lemma recordMessageFrom_frame [simp]:
  "malformedCount (recordMessageFrom pt p t) = malformedCount pt"
  "shouldSkipMalformed (recordMessageFrom pt p t) = shouldSkipMalformed pt"
  "names (recordMessageFrom pt p t) = names pt"
  by (simp_all add: tracker_defs fun_eq_iff)

lemma tracker_step_inv:
  assumes "tracker_inv uni pt"
  shows "tracker_inv uni (trackerStep uni pt op)"
proof (cases op)
  case (RecordMalformed p)
  then show ?thesis using assms by (auto simp: tracker_inv_def)
next
  case (UpdateName p s)
  then show ?thesis using assms
    by (auto simp: tracker_inv_def updateName_def Let_def sanitize_clean
        shouldSkipMalformed_def malformedCount_def)
next
  case (RecordMessageFrom p t)
  then show ?thesis using assms by (auto simp: tracker_inv_def) (auto simp: recordMessageFrom_def)
qed

interpretation tracker: invariant_system "\<lambda>pt. pt = newPeerTracker"
  "\<lambda>pt pt'. \<exists>op. pt' = trackerStep uni pt op" "tracker_inv uni" for uni
  by unfold_locales (auto intro: tracker_step_inv)

lemma trackerRun_simps [simp]:
  "trackerRun uni pt [] = pt"
  "trackerRun uni pt (op # ops) = trackerRun uni (trackerStep uni pt op) ops"
  by (simp_all add: trackerRun_def)

lemma trackerRun_steps: "(\<lambda>pt pt'. \<exists>op. pt' = trackerStep uni pt op)\<^sup>*\<^sup>* pt (trackerRun uni pt ops)"
proof (induction ops arbitrary: pt)
  case (Cons op ops)
  show ?case by (rule converse_rtranclp_into_rtranclp [OF _ Cons.IH [of "trackerStep uni pt op"],
        unfolded trackerRun_simps(2) [symmetric]]) auto
qed simp

lemma trackerRun_inv: "tracker_inv uni pt \<Longrightarrow> tracker_inv uni (trackerRun uni pt ops)"
  by (rule tracker.steps_inv [OF trackerRun_steps])

lemma reportsOf_simps [simp]:
  "reportsOf p [] = 0"
  "reportsOf p (op # ops) = (if op = RecordMalformed p then 1 else 0) + reportsOf p ops"
  by (simp_all add: reportsOf_def)

lemma malformedCount_step:
  "malformedCount (trackerStep uni pt op) p = malformedCount pt p + (if op = RecordMalformed p then 1 else 0)"
  by (cases op) auto

lemma malformedCount_run:
  "malformedCount (trackerRun uni pt ops) p = malformedCount pt p + reportsOf p ops"
  by (induction ops arbitrary: pt) (auto simp: malformedCount_step)

lemma justSkipped_iff:
  assumes "tracker_inv uni pt"
  shows "snd (snd (recordMalformed pt p)) \<longleftrightarrow> malformedCount pt p + 1 = malformedThreshold"
proof -
  have "snd (snd (recordMalformed pt p)) \<longleftrightarrow>
      malformedThreshold \<le> malformedCount pt p + 1 \<and> \<not> shouldSkipMalformed pt p"
    by (auto simp: tracker_defs)
  then show ?thesis using assms by (auto simp: tracker_inv_def)
qed


lemma skipReports_count:
  assumes "tracker_inv uni pt"
  shows "count_list (skipReports uni pt ops) p =
    (if malformedCount pt p < malformedThreshold
        \<and> malformedThreshold \<le> malformedCount pt p + reportsOf p ops then 1 else 0)"
  using assms
proof (induction ops arbitrary: pt)
  case Nil
  then show ?case by simp
next
  case (Cons op ops)
  have "count_list (case op of RecordMalformed q \<Rightarrow> if snd (snd (recordMalformed pt q)) then [q] else [] | _ \<Rightarrow> []) p
      = (if op = RecordMalformed p \<and> malformedCount pt p + 1 = malformedThreshold then 1 else 0)"
    using justSkipped_iff [OF Cons.prems] by (cases op) auto
  then show ?case
    using Cons.IH [OF tracker_step_inv [OF Cons.prems, of op]]
    by (auto simp: malformedCount_step)
qed

lemma getAllTopicPeers_set:
  "range_order (topicPeers pt) ks \<Longrightarrow> getAllTopicPeers pt ks = ks"
  by (auto simp: range_order_def getAllTopicPeers_def dom_def intro!: filter_True)

lemma cleanName_unknown: "cleanName uni ''unknown''"
proof -
  have "''unknown'' = encodeRunes [117, 110, 107, 110, 111, 119, 110]"
    by (simp add: encodeRunes_def encodeRune_def encodeScalar_def validRune_def char_of_def bit_0)
  also have "cleanName uni \<dots>"
    by (rule cleanName_encode)
       (simp_all add: validRune_def isPrint_def maxPeerNameLen_def encodeRune_def encodeScalar_def)
  finally show ?thesis .
qed


lemma getName_clean: "tracker_inv uni pt \<Longrightarrow> cleanName uni (getName pt p)"
  by (auto simp: tracker_inv_def getName_def cleanName_unknown split: option.splits)

section \<open>Properties\<close>

text \<open>C25. After any history of a tracker's operations, the name it reports for a peer (the stored
  one or "unknown") is clean, and a peer's messages are skipped exactly when five or more
  malformed messages of that peer were recorded.\<close>

theorem tracker_history:
  "cleanName uni (getName (trackerRun uni newPeerTracker ops) p)
   \<and> shouldSkipMalformed (trackerRun uni newPeerTracker ops) p = (5 \<le> reportsOf p ops)"
proof -
  have "tracker_inv uni (trackerRun uni newPeerTracker ops)" by (rule trackerRun_inv) simp
  then show ?thesis
    using getName_clean malformedCount_run [of uni newPeerTracker ops p]
    by (auto simp: tracker_inv_def malformedThreshold_def) (auto simp: tracker_defs)
qed

text \<open>The transition into the skip state is reported once per peer over the whole life of the
  tracker: at the fifth malformed message, and never again.\<close>

lemma skip_reported_once:
  "count_list (skipReports uni newPeerTracker ops) p = (if 5 \<le> reportsOf p ops then 1 else 0)"
  using skipReports_count [of uni newPeerTracker ops p]
  by (auto simp: malformedThreshold_def) (auto simp: tracker_defs)

end
