(* ===== verification/Quote.thy ===== *)
theory Quote
  imports PeerName
begin

text \<open>
  Text that quotes what it contains: hexadecimal digits, \<open>strconv.Quote\<close> (behind the verb \<open>%q\<close> and the
  errors of encoding/json), and the lines of a log.  A line is whole when it has no control character;
  quoting, hexadecimal, numbers and sanitized names keep it whole.
\<close>

section \<open>Characters\<close>

abbreviation bslash :: char where "bslash \<equiv> CHR 0x5C"
abbreviation dquote :: char where "dquote \<equiv> CHR 0x22"

definition hexDigit :: "nat \<Rightarrow> char" where
  "hexDigit v = char_of (if v < 10 then 48 + v else 87 + v)"

definition hexVal :: "char \<Rightarrow> nat option" where
  "hexVal c =
     (let b = byteOf c in
      if 48 \<le> b \<and> b \<le> 57 then Some (b - 48)
      else if 97 \<le> b \<and> b \<le> 102 then Some (b - 87)
      else if 65 \<le> b \<and> b \<le> 70 then Some (b - 55)
      else None)"

lemma hexVal_hexDigit [simp]: "v < 16 \<Longrightarrow> hexVal (hexDigit v) = Some v"
  by (auto simp: hexVal_def hexDigit_def Let_def)

definition isDigit :: "char \<Rightarrow> bool" where
  "isDigit c \<longleftrightarrow> 48 \<le> byteOf c \<and> byteOf c \<le> (57 :: nat)"

section \<open>Quoting\<close>

text \<open>\<open>strconv.Quote\<close>, behind \<open>%q\<close>: a hex number of \<open>w\<close> digits, one rune, and the string.\<close>

fun hexDigits :: "nat \<Rightarrow> nat \<Rightarrow> string" where
  "hexDigits 0 n = []"
| "hexDigits (Suc w) n = hexDigits w (n div 16) @ [hexDigit (n mod 16)]"

definition quotedRune :: "(rune \<Rightarrow> bool) \<Rightarrow> rune \<Rightarrow> string" where
  "quotedRune uni r =
     (if r = 34 \<or> r = 92 then [bslash, char_of r]
      else if isPrint uni r then encodeRune r
      else if r = 7 then [bslash, CHR ''a'']
      else if r = 8 then [bslash, CHR ''b'']
      else if r = 12 then [bslash, CHR ''f'']
      else if r = 10 then [bslash, CHR ''n'']
      else if r = 13 then [bslash, CHR ''r'']
      else if r = 9 then [bslash, CHR ''t'']
      else if r = 11 then [bslash, CHR ''v'']
      else if r < 32 \<or> r = 127 then bslash # CHR ''x'' # hexDigits 2 r
      else if r < 65536 then bslash # CHR ''u'' # hexDigits 4 r
      else bslash # CHR ''U'' # hexDigits 8 r)"

function quotedBody :: "(rune \<Rightarrow> bool) \<Rightarrow> string \<Rightarrow> string" where
  "quotedBody uni s =
     (if s = [] then []
      else (if decodeRune s = (RuneError, 1) then bslash # CHR ''x'' # hexDigits 2 (byteOf (hd s))
            else quotedRune uni (fst (decodeRune s)))
           @ quotedBody uni (drop (snd (decodeRune s)) s))"
  by pat_completeness auto
termination
  by (relation "measure (\<lambda>(uni, s). length s)") (auto simp: decodeRune_width)

declare quotedBody.simps [simp del]

definition quoted :: "(rune \<Rightarrow> bool) \<Rightarrow> string \<Rightarrow> string" where
  "quoted uni s = dquote # quotedBody uni s @ [dquote]"

section \<open>Whole lines\<close>

definition singleLine :: "string \<Rightarrow> bool" where
  "singleLine s \<longleftrightarrow> list_all (\<lambda>c. 32 \<le> byteOf c \<and> byteOf c \<noteq> (127 :: nat)) s"

lemma singleLine_simps [simp]:
  "singleLine []" "singleLine (c # s) \<longleftrightarrow> 32 \<le> byteOf c \<and> byteOf c \<noteq> (127 :: nat) \<and> singleLine s"
  "singleLine (s @ s') \<longleftrightarrow> singleLine s \<and> singleLine s'"
  by (simp_all add: singleLine_def)

lemma singleLine_concat: "(\<And>x. x \<in> set xs \<Longrightarrow> singleLine (f x)) \<Longrightarrow> singleLine (concat (map f xs))"
  by (induction xs) simp_all

lemma singleLine_digits: "list_all isDigit s \<Longrightarrow> singleLine s"
  by (auto simp: singleLine_def list_all_iff isDigit_def inRange_def)

lemma singleLine_natDec [simp]: "singleLine (natDec n)"
proof (induction n rule: natDec.induct)
  case (1 n)
  have "n mod 10 \<noteq> 79" using mod_less_divisor [of 10 n] by linarith
  then show ?case using 1 by (subst natDec.simps) simp
qed

lemma singleLine_intDec [simp]: "singleLine (intDec i)"
  by (simp add: intDec_def)

lemma hexDigit_line: "v < 16 \<Longrightarrow> 32 \<le> byteOf (hexDigit v) \<and> byteOf (hexDigit v) \<noteq> (127 :: nat)"
  by (simp add: hexDigit_def)

lemma singleLine_hexDigits [simp]: "singleLine (hexDigits w n)"
  by (induction w arbitrary: n) (simp_all add: hexDigit_line)

text \<open>The bytes of a rune above ASCII are above ASCII, so a printable rune adds no control character.\<close>

lemma encodeScalar_high:
  assumes "128 \<le> r" and "validRune r"
  shows "list_all (\<lambda>c. 128 \<le> byteOf c) (encodeScalar r)"
proof -
  have high: "128 \<le> byteOf (char_of n :: char)" if "128 \<le> n" "n < 256" for n :: nat
    using that by simp
  have cont: "128 \<le> byteOf (char_of (128 + n mod 64 :: nat) :: char)" for n
    using mod_64_less [of n] by (intro high) linarith+
  consider "r < 2048" | "2048 \<le> r" "r < 65536" | "65536 \<le> r" by linarith
  then show ?thesis
  proof cases
    case 1
    then have "192 + r div 64 < 256" by simp
    then show ?thesis using 1 assms cont by (simp add: encodeScalar_def)
  next
    case 2
    then have "224 + r div 4096 < 256" by simp
    then show ?thesis using 2 cont by (simp add: encodeScalar_def)
  next
    case 3
    then have "240 + r div 262144 < 256" using assms by (auto simp: validRune_def)
    then show ?thesis using 3 cont by (simp add: encodeScalar_def)
  qed
qed

lemma singleLine_encodeRune:
  assumes "32 \<le> r" and "r \<noteq> 127"
  shows "singleLine (encodeRune r)"
proof (cases "r < 128")
  case True
  then show ?thesis using assms by (simp add: encodeRune_def encodeScalar_def validRune_def)
next
  case False
  let ?r = "if validRune r then r else RuneError"
  have "128 \<le> ?r" using False by (simp add: RuneError_def)
  moreover have "validRune ?r" by simp
  ultimately have "list_all (\<lambda>c. 128 \<le> byteOf c) (encodeRune r)" unfolding encodeRune_def by (rule encodeScalar_high)
  then show ?thesis by (auto simp: singleLine_def list_all_iff)
qed

lemma isPrint_line: "isPrint uni r \<Longrightarrow> 32 \<le> r \<and> r \<noteq> 127"
  by (auto simp: isPrint_def split: if_splits)

lemma singleLine_clean: "cleanName uni s \<Longrightarrow> singleLine s"
  using singleLine_concat [of "runes s" encodeRune]
  by (auto simp: cleanName_def encodeRunes_def list_all_iff dest!: isPrint_line intro: singleLine_encodeRune)

lemma singleLine_quotedRune [simp]: "singleLine (quotedRune uni r)"
  by (auto simp: quotedRune_def dest!: isPrint_line intro!: singleLine_encodeRune)

lemma singleLine_quoted [simp]: "singleLine (quoted uni s)"
proof -
  have "singleLine (quotedBody uni s)"
  proof (induction uni s rule: quotedBody.induct)
    case (1 uni s)
    then show ?case by (subst quotedBody.simps) simp
  qed
  then show ?thesis by (simp add: quoted_def)
qed

end
