(* ===== verification/Scanner.thy ===== *)
theory Scanner
  imports Quote
begin

text \<open>
  The scanner of encoding/json, which checks a whole text before anything of it is stored: a state machine
  with a stack that reads one byte at a time and gives the text of the error, the byte it met included.
  The parser of Json accepts exactly the texts it accepts (theory ScanJson).
\<close>

section \<open>States\<close>

text \<open>What the scanner expects next; \<open>InLit\<close> has a literal and what is left of it.\<close>

datatype scanState =
    BeginValueOrEmpty
  | BeginValue
  | BeginStringOrEmpty
  | BeginString
  | EndValue
  | EndTop
  | InString
  | InStringEsc
  | InStringEscU nat
  | NumNeg
  | NumInt
  | NumZero
  | NumDot
  | NumFrac
  | NumE
  | NumESign
  | NumExp
  | InLit string string

datatype parseState = ObjectKey | ObjectValue | ArrayValue

type_synonym scanned = "string + scanState \<times> parseState list"

definition maxNestingDepth :: nat where "maxNestingDepth = 10000"

definition isWs :: "char \<Rightarrow> bool" where
  "isWs c \<longleftrightarrow> byteOf c \<in> {32, 9, 10, 13 :: nat}"

section \<open>Errors\<close>

abbreviation squote :: char where "squote \<equiv> CHR 0x27"

definition quoteChar :: "char \<Rightarrow> string" where
  "quoteChar c =
     (if c = squote then [squote, bslash, squote, squote]
      else if c = dquote then [squote, dquote, squote]
      else squote # quotedRune (\<lambda>r. False) (byteOf c) @ [squote])"

definition scanError :: "char \<Rightarrow> string \<Rightarrow> scanned" where
  "scanError c expected = Inl (''invalid character '' @ quoteChar c @ '' '' @ expected)"

section \<open>Steps\<close>

text \<open>The innermost state is the head of the stack.\<close>

definition pushParseState :: "char \<Rightarrow> parseState \<Rightarrow> scanState \<Rightarrow> parseState list \<Rightarrow> scanned" where
  "pushParseState c p st ps =
     (if length (p # ps) \<le> maxNestingDepth then Inr (st, p # ps) else scanError c ''exceeded max depth'')"

definition popParseState :: "parseState list \<Rightarrow> scanned" where
  "popParseState ps = Inr (if tl ps = [] then EndTop else EndValue, tl ps)"

definition endTop :: "char \<Rightarrow> scanned" where
  "endTop c = (if isWs c then Inr (EndTop, []) else scanError c ''after top-level value'')"

definition endValue :: "parseState list \<Rightarrow> char \<Rightarrow> scanned" where
  "endValue ps c =
     (case ps of
        [] \<Rightarrow> endTop c
      | p # ps' \<Rightarrow>
          if isWs c then Inr (EndValue, ps)
          else
            (case p of
               ObjectKey \<Rightarrow>
                 if c = CHR '':'' then Inr (BeginValue, ObjectValue # ps') else scanError c ''after object key''
             | ObjectValue \<Rightarrow>
                 if c = CHR '','' then Inr (BeginString, ObjectKey # ps')
                 else if c = CHR ''}'' then popParseState ps
                 else scanError c ''after object key:value pair''
             | ArrayValue \<Rightarrow>
                 if c = CHR '','' then Inr (BeginValue, ps)
                 else if c = CHR '']'' then popParseState ps
                 else scanError c ''after array element''))"

definition beginValue :: "parseState list \<Rightarrow> char \<Rightarrow> scanned" where
  "beginValue ps c =
     (if isWs c then Inr (BeginValue, ps)
      else if c = CHR ''{'' then pushParseState c ObjectKey BeginStringOrEmpty ps
      else if c = CHR ''['' then pushParseState c ArrayValue BeginValueOrEmpty ps
      else if c = dquote then Inr (InString, ps)
      else if c = CHR ''-'' then Inr (NumNeg, ps)
      else if c = CHR ''0'' then Inr (NumZero, ps)
      else if c = CHR ''t'' then Inr (InLit ''true'' ''rue'', ps)
      else if c = CHR ''f'' then Inr (InLit ''false'' ''alse'', ps)
      else if c = CHR ''n'' then Inr (InLit ''null'' ''ull'', ps)
      else if isDigit c then Inr (NumInt, ps)
      else scanError c ''looking for beginning of value'')"

definition beginString :: "parseState list \<Rightarrow> char \<Rightarrow> scanned" where
  "beginString ps c =
     (if isWs c then Inr (BeginString, ps)
      else if c = dquote then Inr (InString, ps)
      else scanError c ''looking for beginning of object key string'')"

definition numZero :: "parseState list \<Rightarrow> char \<Rightarrow> scanned" where
  "numZero ps c =
     (if c = CHR ''.'' then Inr (NumDot, ps)
      else if c = CHR ''e'' \<or> c = CHR ''E'' then Inr (NumE, ps)
      else endValue ps c)"

definition numESign :: "parseState list \<Rightarrow> char \<Rightarrow> scanned" where
  "numESign ps c = (if isDigit c then Inr (NumExp, ps) else scanError c ''in exponent of numeric literal'')"

fun scanStep :: "scanState \<Rightarrow> parseState list \<Rightarrow> char \<Rightarrow> scanned" where
  "scanStep BeginValueOrEmpty ps c =
     (if isWs c then Inr (BeginValueOrEmpty, ps) else if c = CHR '']'' then endValue ps c else beginValue ps c)"
| "scanStep BeginValue ps c = beginValue ps c"
| "scanStep BeginStringOrEmpty ps c =
     (if isWs c then Inr (BeginStringOrEmpty, ps)
      else if c = CHR ''}'' then endValue (ObjectValue # tl ps) c else beginString ps c)"
| "scanStep BeginString ps c = beginString ps c"
| "scanStep EndValue ps c = endValue ps c"
| "scanStep EndTop ps c = endTop c"
| "scanStep InString ps c =
     (if c = dquote then Inr (EndValue, ps)
      else if c = bslash then Inr (InStringEsc, ps)
      else if byteOf c < (32 :: nat) then scanError c ''in string literal''
      else Inr (InString, ps))"
| "scanStep InStringEsc ps c =
     (if c \<in> {CHR ''b'', CHR ''f'', CHR ''n'', CHR ''r'', CHR ''t'', bslash, CHR ''/'', dquote} then Inr (InString, ps)
      else if c = CHR ''u'' then Inr (InStringEscU 0, ps)
      else scanError c ''in string escape code'')"
| "scanStep (InStringEscU k) ps c =
     (if hexVal c \<noteq> None then Inr (if k < 3 then InStringEscU (Suc k) else InString, ps)
      else scanError c (''in '' @ [bslash] @ ''u hexadecimal character escape''))"
| "scanStep NumNeg ps c =
     (if c = CHR ''0'' then Inr (NumZero, ps) else if isDigit c then Inr (NumInt, ps)
      else scanError c ''in numeric literal'')"
| "scanStep NumInt ps c = (if isDigit c then Inr (NumInt, ps) else numZero ps c)"
| "scanStep NumZero ps c = numZero ps c"
| "scanStep NumDot ps c =
     (if isDigit c then Inr (NumFrac, ps) else scanError c ''after decimal point in numeric literal'')"
| "scanStep NumFrac ps c =
     (if isDigit c then Inr (NumFrac, ps)
      else if c = CHR ''e'' \<or> c = CHR ''E'' then Inr (NumE, ps)
      else endValue ps c)"
| "scanStep NumE ps c = (if c = CHR ''+'' \<or> c = CHR ''-'' then Inr (NumESign, ps) else numESign ps c)"
| "scanStep NumESign ps c = numESign ps c"
| "scanStep NumExp ps c = (if isDigit c then Inr (NumExp, ps) else endValue ps c)"
| "scanStep (InLit lit left) ps c =
     (if c = hd left then Inr (if tl left = [] then EndValue else InLit lit (tl left), ps)
      else scanError c (''in literal '' @ lit @ '' (expecting '' @ [squote, hd left, squote] @ '')''))"

section \<open>Checking a text\<close>

text \<open>At the end of the text the scanner reads one more space; the result is the text of the error.\<close>

definition scanEnd :: "scanState \<Rightarrow> parseState list \<Rightarrow> string option" where
  "scanEnd st ps =
     (if st = EndTop then None
      else (case scanStep st ps (CHR '' '') of
              Inl err \<Rightarrow> Some err
            | Inr (st', ps') \<Rightarrow> if st' = EndTop then None else Some ''unexpected end of JSON input''))"

fun scanFrom :: "scanState \<Rightarrow> parseState list \<Rightarrow> string \<Rightarrow> string option" where
  "scanFrom st ps [] = scanEnd st ps"
| "scanFrom st ps (c # cs) = (case scanStep st ps c of Inl err \<Rightarrow> Some err | Inr (st', ps') \<Rightarrow> scanFrom st' ps' cs)"

definition checkValid :: "string \<Rightarrow> string option" where
  "checkValid s = scanFrom BeginValue [] s"

section \<open>Errors are whole lines\<close>

text \<open>A literal that is being read has no control character.\<close>

fun litLine :: "scanState \<Rightarrow> bool" where
  "litLine (InLit lit left) = (singleLine lit \<and> singleLine left \<and> left \<noteq> [])"
| "litLine st = True"

lemmas scan_defs = pushParseState_def popParseState_def endTop_def endValue_def beginValue_def beginString_def
  numZero_def numESign_def

fun lineOK :: "scanned \<Rightarrow> bool" where
  "lineOK (Inl err) = singleLine err"
| "lineOK (Inr (st, ps)) = litLine st"

lemma lineOK_if: "(b \<Longrightarrow> lineOK x) \<Longrightarrow> (\<not> b \<Longrightarrow> lineOK y) \<Longrightarrow> lineOK (if b then x else y)"
  by simp

lemma lineOK_error: "singleLine x \<Longrightarrow> lineOK (scanError c x)"
  by (simp add: scanError_def quoteChar_def)

lemma lineOK_endValue: "lineOK (endValue ps c)"
  by (cases ps; cases "hd ps") (auto simp: endValue_def endTop_def popParseState_def intro!: lineOK_error)

lemma lineOK_begin: "lineOK (beginValue ps c)" "lineOK (beginString ps c)" "lineOK (endTop c)"
  unfolding beginValue_def pushParseState_def beginString_def endTop_def
  by (intro lineOK_if lineOK_error; simp)+

lemma lineOK_num: "lineOK (numZero ps c)" "lineOK (numESign ps c)"
  unfolding numZero_def numESign_def by (intro lineOK_if lineOK_error lineOK_endValue; simp)+

lemma scanStep_line:
  assumes "litLine st"
  shows "lineOK (scanStep st ps c)"
proof (cases st)
  case (InLit lit left)
  then obtain e es where "left = e # es" "singleLine lit" "32 \<le> byteOf e \<and> byteOf e \<noteq> (127 :: nat)" "singleLine es"
    using assms by (cases left) auto
  then show ?thesis using InLit by (cases es) (auto intro!: lineOK_error)
next
  case (InStringEscU k)
  show ?thesis unfolding InStringEscU scanStep.simps by (intro lineOK_if lineOK_error) simp_all
qed (simp_all only: scanStep.simps, (intro lineOK_if lineOK_error lineOK_endValue lineOK_begin lineOK_num; simp)+)

lemma scanFrom_line: "litLine st \<Longrightarrow> scanFrom st ps s = Some err \<Longrightarrow> singleLine err"
proof (induction st ps s rule: scanFrom.induct)
  case (1 st ps)
  then show ?case using scanStep_line [of st ps "CHR '' ''"]
    by (auto simp: scanEnd_def split: if_splits sum.splits prod.splits)
next
  case (2 st ps c cs)
  then show ?case using scanStep_line [of st ps c] by (auto split: sum.splits prod.splits)
qed

lemma checkValid_line: "checkValid s = Some err \<Longrightarrow> singleLine err"
  unfolding checkValid_def by (rule scanFrom_line) simp_all

end
