(* ===== verification/Json.thy ===== *)
theory Json
  imports Scanner
begin

text \<open>
  The part of Go's encoding/json and encoding/base64 the program uses: \<open>json.Marshal\<close> and
  \<open>json.Unmarshal\<close> of a list of strings (the reply of the peer-address exchange) and of the
  message envelope of \<open>Publish\<close> and \<open>receiveMessages\<close> (an anonymous struct with the fields
  name and data).  The text is parsed into a tree first, as \<open>Unmarshal\<close> checks the whole
  text before it stores anything, and the tree is then stored into the target.

  The main facts are the two round trips.  Strings are written with Go's escapes (HTML
  characters included) and read back with U+FFFD in place of every byte that is not UTF-8.
\<close>

section \<open>Reading hexadecimal\<close>

fun hex4 :: "string \<Rightarrow> (nat \<times> string) option" where
  "hex4 (a # b # c # d # rest) =
     (case (hexVal a, hexVal b, hexVal c, hexVal d) of
        (Some w, Some x, Some y, Some z) \<Rightarrow> Some (w * 4096 + x * 256 + y * 16 + z, rest)
      | _ \<Rightarrow> None)"
| "hex4 _ = None"

section \<open>Writing strings\<close>

definition escAscii :: "nat \<Rightarrow> string" where
  "escAscii b =
     (if b = 34 \<or> b = 92 then [bslash, char_of b]
      else if b = 8 then [bslash, CHR ''b'']
      else if b = 12 then [bslash, CHR ''f'']
      else if b = 10 then [bslash, CHR ''n'']
      else if b = 13 then [bslash, CHR ''r'']
      else if b = 9 then [bslash, CHR ''t'']
      else if b < 32 \<or> b = 60 \<or> b = 62 \<or> b = 38
        then [bslash, CHR ''u'', CHR ''0'', CHR ''0'', hexDigit (b div 16), hexDigit (b mod 16)]
      else [char_of b])"

definition escRune :: "rune \<Rightarrow> string" where
  "escRune r =
     (if r < 128 then escAscii r
      else if r = 8232 then [bslash, CHR ''u'', CHR ''2'', CHR ''0'', CHR ''2'', CHR ''8'']
      else if r = 8233 then [bslash, CHR ''u'', CHR ''2'', CHR ''0'', CHR ''2'', CHR ''9'']
      else encodeRune r)"

text \<open>The bytes of a string: a byte that is not UTF-8 is written as an escaped U+FFFD.\<close>

function quoteBody :: "string \<Rightarrow> string" where
  "quoteBody s =
     (if s = [] then []
      else (if decodeRune s = (RuneError, 1)
            then [bslash, CHR ''u'', CHR ''f'', CHR ''f'', CHR ''f'', CHR ''d'']
            else escRune (fst (decodeRune s)))
           @ quoteBody (drop (snd (decodeRune s)) s))"
  by pat_completeness auto
termination
  by (relation "measure length") (auto simp: decodeRune_width)

declare quoteBody.simps [simp del]

definition jsonQuote :: "string \<Rightarrow> string" where
  "jsonQuote s = dquote # quoteBody s @ [dquote]"

section \<open>Reading strings\<close>

definition isSurrogate :: "nat \<Rightarrow> bool" where
  "isSurrogate r \<longleftrightarrow> 55296 \<le> r \<and> r < 57344"

text \<open>The low half of a surrogate pair that follows, if one does.\<close>

definition lowHalf :: "string \<Rightarrow> (nat \<times> string) option" where
  "lowHalf s =
     (case s of
        c # u # rest \<Rightarrow>
          if c = bslash \<and> u = CHR ''u''
          then (case hex4 rest of
                  Some (r, rest') \<Rightarrow> if 56320 \<le> r \<and> r < 57344 then Some (r, rest') else None
                | None \<Rightarrow> None)
          else None
      | _ \<Rightarrow> None)"

definition peelEscape :: "char \<Rightarrow> string \<Rightarrow> (rune \<times> string) option" where
  "peelEscape e es =
     (if e = dquote \<or> e = bslash \<or> e = CHR ''/'' then Some (byteOf e, es)
      else if e = CHR ''b'' then Some (8, es)
      else if e = CHR ''f'' then Some (12, es)
      else if e = CHR ''n'' then Some (10, es)
      else if e = CHR ''r'' then Some (13, es)
      else if e = CHR ''t'' then Some (9, es)
      else if e = CHR ''u'' then
        (case hex4 es of
           None \<Rightarrow> None
         | Some (r, rest) \<Rightarrow>
             if isSurrogate r then
               (case lowHalf rest of
                  Some (low, rest') \<Rightarrow>
                    if r < 56320 then Some ((r - 55296) * 1024 + (low - 56320) + 65536, rest')
                    else Some (RuneError, rest)
                | None \<Rightarrow> Some (RuneError, rest))
             else Some (r, rest))
      else None)"

definition peelChar :: "string \<Rightarrow> (rune \<times> string) option" where
  "peelChar s =
     (case s of
        [] \<Rightarrow> None
      | c # cs \<Rightarrow>
          if c = bslash then (case cs of [] \<Rightarrow> None | e # es \<Rightarrow> peelEscape e es)
          else if c = dquote \<or> byteOf c < (32::nat) then None
          else Some (fst (decodeRune s), drop (snd (decodeRune s)) s))"

lemma hex4_less: "hex4 s = Some (r, rest) \<Longrightarrow> length rest < length s"
  by (induction s rule: hex4.induct) (auto split: option.splits)

lemma lowHalf_less: "lowHalf s = Some (r, rest) \<Longrightarrow> length rest < length s"
  by (auto simp: lowHalf_def dest!: hex4_less split: list.splits if_splits option.splits)

lemma peelEscape_less: "peelEscape e es = Some (r, rest) \<Longrightarrow> length rest \<le> length es"
  by (auto simp: peelEscape_def dest!: hex4_less lowHalf_less split: if_splits option.splits)

lemma peelChar_less:
  assumes "peelChar s = Some (r, rest)"
  shows "length rest < length s"
proof (cases s)
  case Nil
  then show ?thesis using assms by (simp add: peelChar_def)
next
  case (Cons c cs)
  then have "0 < snd (decodeRune (c # cs))" by (simp add: decodeRune_width)
  then show ?thesis using assms Cons
    by (auto simp: peelChar_def dest!: peelEscape_less split: if_splits list.splits)
qed

definition atQuote :: "string \<Rightarrow> bool" where
  "atQuote s = (case s of c # _ \<Rightarrow> c = dquote | [] \<Rightarrow> False)"

text \<open>The runes up to the closing quote, and what follows it.\<close>

function strBody :: "string \<Rightarrow> (rune list \<times> string) option" where
  "strBody s =
     (if atQuote s then Some ([], tl s)
      else (case peelChar s of
              None \<Rightarrow> None
            | Some (r, rest) \<Rightarrow> map_option (apfst ((#) r)) (strBody rest)))"
  by pat_completeness auto
termination
  by (relation "measure length") (auto simp: peelChar_less)

declare strBody.simps [simp del]

lemma strBody_less: "strBody s = Some (rs, rest) \<Longrightarrow> length rest < length s"
proof (induction s arbitrary: rs rule: strBody.induct)
  case (1 s)
  show ?case
  proof (cases "atQuote s")
    case True
    then show ?thesis using 1(2) by (cases s) (auto simp: atQuote_def strBody.simps [of "_ # _"])
  next
    case False
    then obtain r t rs' where rt: "peelChar s = Some (r, t)" "strBody t = Some (rs', rest)"
      using 1(2) by (auto simp: strBody.simps [of s] split: option.splits)
    then have "length rest < length t" using 1(1) [OF False rt(1)] by blast
    then show ?thesis using peelChar_less [OF rt(1)] by simp
  qed
qed

section \<open>Strings round-trip\<close>

lemma hex4_00: "a < 16 \<Longrightarrow> b < 16 \<Longrightarrow>
    hex4 (CHR ''0'' # CHR ''0'' # hexDigit a # hexDigit b # ys) = Some (a * 16 + b, ys)"
  using hexVal_hexDigit [of a] hexVal_hexDigit [of b] by (simp add: hexVal_def [of "CHR ''0''"])

lemma quote_chars [simp]: "(char_of (34::nat) :: char) = dquote" "(char_of (92::nat) :: char) = bslash"
  by code_simp+

lemma peel_plain:
  assumes "32 \<le> r" and "r < 128" and "r \<noteq> 34" and "r \<noteq> 92"
  shows "peelChar (char_of r # ys) = Some (r, ys)"
proof -
  have byte: "byteOf (char_of r :: char) = r" using assms(2) by simp
  have "byteOf bslash = (92::nat)" "byteOf dquote = (34::nat)" by simp_all
  with byte have "char_of r \<noteq> bslash" "char_of r \<noteq> dquote" using assms(3,4) by metis+
  then show ?thesis using assms(1,2) byte by (simp add: peelChar_def decodeRune.simps Let_def)
qed

lemma peel_escAscii:
  assumes "r < 128"
  shows "peelChar (escAscii r @ ys) = Some (r, ys)"
proof -
  consider "r = 34 \<or> r = 92" | "r = 8 \<or> r = 12 \<or> r = 10 \<or> r = 13 \<or> r = 9"
    | "\<not> (r = 34 \<or> r = 92)" "\<not> (r = 8 \<or> r = 12 \<or> r = 10 \<or> r = 13 \<or> r = 9)"
      "r < 32 \<or> r = 60 \<or> r = 62 \<or> r = 38"
    | "\<not> (r = 34 \<or> r = 92)" "\<not> (r < 32 \<or> r = 60 \<or> r = 62 \<or> r = 38)" by blast
  then show ?thesis
  proof cases
    case 1
    then show ?thesis by (elim disjE) (simp_all add: escAscii_def peelChar_def peelEscape_def)
  next
    case 2
    then show ?thesis by (elim disjE) (simp_all add: escAscii_def peelChar_def peelEscape_def)
  next
    case 3
    have "hex4 (CHR ''0'' # CHR ''0'' # hexDigit (r div 16) # hexDigit (r mod 16) # ys) = Some (r, ys)"
      using assms hex4_00 [of "r div 16" "r mod 16" ys] by simp
    moreover have "escAscii r = [bslash, CHR ''u'', CHR ''0'', CHR ''0'', hexDigit (r div 16), hexDigit (r mod 16)]"
      using 3 by (simp add: escAscii_def)
    ultimately show ?thesis using assms by (simp add: peelChar_def peelEscape_def isSurrogate_def)
  next
    case 4
    then have "escAscii r = [char_of r]" by (auto simp: escAscii_def)
    then show ?thesis using 4 assms by (simp add: peel_plain)
  qed
qed

text \<open>A rune outside ASCII starts with a byte that is neither a quote nor a backslash.\<close>

lemma encodeRune_lead:
  assumes "validRune r" and "128 \<le> r"
  obtains c cs where "encodeRune r = c # cs" and "192 \<le> byteOf c"
proof -
  consider "r < 2048" | "2048 \<le> r" "r < 65536" | "65536 \<le> r" by linarith
  then have "\<exists>c cs. encodeRune r = c # cs \<and> 192 \<le> byteOf c"
  proof cases
    case 1
    then have "192 + r div 64 < 256" by simp
    then show ?thesis using assms 1 by (simp add: encodeRune_def encodeScalar_def)
  next
    case 2
    then have "224 + r div 4096 < 256" by simp
    then show ?thesis using assms 2 by (simp add: encodeRune_def encodeScalar_def)
  next
    case 3
    then have "240 + r div 262144 < 256" using assms by (auto simp: validRune_def)
    then show ?thesis using assms 3 by (simp add: encodeRune_def encodeScalar_def)
  qed
  then show ?thesis using that by blast
qed

lemma peel_wide:
  assumes "validRune r" and "128 \<le> r"
  shows "peelChar (encodeRune r @ ys) = Some (r, ys)"
proof -
  obtain c cs where c: "encodeRune r = c # cs" "192 \<le> byteOf c" by (rule encodeRune_lead [OF assms])
  then have "c \<noteq> bslash" "c \<noteq> dquote" by auto
  then show ?thesis using decode_encode [OF assms(1), of ys] c by (simp add: peelChar_def)
qed

lemma peel_escRune: "validRune r \<Longrightarrow> peelChar (escRune r @ ys) = Some (r, ys)"
  by (simp add: escRune_def peel_escAscii peel_wide)
     (simp add: peelChar_def peelEscape_def isSurrogate_def hexVal_def)

lemma escRune_not_quote: "validRune r \<Longrightarrow> \<not> atQuote (escRune r @ ys)"
  using peel_escRune [of r ys] by (auto simp: peelChar_def atQuote_def split: list.splits if_splits)

text \<open>What a string becomes on its way through JSON.\<close>

definition toValidUTF8 :: "string \<Rightarrow> string" where
  "toValidUTF8 s = encodeRunes (runes s)"

lemma toValidUTF8_encoded: "\<forall>r \<in> set rs. validRune r \<Longrightarrow> toValidUTF8 (encodeRunes rs) = encodeRunes rs"
  by (simp add: toValidUTF8_def runes_encodeRunes)

lemma toValidUTF8_ascii: "list_all (\<lambda>c. byteOf c < 128) s \<Longrightarrow> toValidUTF8 s = s"
proof -
  assume a: "list_all (\<lambda>c. byteOf c < 128) s"
  then have "encodeRunes (map byteOf s) = s"
    by (induction s) (auto simp: encodeRunes_def encodeRune_def encodeScalar_def validRune_def)
  moreover have "\<forall>r \<in> set (map byteOf s). validRune r" using a by (auto simp: list_all_iff validRune_def)
  ultimately show ?thesis using toValidUTF8_encoded [of "map byteOf s"] by simp
qed

lemma toValidUTF8_idem: "toValidUTF8 (toValidUTF8 s) = toValidUTF8 s"
  unfolding toValidUTF8_def [of s] by (rule toValidUTF8_encoded) (simp add: runes_valid)

lemma strBody_Cons:
  "peelChar s = Some (r, t) \<Longrightarrow> \<not> atQuote s \<Longrightarrow> strBody s = map_option (apfst ((#) r)) (strBody t)"
  by (simp add: strBody.simps [of s])

lemma strBody_quote: "strBody (quoteBody s @ dquote # t) = Some (runes s, t)"
proof (induction s rule: quoteBody.induct)
  case (1 s)
  show ?case
  proof (cases "s = []")
    case True
    then show ?thesis
      by (simp add: quoteBody.simps [of "[]"] runes.simps [of "[]"] strBody.simps [of "dquote # t"] atQuote_def)
  next
    case False
    define r w where rw: "r = fst (decodeRune s)" "w = snd (decodeRune s)"
    define e where "e = (if decodeRune s = (RuneError, 1)
            then [bslash, CHR ''u'', CHR ''f'', CHR ''f'', CHR ''f'', CHR ''d''] else escRune r)"
    have q: "quoteBody s = e @ quoteBody (drop w s)"
      using False by (simp add: quoteBody.simps [of s] e_def rw)
    have "peelChar (e @ ys) = Some (r, ys) \<and> \<not> atQuote (e @ ys)" for ys
    proof (cases "decodeRune s = (RuneError, 1)")
      case True
      then show ?thesis
        by (simp add: e_def rw peelChar_def peelEscape_def hexVal_def isSurrogate_def RuneError_def atQuote_def)
    next
      case False
      then show ?thesis
        using peel_escRune [of r ys] escRune_not_quote [of r ys] decodeRune_valid [of s] by (simp add: e_def rw)
    qed
    then have "strBody (quoteBody s @ dquote # t) = map_option (apfst ((#) r)) (strBody (quoteBody (drop w s) @ dquote # t))"
      unfolding q by (simp add: strBody_Cons)
    then show ?thesis using 1 [OF False] False
      by (simp add: rw runes.simps [of s])
  qed
qed

section \<open>Values\<close>

text \<open>A string keeps the text between its quotes, which \<open>time.Time\<close> reads without unescaping it.\<close>

datatype json =
    JNull
  | JBool bool
  | JNum string
  | JStr string string
  | JArr "json list"
  | JObj "(string \<times> json) list"

definition strLit :: "string \<Rightarrow> (json \<times> string) option" where
  "strLit s = map_option (\<lambda>(rs, t). (JStr (take (length s - length t - 1) s) (encodeRunes rs), t)) (strBody s)"

definition skipWs :: "string \<Rightarrow> string" where
  "skipWs s = dropWhile isWs s"

text \<open>A number literal, and what follows it: the grammar of RFC 8259.\<close>

definition splitDigits :: "string \<Rightarrow> string \<times> string" where
  "splitDigits s = (takeWhile isDigit s, dropWhile isDigit s)"

definition numInt :: "string \<Rightarrow> (string \<times> string) option" where
  "numInt s =
     (case s of
        [] \<Rightarrow> None
      | c # cs \<Rightarrow>
          if c = CHR ''0'' then Some ([c], cs)
          else if isDigit c then Some (splitDigits s)
          else None)"

definition numFrac :: "string \<Rightarrow> (string \<times> string) option" where
  "numFrac s =
     (case s of
        c # cs \<Rightarrow>
          if c = CHR ''.''
          then (case splitDigits cs of (ds, t) \<Rightarrow> if ds = [] then None else Some (c # ds, t))
          else Some ([], s)
      | [] \<Rightarrow> Some ([], s))"

definition numSign :: "string \<Rightarrow> string \<times> string" where
  "numSign s = (case s of c # cs \<Rightarrow> if c = CHR ''+'' \<or> c = CHR ''-'' then ([c], cs) else ([], s) | [] \<Rightarrow> ([], s))"

definition numExp :: "string \<Rightarrow> (string \<times> string) option" where
  "numExp s =
     (case s of
        c # cs \<Rightarrow>
          if c = CHR ''e'' \<or> c = CHR ''E''
          then (case numSign cs of (sg, u) \<Rightarrow>
                  (case splitDigits u of (ds, t) \<Rightarrow> if ds = [] then None else Some (c # sg @ ds, t)))
          else Some ([], s)
      | [] \<Rightarrow> Some ([], s))"

definition number :: "string \<Rightarrow> (string \<times> string) option" where
  "number s =
     (let (neg, s1) = (case s of c # cs \<Rightarrow> if c = CHR ''-'' then ([c], cs) else ([], s) | [] \<Rightarrow> ([], s)) in
      case numInt s1 of
        None \<Rightarrow> None
      | Some (i, s2) \<Rightarrow>
          (case numFrac s2 of
             None \<Rightarrow> None
           | Some (f, s3) \<Rightarrow>
               (case numExp s3 of
                  None \<Rightarrow> None
                | Some (e, s4) \<Rightarrow> Some (neg @ i @ f @ e, s4))))"

definition stripPrefix :: "string \<Rightarrow> string \<Rightarrow> string option" where
  "stripPrefix p s = (if take (length p) s = p then Some (drop (length p) s) else None)"

definition literal :: "string \<Rightarrow> (json \<times> string) option" where
  "literal s =
     (case stripPrefix ''null'' s of
        Some t \<Rightarrow> Some (JNull, t)
      | None \<Rightarrow>
          (case stripPrefix ''true'' s of
             Some t \<Rightarrow> Some (JBool True, t)
           | None \<Rightarrow>
               (case stripPrefix ''false'' s of
                  Some t \<Rightarrow> Some (JBool False, t)
                | None \<Rightarrow> map_option (apfst JNum) (number s))))"

text \<open>
  Values nest at most 10000 deep (\<open>maxNestingDepth\<close> of the scanner).  The first argument is
  fuel: \<open>jsonParse\<close> starts with twice the length of the text, and each pair of calls consumes
  a character, so the fuel never decides the result (\<open>parse_fuel\<close> below).
\<close>

text \<open>The key of an object's member, and what follows its colon.\<close>

definition memberKey :: "string \<Rightarrow> (string \<times> string) option" where
  "memberKey s =
     (case skipWs s of
        [] \<Rightarrow> None
      | q # s1 \<Rightarrow>
          if q \<noteq> dquote then None
          else
            (case strBody s1 of
               None \<Rightarrow> None
             | Some (ks, s2) \<Rightarrow>
                 (case skipWs s2 of
                    [] \<Rightarrow> None
                  | colon # s3 \<Rightarrow> if colon = CHR '':'' then Some (encodeRunes ks, s3) else None)))"

fun parseValue :: "nat \<Rightarrow> nat \<Rightarrow> string \<Rightarrow> (json \<times> string) option"
  and parseElems :: "nat \<Rightarrow> nat \<Rightarrow> string \<Rightarrow> (json list \<times> string) option"
  and parseMembers :: "nat \<Rightarrow> nat \<Rightarrow> string \<Rightarrow> ((string \<times> json) list \<times> string) option" where
  "parseValue 0 d s = None"
| "parseValue (Suc n) d s =
     (case skipWs s of
        [] \<Rightarrow> None
      | c # cs \<Rightarrow>
          if c = dquote then strLit cs
          else if c = CHR ''['' then
            (if maxNestingDepth \<le> d then None
             else (case skipWs cs of
                     [] \<Rightarrow> None
                   | e # es \<Rightarrow>
                       if e = CHR '']'' then Some (JArr [], es)
                       else map_option (apfst JArr) (parseElems n (Suc d) (e # es))))
          else if c = CHR ''{'' then
            (if maxNestingDepth \<le> d then None
             else (case skipWs cs of
                     [] \<Rightarrow> None
                   | e # es \<Rightarrow>
                       if e = CHR ''}'' then Some (JObj [], es)
                       else map_option (apfst JObj) (parseMembers n (Suc d) (e # es))))
          else literal (c # cs))"
| "parseElems 0 d s = None"
| "parseElems (Suc n) d s =
     (case parseValue n d s of
        None \<Rightarrow> None
      | Some (v, t) \<Rightarrow>
          (case skipWs t of
             [] \<Rightarrow> None
           | c # cs \<Rightarrow>
               if c = CHR '','' then map_option (apfst ((#) v)) (parseElems n d cs)
               else if c = CHR '']'' then Some ([v], cs)
               else None))"
| "parseMembers 0 d s = None"
| "parseMembers (Suc n) d s =
     (case memberKey s of
        None \<Rightarrow> None
      | Some (k, s') \<Rightarrow>
          (case parseValue n d s' of
             None \<Rightarrow> None
           | Some (v, t) \<Rightarrow>
               (case skipWs t of
                  [] \<Rightarrow> None
                | c # cs \<Rightarrow>
                    if c = CHR '','' then map_option (apfst ((#) (k, v))) (parseMembers n d cs)
                    else if c = CHR ''}'' then Some ([(k, v)], cs)
                    else None)))"

definition jsonParse :: "string \<Rightarrow> json option" where
  "jsonParse s =
     (case parseValue (2 * length s + 2) 0 s of
        Some (v, t) \<Rightarrow> if skipWs t = [] then Some v else None
      | None \<Rightarrow> None)"

section \<open>The fuel is enough\<close>

lemma length_skipWs: "length (skipWs s) \<le> length s"
  by (simp add: skipWs_def length_dropWhile_le)

lemma skipWs_Cons: "skipWs s = c # cs \<Longrightarrow> length cs < length s"
  using length_skipWs [of s] by simp

lemma numInt_less: "numInt s = Some (a, t) \<Longrightarrow> length t < length s"
  using length_dropWhile_le [of isDigit "tl s"]
  by (cases s) (auto simp: numInt_def splitDigits_def split: if_splits)

lemma splitDigits_le: "length (snd (splitDigits s)) \<le> length s"
  by (simp add: splitDigits_def length_dropWhile_le)

lemma numFrac_le: "numFrac s = Some (a, t) \<Longrightarrow> length t \<le> length s"
  using splitDigits_le [of "tl s"]
  by (cases s) (auto simp: numFrac_def split: if_splits prod.splits)

lemma numExp_le: "numExp s = Some (a, t) \<Longrightarrow> length t \<le> length s"
  using splitDigits_le [of "snd (numSign (tl s))"]
  by (cases s) (fastforce simp: numExp_def numSign_def split: if_splits prod.splits list.splits)+

lemma number_less: "number s = Some (a, t) \<Longrightarrow> length t < length s"
  by (auto simp: number_def Let_def split: option.splits prod.splits list.splits if_splits
      dest!: numInt_less numFrac_le numExp_le)

lemma stripPrefix_less: "stripPrefix p s = Some t \<Longrightarrow> p \<noteq> [] \<Longrightarrow> length t < length s"
  by (cases s) (auto simp: stripPrefix_def split: if_splits)

lemma literal_less: "literal s = Some (v, t) \<Longrightarrow> length t < length s"
  by (auto simp: literal_def split: option.splits dest: stripPrefix_less number_less)

lemma strLit_less: "strLit s = Some (v, t) \<Longrightarrow> length t < length s"
  by (auto simp: strLit_def dest: strBody_less)

lemma memberKey_less: "memberKey s = Some (k, t) \<Longrightarrow> length t < length s"
  by (fastforce simp: memberKey_def split: list.splits if_splits option.splits dest!: skipWs_Cons strBody_less)

lemma parse_less:
  "parseValue n d s = Some (v, t) \<Longrightarrow> length t < length s"
  "parseElems n d s = Some (vs, t) \<Longrightarrow> length t < length s"
  "parseMembers n d s = Some (ms, t) \<Longrightarrow> length t < length s"
proof (induction n d s and n d s and n d s arbitrary: v t and vs t and ms t
       rule: parseValue_parseElems_parseMembers.induct)
  case (2 n d s)
  then show ?case
    by (fastforce split: list.splits if_splits option.splits dest!: skipWs_Cons strLit_less literal_less)
next
  case (4 n d s)
  then show ?case
    by (fastforce split: list.splits if_splits option.splits prod.splits dest!: skipWs_Cons)
next
  case (6 n d s)
  then show ?case
    by (fastforce split: list.splits if_splits option.splits prod.splits dest!: skipWs_Cons memberKey_less)
qed simp_all

declare parseValue.simps [simp del] parseElems.simps [simp del] parseMembers.simps [simp del]

lemma parse_step:
  "(2 * length s + 1 \<le> n \<longrightarrow> parseValue (Suc n) d s = parseValue n d s) \<and>
   (2 * length s + 2 \<le> n \<longrightarrow> parseElems (Suc n) d s = parseElems n d s) \<and>
   (2 * length s + 2 \<le> n \<longrightarrow> parseMembers (Suc n) d s = parseMembers n d s)"
proof (induction n arbitrary: d s)
  case 0
  show ?case by (simp add: parseValue.simps)
next
  case (Suc n)
  have V: "parseValue (Suc n) d s = parseValue n d s" if "2 * length s + 1 \<le> n" for d s
    using Suc that by blast
  have E: "parseElems (Suc n) d s = parseElems n d s" if "2 * length s + 2 \<le> n" for d s
    using Suc that by blast
  have M: "parseMembers (Suc n) d s = parseMembers n d s" if "2 * length s + 2 \<le> n" for d s
    using Suc that by blast
  have "parseValue (Suc (Suc n)) d s = parseValue (Suc n) d s" if le: "2 * length s + 1 \<le> Suc n"
  proof -
    have "2 * length (e # es) + 2 \<le> n" if "skipWs s = c # cs" "skipWs cs = e # es" for c cs e es
      using le skipWs_Cons [OF that(1)] length_skipWs [of cs] that(2) by simp
    then show ?thesis
      unfolding parseValue.simps(2) [of "Suc n" d s] parseValue.simps(2) [of n d s] by (auto simp: E M split: list.split)
  qed
  moreover have "parseElems (Suc (Suc n)) d s = parseElems (Suc n) d s" if le: "2 * length s + 2 \<le> Suc n"
  proof -
    have "2 * length cs + 2 \<le> n" if "parseValue n d s = Some (v, t)" "skipWs t = c # cs" for v t c cs
      using le parse_less(1) [OF that(1)] skipWs_Cons [OF that(2)] by simp
    moreover have "parseValue (Suc n) d s = parseValue n d s" using le by (intro V) simp
    ultimately show ?thesis
      unfolding parseElems.simps(2) [of "Suc n" d s] parseElems.simps(2) [of n d s] by (auto simp: E split: list.split option.split)
  qed
  moreover have "parseMembers (Suc (Suc n)) d s = parseMembers (Suc n) d s" if le: "2 * length s + 2 \<le> Suc n"
  proof -
    have key: "2 * length s' + 1 \<le> n" if "memberKey s = Some (k, s')" for k s'
      using le memberKey_less [OF that] by simp
    moreover have "2 * length cs + 2 \<le> n"
      if "memberKey s = Some (k, s')" "parseValue n d s' = Some (v, t)" "skipWs t = c # cs" for k s' v t c cs
      using key [OF that(1)] parse_less(1) [OF that(2)] skipWs_Cons [OF that(3)] by simp
    ultimately show ?thesis
      unfolding parseMembers.simps(2) [of "Suc n" d s] parseMembers.simps(2) [of n d s] by (auto simp: V M split: list.split option.split)
  qed
  ultimately show ?case by blast
qed

text \<open>Any larger fuel gives the same result: a text is rejected for its syntax only.\<close>

lemma parse_fuel:
  assumes "2 * length s + 2 \<le> n"
  shows "parseValue n 0 s = parseValue (2 * length s + 2) 0 s"
  using assms
proof (induction n rule: dec_induct)
  case (step m)
  then show ?case using parse_step [of s m 0] by simp
qed simp

section \<open>Base64\<close>

text \<open>\<open>base64.StdEncoding\<close>: padded, not strict about trailing bits, line breaks ignored.\<close>

definition b64digit :: "nat \<Rightarrow> char" where
  "b64digit v = char_of (if v < 26 then 65 + v else if v < 52 then 71 + v else if v < 62 then v - 4
     else if v = 62 then 43 else 47)"

definition b64val :: "char \<Rightarrow> nat option" where
  "b64val c =
     (let b = byteOf c in
      if 65 \<le> b \<and> b \<le> 90 then Some (b - 65)
      else if 97 \<le> b \<and> b \<le> 122 then Some (b - 71)
      else if 48 \<le> b \<and> b \<le> 57 then Some (b + 4)
      else if b = 43 then Some 62
      else if b = 47 then Some 63
      else None)"

fun b64enc :: "string \<Rightarrow> string" where
  "b64enc [] = []"
| "b64enc [a] = [b64digit (byteOf a div 4), b64digit (byteOf a mod 4 * 16), CHR ''='', CHR ''='']"
| "b64enc [a, b] =
     [b64digit (byteOf a div 4), b64digit (byteOf a mod 4 * 16 + byteOf b div 16),
      b64digit (byteOf b mod 16 * 4), CHR ''='']"
| "b64enc (a # b # c # rest) =
     b64digit (byteOf a div 4) # b64digit (byteOf a mod 4 * 16 + byteOf b div 16)
       # b64digit (byteOf b mod 16 * 4 + byteOf c div 64) # b64digit (byteOf c mod 64) # b64enc rest"

fun b64dec :: "string \<Rightarrow> string option" where
  "b64dec [] = Some []"
| "b64dec (w # x # y # z # rest) =
     (case (b64val w, b64val x) of
        (Some p, Some q) \<Rightarrow>
          (case b64val y of
             None \<Rightarrow> if y = CHR ''='' \<and> z = CHR ''='' \<and> rest = [] then Some [char_of (p * 4 + q div 16)] else None
           | Some r \<Rightarrow>
               (case b64val z of
                  None \<Rightarrow> if z = CHR ''='' \<and> rest = []
                    then Some [char_of (p * 4 + q div 16), char_of (q mod 16 * 16 + r div 4)] else None
                | Some u \<Rightarrow>
                    map_option (\<lambda>bs. char_of (p * 4 + q div 16) # char_of (q mod 16 * 16 + r div 4)
                                  # char_of (r mod 4 * 64 + u) # bs) (b64dec rest)))
      | _ \<Rightarrow> None)"
| "b64dec _ = None"

definition isLineBreak :: "char \<Rightarrow> bool" where
  "isLineBreak c \<longleftrightarrow> byteOf c = (10 :: nat) \<or> byteOf c = (13 :: nat)"

text \<open>
  The position \<open>Decode\<close> reports for a corrupt input: \<open>j\<close> digits of a quantum have been read, and \<open>si\<close> bytes in
  all; after padding only line breaks may follow.
\<close>

fun corruptTail :: "nat \<Rightarrow> string \<Rightarrow> nat option" where
  "corruptTail si [] = None"
| "corruptTail si (c # cs) = (if isLineBreak c then corruptTail (si + 1) cs else Some si)"

fun corruptPad :: "nat \<Rightarrow> string \<Rightarrow> nat option" where
  "corruptPad si [] = Some si"
| "corruptPad si (c # cs) =
     (if isLineBreak c then corruptPad (si + 1) cs
      else if c = CHR ''='' then corruptTail (si + 1) cs
      else Some (si - 1))"

fun corruptFrom :: "nat \<Rightarrow> nat \<Rightarrow> string \<Rightarrow> nat option" where
  "corruptFrom j si [] = (if j = 0 then None else Some (si - j))"
| "corruptFrom j si (c # cs) =
     (if b64val c \<noteq> None then corruptFrom (if j = 3 then 0 else j + 1) (si + 1) cs
      else if isLineBreak c then corruptFrom j (si + 1) cs
      else if c \<noteq> CHR ''='' \<or> j < 2 then Some si
      else if j = 2 then corruptPad (si + 1) cs
      else corruptTail (si + 1) cs)"

definition base64Corrupt :: "string \<Rightarrow> nat" where
  "base64Corrupt s = (case corruptFrom 0 0 s of Some n \<Rightarrow> n | None \<Rightarrow> 0)"

definition base64Decode :: "string \<Rightarrow> string option" where
  "base64Decode s = b64dec (filter (\<lambda>c. \<not> isLineBreak c) s)"

lemma b64digit_byte: "v < 64 \<Longrightarrow> byteOf (b64digit v) = (if v < 26 then 65 + v else if v < 52 then 71 + v
    else if v < 62 then v - 4 else if v = 62 then 43 else (47 :: nat))"
  by (simp add: b64digit_def)

lemma b64val_digit [simp]: "v < 64 \<Longrightarrow> b64val (b64digit v) = Some v"
  by (auto simp: b64val_def b64digit_byte Let_def)

lemma b64val_pad [simp]: "b64val (CHR ''='') = None"
  by (simp add: b64val_def)

lemma small_div: "n < 256 \<Longrightarrow> n div 4 < 64 \<and> n div 16 < 16 \<and> n div 64 < (4 :: nat)"
  by auto

lemmas byte_div = small_div [OF byteOf_less, THEN conjunct1]
  small_div [OF byteOf_less, THEN conjunct2, THEN conjunct1]
  small_div [OF byteOf_less, THEN conjunct2, THEN conjunct2]

lemma byte_parts:
  "(byteOf a :: nat) div 4 < 64" "(byteOf a :: nat) mod 4 * 16 + byteOf b div 16 < 64"
  "(byteOf a :: nat) mod 16 * 4 + byteOf b div 64 < 64" "(byteOf a :: nat) mod 64 < 64"
  "(byteOf a :: nat) mod 4 * 16 < 64" "(byteOf a :: nat) mod 16 * 4 < 64"
proof -
  have "(byteOf a :: nat) div 4 < 64" "(byteOf b :: nat) div 16 < 16" "(byteOf b :: nat) div 64 < 4"
    by (rule byte_div)+
  moreover have "(byteOf a :: nat) mod 4 < 4" "(byteOf a :: nat) mod 16 < 16" "(byteOf a :: nat) mod 64 < 64"
    by simp_all
  ultimately show "(byteOf a :: nat) div 4 < 64" "(byteOf a :: nat) mod 4 * 16 + byteOf b div 16 < 64"
    "(byteOf a :: nat) mod 16 * 4 + byteOf b div 64 < 64" "(byteOf a :: nat) mod 64 < 64"
    "(byteOf a :: nat) mod 4 * 16 < 64" "(byteOf a :: nat) mod 16 * 4 < 64"
    by linarith+
qed

lemma regroup:
  fixes x y :: nat
  shows "y < 16 \<Longrightarrow> (x mod 4 * 16 + y) div 16 = x mod 4" "y < 16 \<Longrightarrow> (x mod 4 * 16 + y) mod 16 = y"
    "y < 4 \<Longrightarrow> (x mod 16 * 4 + y) div 4 = x mod 16" "y < 4 \<Longrightarrow> (x mod 16 * 4 + y) mod 4 = y"
  by simp_all

lemma char_regroup:
  "char_of ((byteOf a :: nat) div 4 * 4 + byteOf a mod 4) = a"
  "char_of ((byteOf a :: nat) div 16 * 16 + byteOf a mod 16) = a"
  "char_of ((byteOf a :: nat) div 64 * 64 + byteOf a mod 64) = a"
  by (simp_all only: div_mult_mod_eq char_of_char)

lemma b64dec_enc: "b64dec (b64enc bs) = Some bs"
proof (induction bs rule: b64enc.induct)
  case (2 a)
  have "(byteOf a :: nat) mod 4 * 16 div 16 = byteOf a mod 4" by simp
  then show ?case by (simp add: byte_parts char_regroup)
next
  case (3 a b)
  have "(byteOf b :: nat) mod 16 * 4 div 4 = byteOf b mod 16" by simp
  then show ?case by (simp add: byte_parts byte_div regroup char_regroup)
next
  case (4 a b c rest)
  then show ?case by (simp add: byte_parts byte_div regroup char_regroup)
qed simp

lemma b64digit_plain: "v < 64 \<Longrightarrow> 43 \<le> (byteOf (b64digit v) :: nat) \<and> byteOf (b64digit v) < (123 :: nat)
    \<and> byteOf (b64digit v) \<noteq> (92 :: nat)"
  by (auto simp: b64digit_byte)

text \<open>Characters that JSON writes as they are.\<close>

definition plain :: "char \<Rightarrow> bool" where
  "plain c \<longleftrightarrow> 32 \<le> (byteOf c :: nat) \<and> byteOf c < (128 :: nat) \<and> byteOf c \<noteq> (34 :: nat) \<and> byteOf c \<noteq> (92 :: nat)"

lemma b64digit_plain': "v < 64 \<Longrightarrow> plain (b64digit v) \<and> \<not> isLineBreak (b64digit v)"
  using b64digit_plain [of v] by (auto simp: plain_def isLineBreak_def)

lemma pad_plain: "plain (CHR ''='') \<and> \<not> isLineBreak (CHR ''='')"
  by (simp add: plain_def isLineBreak_def)

lemma b64enc_plain: "list_all (\<lambda>c. plain c \<and> \<not> isLineBreak c) (b64enc bs)"
  by (induction bs rule: b64enc.induct) (simp_all add: byte_parts b64digit_plain' pad_plain)

lemma base64_roundtrip: "base64Decode (b64enc bs) = Some bs"
proof -
  have "filter (\<lambda>c. \<not> isLineBreak c) (b64enc bs) = b64enc bs"
    using b64enc_plain [of bs] by (auto simp: filter_id_conv list_all_iff)
  then show ?thesis by (simp add: base64Decode_def b64dec_enc)
qed

section \<open>Marshal and Unmarshal\<close>

text \<open>
  The errors \<open>Unmarshal\<close> returns: the scanner's for a text that is not JSON, one that names the kind of value (a
  number that does not fit with its literal) and where it was to be stored, and that of base64.
\<close>

definition jsonSyntaxError :: "string \<Rightarrow> goerror" where
  "jsonSyntaxError raw = ExtErr (case checkValid raw of Some err \<Rightarrow> err | None \<Rightarrow> [])"

fun jsonKind :: "json \<Rightarrow> string" where
  "jsonKind JNull = ''null''"
| "jsonKind (JBool b) = ''bool''"
| "jsonKind (JNum lit) = ''number''"
| "jsonKind (JStr raw s) = ''string''"
| "jsonKind (JArr vs) = ''array''"
| "jsonKind (JObj ms) = ''object''"

definition jsonTypeError :: "string \<Rightarrow> string \<Rightarrow> string \<Rightarrow> goerror" where
  "jsonTypeError val target ty = ExtErr (''json: cannot unmarshal '' @ val @ '' into Go '' @ target @ '' of type '' @ ty)"

definition base64Error :: "nat \<Rightarrow> goerror" where
  "base64Error n = ExtErr (''illegal base64 data at input byte '' @ natDec n)"

fun commaSep :: "string list \<Rightarrow> string" where
  "commaSep [] = []"
| "commaSep [x] = x"
| "commaSep (x # y # zs) = x @ CHR '','' # commaSep (y # zs)"

text \<open>A list of strings (not nil); neither this nor the envelope can fail to marshal.\<close>

definition marshalStrings :: "string list \<Rightarrow> goerror + string" where
  "marshalStrings xs = Inr (CHR ''['' # commaSep (map jsonQuote xs) @ [CHR '']''])"

text \<open>Storing a tree into a nil \<open>[]string\<close>: null elements leave the empty string.\<close>

fun elemString :: "json \<Rightarrow> string option" where
  "elemString (JStr raw s) = Some s"
| "elemString JNull = Some []"
| "elemString _ = None"

definition storeStrings :: "json \<Rightarrow> goerror + string list" where
  "storeStrings v =
     (case v of
        JNull \<Rightarrow> Inr []
      | JArr vs \<Rightarrow> if list_all (\<lambda>e. elemString e \<noteq> None) vs
                   then Inr (map (\<lambda>e. the (elemString e)) vs)
                   else Inl (jsonTypeError (jsonKind (hd (filter (\<lambda>e. elemString e = None) vs))) ''value'' ''string'')
      | _ \<Rightarrow> Inl (jsonTypeError (jsonKind v) ''value'' ''[]string''))"

definition unmarshalStrings :: "string \<Rightarrow> goerror + string list" where
  "unmarshalStrings raw = (case jsonParse raw of None \<Rightarrow> Inl (jsonSyntaxError raw) | Some v \<Rightarrow> storeStrings v)"

text \<open>The envelope \<open>struct { Name string; Data []byte }\<close>; a nil \<open>Data\<close> is written as null.\<close>

record envelope =
  envName :: string
  envData :: string

definition marshalEnvelope :: "string \<Rightarrow> string option \<Rightarrow> goerror + string" where
  "marshalEnvelope name data =
     Inr (CHR ''{'' # jsonQuote ''name'' @ CHR '':'' # jsonQuote name @ CHR '','' # jsonQuote ''data'' @ CHR '':''
       # (case data of None \<Rightarrow> ''null'' | Some bs \<Rightarrow> dquote # b64enc bs @ [dquote]) @ ''}'')"

text \<open>
  Storing into it: keys match case-insensitively, the last of several counts, unknown keys are
  skipped, null leaves a string and empties a slice, \<open>Data\<close> takes base64 text or an array of
  numbers (a null element or one of the wrong type keeps the byte of its slot, also of one beyond
  the slice's length that an earlier duplicate of the key had filled), and the first error is kept
  while the rest is stored.
\<close>

definition asciiLower :: "char \<Rightarrow> char" where
  "asciiLower c = (if 65 \<le> byteOf c \<and> byteOf c \<le> (90 :: nat) then char_of (byteOf c + 32 :: nat) else c)"

fun natOf :: "nat \<Rightarrow> string \<Rightarrow> nat" where
  "natOf acc [] = acc"
| "natOf acc (c # cs) = natOf (acc * 10 + (byteOf c - 48)) cs"

definition byteElem :: "char \<Rightarrow> json \<Rightarrow> char \<times> goerror option" where
  "byteElem old v =
     (case v of
        JNum lit \<Rightarrow> if list_all isDigit lit \<and> natOf 0 lit < 256 then (char_of (natOf 0 lit), None)
                    else (old, Some (jsonTypeError (''number '' @ lit) ''struct field .data'' ''uint8''))
      | JNull \<Rightarrow> (old, None)
      | _ \<Rightarrow> (old, Some (jsonTypeError (jsonKind v) ''struct field .data'' ''uint8'')))"

fun firstErr :: "goerror option \<Rightarrow> goerror option \<Rightarrow> goerror option" where
  "firstErr None e = e"
| "firstErr (Some e) e' = Some e"

fun storeBytes :: "string \<Rightarrow> json list \<Rightarrow> string \<times> goerror option" where
  "storeBytes old [] = (old, None)"
| "storeBytes old (v # vs) =
     (case byteElem (case old of [] \<Rightarrow> CHR 0x00 | o' # os \<Rightarrow> o') v of (b, e) \<Rightarrow>
        (case storeBytes (tl old) vs of (bs, e') \<Rightarrow> (b # bs, firstErr e e')))"

text \<open>The envelope so far, the slots of its \<open>Data\<close> and the first error.\<close>

type_synonym envelopeState = "envelope \<times> string \<times> goerror option"

definition storeMember :: "envelopeState \<Rightarrow> string \<times> json \<Rightarrow> envelopeState" where
  "storeMember st kv =
     (case (st, kv) of ((m, slots, err), (k, v)) \<Rightarrow>
        if map asciiLower k = ''name'' then
          (case v of
             JStr raw s \<Rightarrow> (m\<lparr>envName := s\<rparr>, slots, err)
           | JNull \<Rightarrow> (m, slots, err)
           | _ \<Rightarrow> (m, slots, firstErr err (Some (jsonTypeError (jsonKind v) ''struct field .name'' ''string''))))
        else if map asciiLower k = ''data'' then
          (case v of
             JStr raw s \<Rightarrow> (case base64Decode s of
                          Some bs \<Rightarrow> (m\<lparr>envData := bs\<rparr>, bs, err)
                        | None \<Rightarrow> (m, slots, firstErr err (Some (base64Error (base64Corrupt s)))))
           | JNull \<Rightarrow> (m\<lparr>envData := []\<rparr>, [], err)
           | JArr vs \<Rightarrow>
               if vs = [] then (m\<lparr>envData := []\<rparr>, [], err)
               else (case storeBytes slots vs of (slots', e) \<Rightarrow>
                       (m\<lparr>envData := take (length vs) slots'\<rparr>, slots', firstErr err e))
           | _ \<Rightarrow> (m, slots, firstErr err (Some (jsonTypeError (jsonKind v) ''struct field .data'' ''[]uint8''))))
        else (m, slots, err))"

definition envelopeType :: string where
  "envelopeType = ''struct { Name string '' @ dquote # ''json:'' @ bslash # dquote # ''name'' @ [bslash, dquote, dquote]
     @ ''; Data []uint8 '' @ dquote # ''json:'' @ bslash # dquote # ''data'' @ [bslash, dquote, dquote] @ '' }''"

definition storeEnvelope :: "json \<Rightarrow> goerror + envelope" where
  "storeEnvelope v =
     (case v of
        JNull \<Rightarrow> Inr \<lparr>envName = [], envData = []\<rparr>
      | JObj ms \<Rightarrow>
          (case foldl storeMember (\<lparr>envName = [], envData = []\<rparr>, [], None) ms of
             (m, slots, None) \<Rightarrow> Inr m
           | (m, slots, Some e) \<Rightarrow> Inl e)
      | _ \<Rightarrow> Inl (jsonTypeError (jsonKind v) ''value'' envelopeType))"

definition unmarshalEnvelope :: "string \<Rightarrow> goerror + envelope" where
  "unmarshalEnvelope raw = (case jsonParse raw of None \<Rightarrow> Inl (jsonSyntaxError raw) | Some v \<Rightarrow> storeEnvelope v)"

section \<open>The round trips\<close>

lemma skipWs_skip [simp]: "\<not> isWs c \<Longrightarrow> skipWs (c # cs) = c # cs" "skipWs [] = []"
  by (simp_all add: skipWs_def)

lemma not_ws [simp]: "\<not> isWs dquote" "\<not> isWs (CHR '','')" "\<not> isWs (CHR '']'')" "\<not> isWs (CHR ''['')"
    "\<not> isWs (CHR ''{'')" "\<not> isWs (CHR ''}'')" "\<not> isWs (CHR '':'')" "\<not> isWs (CHR ''n'')"
  by (simp_all add: isWs_def)

lemma strBody_plain:
  "list_all plain s \<Longrightarrow> strBody (s @ dquote # t) = Some (map byteOf s, t)"
proof (induction s)
  case Nil
  then show ?case by (simp add: strBody.simps [of "dquote # t"] atQuote_def)
next
  case (Cons c s)
  then have c: "32 \<le> (byteOf c :: nat)" "byteOf c < (128 :: nat)" "byteOf c \<noteq> (34 :: nat)" "byteOf c \<noteq> (92 :: nat)"
    by (simp_all add: plain_def)
  from c(3) have "c \<noteq> dquote" by auto
  moreover have "peelChar (c # ys) = Some (byteOf c, ys)" for ys using peel_plain [OF c] by simp
  ultimately show ?case using Cons strBody_Cons [of "c # s @ dquote # t"] by (simp add: atQuote_def)
qed

lemma encodeRunes_plain: "list_all plain s \<Longrightarrow> encodeRunes (map byteOf s) = s"
  by (induction s) (auto simp: encodeRune_def validRune_def encodeScalar_def plain_def)

definition quotedValue :: "string \<Rightarrow> json" where
  "quotedValue s = JStr (quoteBody s) (toValidUTF8 s)"

lemma elemString_quoted [simp]: "elemString (quotedValue s) = Some (toValidUTF8 s)"
  by (simp add: quotedValue_def)

lemma parse_string:
  "parseValue (Suc n) d (jsonQuote s @ t) = Some (quotedValue s, t)"
  by (simp add: parseValue.simps strLit_def quotedValue_def jsonQuote_def strBody_quote toValidUTF8_def)

lemma parse_plain:
  "list_all plain s \<Longrightarrow> parseValue (Suc n) d (dquote # s @ dquote # t) = Some (JStr s s, t)"
  by (simp add: parseValue.simps strLit_def strBody_plain encodeRunes_plain)

lemma parse_strings:
  "xs \<noteq> [] \<Longrightarrow> length xs < n \<Longrightarrow>
     parseElems n d (commaSep (map jsonQuote xs) @ CHR '']'' # t) = Some (map quotedValue xs, t)"
proof (induction xs arbitrary: n rule: induct_list012)
  case (2 x)
  then obtain m where "n = Suc (Suc m)" by (cases n; cases "n - 1") auto
  then show ?case by (simp add: parseElems.simps parse_string)
next
  case (3 x y zs)
  then obtain m where n: "n = Suc (Suc m)" by (cases n; cases "n - 1") auto
  have "parseElems (Suc m) d (commaSep (map jsonQuote (y # zs)) @ CHR '']'' # t)
      = Some (map quotedValue (y # zs), t)" using 3 n by simp
  then show ?case by (simp add: n parseElems.simps(2) [of "Suc m"] parse_string)
qed simp

lemma length_commaSep: "length xs \<le> length (commaSep (map jsonQuote xs))"
  by (induction xs rule: induct_list012) (auto simp: jsonQuote_def)

lemma strings_lead: "xs \<noteq> [] \<Longrightarrow> \<exists>es. commaSep (map jsonQuote xs) = dquote # es"
  by (induction xs rule: induct_list012) (auto simp: jsonQuote_def)

lemma jsonParse_strings:
  assumes "marshalStrings xs = Inr raw"
  shows "jsonParse raw = Some (JArr (map quotedValue xs))"
proof -
  have raw: "raw = CHR ''['' # commaSep (map jsonQuote xs) @ [CHR '']'']"
    using assms by (simp add: marshalStrings_def)
  show ?thesis
  proof (cases "xs = []")
    case True
    then show ?thesis
      by (simp add: raw jsonParse_def parseValue.simps maxNestingDepth_def eval_nat_numeral)
  next
    case False
    have "parseElems (2 * length raw + 1) (Suc 0) (commaSep (map jsonQuote xs) @ [CHR '']''])
        = Some (map quotedValue xs, [])"
      using False length_commaSep [of xs] by (intro parse_strings) (simp_all add: raw)
    moreover obtain es where "commaSep (map jsonQuote xs) = dquote # es"
      using strings_lead [OF False] by blast
    ultimately show ?thesis
      by (simp add: raw jsonParse_def parseValue.simps(2) maxNestingDepth_def)
  qed
qed

theorem strings_roundtrip:
  "marshalStrings xs = Inr raw \<Longrightarrow> unmarshalStrings raw = Inr (map toValidUTF8 xs)"
  by (simp add: unmarshalStrings_def jsonParse_strings storeStrings_def list_all_iff)

lemma toValidUTF8_plain:
  assumes "list_all plain s"
  shows "toValidUTF8 s = s"
proof -
  have "runes s = map byteOf s"
    using assms
  proof (induction s)
    case (Cons c s)
    then have "decodeRune (c # s) = (byteOf c, 1)" by (simp add: plain_def decodeRune.simps Let_def)
    then show ?case using Cons by (simp add: runes.simps [of "c # s"])
  qed (simp add: runes.simps)
  then show ?thesis using assms by (simp add: toValidUTF8_def encodeRunes_plain)
qed

lemma keys_plain [simp]: "toValidUTF8 ''name'' = ''name''" "toValidUTF8 ''data'' = ''data''"
  by (simp_all add: toValidUTF8_plain plain_def)

lemma keys_lower [simp]: "map asciiLower ''name'' = ''name''" "map asciiLower ''data'' = ''data''"
  by (simp_all add: asciiLower_def)

lemma memberKey_quote: "memberKey (jsonQuote k @ CHR '':'' # t) = Some (toValidUTF8 k, t)"
  by (simp add: memberKey_def jsonQuote_def strBody_quote toValidUTF8_def)

definition dataValue :: "string option \<Rightarrow> json" where
  "dataValue data = (case data of None \<Rightarrow> JNull | Some bs \<Rightarrow> JStr (b64enc bs) (b64enc bs))"

lemma parse_data:
  "parseValue (Suc n) d ((case data of None \<Rightarrow> ''null'' | Some bs \<Rightarrow> dquote # b64enc bs @ [dquote]) @ t)
     = Some (dataValue data, t)"
proof (cases data)
  case None
  then show ?thesis by (simp add: dataValue_def parseValue.simps literal_def stripPrefix_def)
next
  case (Some bs)
  have "list_all plain (b64enc bs)" using b64enc_plain [of bs] by (auto simp: list_all_iff)
  then show ?thesis using Some by (simp add: dataValue_def parse_plain)
qed

lemma parse_envelope_members:
  "parseMembers (Suc (Suc (Suc n))) d
     (jsonQuote ''name'' @ CHR '':'' # jsonQuote name @ CHR '','' # jsonQuote ''data'' @ CHR '':''
       # (case data of None \<Rightarrow> ''null'' | Some bs \<Rightarrow> dquote # b64enc bs @ [dquote]) @ CHR ''}'' # t)
   = Some ([(''name'', quotedValue name), (''data'', dataValue data)], t)"
  by (simp add: parseMembers.simps(2) memberKey_quote parse_string parse_data)

lemma jsonParse_envelope:
  assumes "marshalEnvelope name data = Inr raw"
  shows "jsonParse raw = Some (JObj [(''name'', quotedValue name), (''data'', dataValue data)])"
proof -
  define body where "body = jsonQuote ''name'' @ CHR '':'' # jsonQuote name @ CHR '','' # jsonQuote ''data'' @ CHR '':''
       # (case data of None \<Rightarrow> ''null'' | Some bs \<Rightarrow> dquote # b64enc bs @ [dquote]) @ ''}''"
  have raw: "raw = CHR ''{'' # body" using assms by (simp add: marshalEnvelope_def body_def)
  obtain es where es: "body = dquote # es" by (auto simp: body_def jsonQuote_def)
  obtain n where n: "2 * length raw + 1 = Suc (Suc (Suc n))" by (simp add: raw es)
  have "parseMembers (2 * length raw + 1) (Suc 0) body
      = Some ([(''name'', quotedValue name), (''data'', dataValue data)], [])"
    using parse_envelope_members [of n "Suc 0" name data "[]"] unfolding n body_def by simp
  then show ?thesis
    by (simp add: raw es jsonParse_def parseValue.simps(2) maxNestingDepth_def)
qed

theorem envelope_roundtrip:
  assumes "marshalEnvelope name data = Inr raw"
  shows "unmarshalEnvelope raw = Inr \<lparr>envName = toValidUTF8 name, envData = (case data of None \<Rightarrow> [] | Some bs \<Rightarrow> bs)\<rparr>"
proof (cases data)
  case None
  then show ?thesis
    by (simp add: unmarshalEnvelope_def jsonParse_envelope [OF assms] storeEnvelope_def storeMember_def
        dataValue_def quotedValue_def asciiLower_def)
next
  case (Some bs)
  then show ?thesis
    by (simp add: unmarshalEnvelope_def jsonParse_envelope [OF assms] storeEnvelope_def storeMember_def
        dataValue_def quotedValue_def asciiLower_def base64_roundtrip)
qed

text \<open>ASCII text is escaped character by character, so quoting never shortens it.\<close>

lemma quoteBody_ascii:
  "list_all (\<lambda>c. byteOf c < (128 :: nat)) s \<Longrightarrow> quoteBody s = concat (map (\<lambda>c. escAscii (byteOf c)) s)"
proof (induction s)
  case Nil
  show ?case by (simp add: quoteBody.simps)
next
  case (Cons c s)
  then have "decodeRune (c # s) = (byteOf c, 1)" by (simp add: decodeRune.simps Let_def)
  moreover have "(byteOf c, 1) \<noteq> (RuneError, 1)" using Cons(2) by (auto simp: RuneError_def)
  ultimately show ?case using Cons by (simp add: quoteBody.simps [of "c # s"] escRune_def)
qed

lemma length_quoteBody_ascii:
  "list_all (\<lambda>c. byteOf c < (128 :: nat)) s \<Longrightarrow> length s \<le> length (quoteBody s)"
proof -
  have "length s \<le> length (concat (map (\<lambda>c. escAscii (byteOf c)) s))"
  proof (induction s)
    case (Cons c s)
    moreover have "0 < length (escAscii (byteOf c))" by (simp add: escAscii_def)
    ultimately show ?case by (simp only: list.map concat.simps length_append list.size)
  qed simp
  then show "list_all (\<lambda>c. byteOf c < (128 :: nat)) s \<Longrightarrow> length s \<le> length (quoteBody s)"
    by (simp add: quoteBody_ascii)
qed

end
