(* ===== verification/Clock.thy ===== *)
theory Clock
  imports Json
begin

text \<open>
  The time text of the peer cache file: \<open>time.Time.MarshalJSON\<close> and \<open>UnmarshalJSON\<close> of Go's standard
  library, RFC 3339 with a fraction of a second, on the proleptic Gregorian calendar.  A time is the
  number of nanoseconds since January 1 of year 1, so the zero time is 0.  Reading inverts writing.
\<close>

section \<open>The calendar\<close>

definition leapYear :: "int \<Rightarrow> bool" where
  "leapYear y \<longleftrightarrow> y mod 4 = 0 \<and> (y mod 100 \<noteq> 0 \<or> y mod 400 = 0)"

definition monthLens :: "int \<Rightarrow> int list" where
  "monthLens y = [31, if leapYear y then 29 else 28, 31, 30, 31, 30, 31, 31, 30, 31, 30, 31]"

definition daysIn :: "nat \<Rightarrow> int \<Rightarrow> int" where
  "daysIn m y = monthLens y ! (m - 1)"

text \<open>Days from January 1 of year 1 to January 1 of year \<open>y\<close>, and to a date.\<close>

definition daysBeforeYear :: "int \<Rightarrow> int" where
  "daysBeforeYear y = (let p = y - 1 in 365 * p + p div 4 - p div 100 + p div 400)"

definition dateDays :: "int \<Rightarrow> nat \<Rightarrow> int \<Rightarrow> int" where
  "dateDays y m d = daysBeforeYear y + sum_list (take (m - 1) (monthLens y)) + d - 1"

text \<open>And back: the year by cycles of 400, 100, 4 and 1 years, the month by counting down.\<close>

definition yearOf :: "int \<Rightarrow> int \<times> int" where
  "yearOf n =
     (let n400 = n div 146097; r = n mod 146097;
          n100 = min 3 (r div 36524); r = r - 36524 * n100;
          n4 = r div 1461; r = r mod 1461;
          n1 = min 3 (r div 365)
      in (400 * n400 + 100 * n100 + 4 * n4 + n1 + 1, r - 365 * n1))"

fun monthOf :: "int list \<Rightarrow> nat \<Rightarrow> int \<Rightarrow> nat \<times> int" where
  "monthOf [] m r = (m, r + 1)"
| "monthOf (n # ns) m r = (if r < n then (m, r + 1) else monthOf ns (Suc m) (r - n))"

definition dateOf :: "int \<Rightarrow> int \<times> nat \<times> int" where
  "dateOf n = (case yearOf n of (y, yday) \<Rightarrow> (case monthOf (monthLens y) 1 yday of (m, d) \<Rightarrow> (y, m, d)))"

lemma length_monthLens [simp]: "length (monthLens y) = 12"
  by (simp add: monthLens_def)

lemma sum_monthLens: "sum_list (monthLens y) = (if leapYear y then 366 else 365)"
  by (simp add: monthLens_def)

lemma monthOf_range:
  "0 \<le> r \<Longrightarrow> r < sum_list ns \<Longrightarrow> \<exists>k d. monthOf ns m r = (m + k, d) \<and> k < length ns
     \<and> 1 \<le> d \<and> d \<le> ns ! k \<and> sum_list (take k ns) + d - 1 = r"
proof (induction ns arbitrary: m r)
  case (Cons n ns)
  show ?case
  proof (cases "r < n")
    case True
    then show ?thesis using Cons.prems by (intro exI [of _ 0] exI [of _ "r + 1"]) simp
  next
    case False
    obtain k d where "monthOf ns (Suc m) (r - n) = (Suc m + k, d)" "k < length ns" "1 \<le> d" "d \<le> ns ! k"
      "sum_list (take k ns) + d - 1 = r - n"
      using Cons.IH [of "r - n" "Suc m"] Cons.prems False by auto
    then show ?thesis using False by (intro exI [of _ "Suc k"] exI [of _ d]) simp
  qed
qed simp

lemma div_part: "0 \<le> r \<Longrightarrow> r < d \<Longrightarrow> (q * d + r) div d = (q :: int)"
  by simp

lemma mod_part: "0 \<le> r \<Longrightarrow> r < d \<Longrightarrow> (q * d + r) mod d = (r :: int)"
  by simp

text \<open>Four parts of \<open>p\<close> days, of which the last may be one day longer.\<close>

lemma min_part:
  assumes "0 \<le> s" and "s \<le> 4 * p" and "0 < (p :: int)" and "e = min 3 (s div p)"
  shows "0 \<le> e \<and> e \<le> 3 \<and> 0 \<le> s - p * e \<and> s - p * e \<le> p \<and> (e < 3 \<longrightarrow> s - p * e < p)"
proof (cases "s div p \<le> 3")
  case True
  then have "e = s div p" "s - p * e = s mod p" using assms(4) by (simp_all add: minus_mult_div_eq_mod)
  moreover have "0 \<le> s div p" using assms(1,3) by (simp add: pos_imp_zdiv_nonneg_iff)
  moreover have "0 \<le> s mod p" "s mod p < p" using assms(3) by simp_all
  ultimately show ?thesis using True by linarith
next
  case False
  then have e: "e = 3" and "4 \<le> s div p" using assms(4) by simp_all
  then have "4 * p \<le> (s div p) * p" using assms(3) by simp
  moreover have "(s div p) * p \<le> s" using div_mult_mod_eq [of s p] pos_mod_sign [OF assms(3), of s] by linarith
  ultimately have "4 * p \<le> s" by linarith
  then show ?thesis using assms(2,3) e by simp
qed

lemma yearOf_range:
  assumes "yearOf n = (y, yday)"
  shows "daysBeforeYear y + yday = n" and "0 \<le> yday" and "yday < (if leapYear y then 366 else 365)"
proof -
  define a r b q c s e where "a = n div 146097" "r = n mod 146097" "b = min 3 (r div 36524)" "q = r - 36524 * b"
    "c = q div 1461" "s = q mod 1461" "e = min 3 (s div 365)"
  note defs = this
  have r: "0 \<le> r" "r < 146097" "n = 146097 * a + r" by (simp_all add: defs)
  have b: "0 \<le> b" "b \<le> 3" "0 \<le> q" "q < 36525" "b < 3 \<Longrightarrow> q < 36524" 
    using min_part [of r 36524 b] r by (auto simp: defs(3,4))
  have c: "0 \<le> c" "c \<le> 24" "q = 1461 * c + s" "0 \<le> s" "s < 1461" using b unfolding defs(5,6) by (simp, linarith, simp_all)
  have e: "0 \<le> e" "e \<le> 3" "0 \<le> s - 365 * e" "s - 365 * e \<le> 365" "e < 3 \<Longrightarrow> s - 365 * e < 365"
    using min_part [of s 365 e] c by (auto simp: defs(7))
  have y: "y = 400 * a + 100 * b + 4 * c + e + 1" "yday = s - 365 * e"
  proof -
    have "yearOf n = (400 * a + 100 * b + 4 * c + e + 1, s - 365 * e)" unfolding yearOf_def Let_def defs by (rule refl)
    then show "y = 400 * a + 100 * b + 4 * c + e + 1" "yday = s - 365 * e" using assms by simp_all
  qed
  have p4: "y - 1 = (100 * a + 25 * b + c) * 4 + e" and p100: "y - 1 = (4 * a + b) * 100 + (4 * c + e)"
    and p400: "y - 1 = a * 400 + (100 * b + 4 * c + e)" by (simp_all add: y)
  have "(y - 1) div 4 = 100 * a + 25 * b + c" unfolding p4 by (rule div_part) (use e in simp_all)
  moreover have "(y - 1) div 100 = 4 * a + b" unfolding p100 by (rule div_part) (use c e in simp_all)
  moreover have "(y - 1) div 400 = a" unfolding p400 by (rule div_part) (use b c e in simp_all)
  moreover have "n = 146097 * a + 36524 * b + 1461 * c + s" using r c by (simp add: defs(4))
  ultimately show "daysBeforeYear y + yday = n" by (simp add: daysBeforeYear_def Let_def) (simp add: y)
  show "0 \<le> yday" using e y by simp
  have "leapYear y" if "yday = 365"
  proof -
    have e3: "e = 3" using e that y by linarith
    then have s: "s = 1460" using that y by simp
    have "c < 24 \<or> b = 3"
    proof (rule ccontr)
      assume "\<not> (c < 24 \<or> b = 3)"
      then have "c = 24" "b < 3" using b c by linarith+
      then show False using b(5) c(3) s by simp
    qed
    moreover have "y mod 4 = 0"
    proof -
      have "y = (100 * a + 25 * b + c + 1) * 4" by (simp add: y e3)
      then show ?thesis by simp
    qed
    moreover have "y mod 100 = 4 * c + 4" if "c < 24"
    proof -
      have eq: "y = (4 * a + b) * 100 + (4 * c + 4)" by (simp add: y e3)
      show ?thesis unfolding eq by (rule mod_part) (use that c in simp_all)
    qed
    moreover have "y mod 400 = 0" if "b = 3" "c = 24"
    proof -
      have "y = (a + 1) * 400" using that by (simp add: y e3)
      then show ?thesis by simp
    qed
    ultimately show ?thesis using c unfolding leapYear_def by (cases "c < 24") auto
  qed
  moreover have "yday \<le> 365" using e(4) y(2) by simp
  ultimately show "yday < (if leapYear y then 366 else 365)" by (cases "yday = 365") auto
qed

lemma dateOf_valid:
  assumes "dateOf n = (y, m, d)"
  shows "dateDays y m d = n" and "1 \<le> m" and "m \<le> 12" and "1 \<le> d" and "d \<le> daysIn m y" and "d \<le> 31"
proof -
  obtain yday where y: "yearOf n = (y, yday)" and m: "monthOf (monthLens y) 1 yday = (m, d)"
    using assms by (auto simp: dateOf_def split: prod.splits)
  note yr = yearOf_range [OF y]
  obtain k d' where k: "monthOf (monthLens y) 1 yday = (1 + k, d')" "k < 12" "1 \<le> d'" "d' \<le> monthLens y ! k"
    "sum_list (take k (monthLens y)) + d' - 1 = yday"
    using monthOf_range [of yday "monthLens y" 1] yr by (auto simp: sum_monthLens)
  then have mk: "m = Suc k" "d = d'" using m by simp_all
  show "dateDays y m d = n" "1 \<le> m" "m \<le> 12" "1 \<le> d" "d \<le> daysIn m y"
    using k yr by (simp_all add: mk dateDays_def daysIn_def)
  have "list_all (\<lambda>n. n \<le> 31) (monthLens y)" by (simp add: monthLens_def)
  then show "d \<le> 31" using k mk by (auto simp: list_all_length)
qed

section \<open>Writing a time\<close>

text \<open>\<open>appendInt\<close> with a width, of a number that fits.\<close>

fun padded :: "nat \<Rightarrow> nat \<Rightarrow> string" where
  "padded 0 n = []"
| "padded (Suc w) n = padded w (n div 10) @ [char_of (48 + n mod 10)]"

text \<open>\<open>appendNano\<close> with trailing zeros removed.\<close>

definition stripZeros :: "string \<Rightarrow> string" where
  "stripZeros s = rev (dropWhile (\<lambda>c. c = CHR ''0'') (rev s))"

definition fracText :: "nat \<Rightarrow> string" where
  "fracText ns = (if ns = 0 then [] else CHR ''.'' # stripZeros (padded 9 ns))"

text \<open>The offset is cut to minutes towards zero, as Go's division does.\<close>

definition zoneText :: "int \<Rightarrow> string" where
  "zoneText offset =
     (if offset = 0 then ''Z''
      else (let m = nat (\<bar>offset\<bar> div 60) in
            (if offset \<le> - 60 then CHR ''-'' else CHR ''+'') # padded 2 (m div 60) @ CHR '':'' # padded 2 (m mod 60)))"

definition marshalTimeError :: goerror where
  "marshalTimeError = ExtErr ''json: error calling MarshalJSON for type time.Time''"

text \<open>
  \<open>MarshalJSON\<close>, without the quotes, in a zone \<open>offset\<close> seconds east of UTC: a year of other than four digits or
  an offset of a day or more is an error.
\<close>

definition daySecs :: int where "daySecs = 86400"

definition marshalTime :: "int \<Rightarrow> gotime \<Rightarrow> goerror + string" where
  "marshalTime offset t =
     (let secs = t div second + offset; ns = nat (t mod second);
          clock = nat (secs mod daySecs) in
      case dateOf (secs div daySecs) of
        (y, m, d) \<Rightarrow>
          if y < 0 \<or> 9999 < y \<or> 24 \<le> \<bar>offset\<bar> div 3600 then Inl marshalTimeError
          else Inr (padded 4 (nat y) @ CHR ''-'' # padded 2 m @ CHR ''-'' # padded 2 (nat d) @ CHR ''T''
                 # padded 2 (clock div 3600) @ CHR '':'' # padded 2 (clock div 60 mod 60) @ CHR '':''
                 # padded 2 (clock mod 60) @ fracText ns @ zoneText offset))"

section \<open>Reading a time\<close>

text \<open>
  \<open>UnmarshalJSON\<close> tries a strict reader first and falls back on \<open>time.Parse\<close> with the RFC 3339 layout, which
  reads everything the strict one does with the same result, and more (an hour of one digit, a
  comma before the fraction, offsets up to 24:60); so the latter is what is modelled.  An expected
  character, a number of two digits (or, unless \<open>fixed\<close>, of one), and the year:
\<close>

definition expect :: "char \<Rightarrow> string \<Rightarrow> string option" where
  "expect c s = (case s of [] \<Rightarrow> None | x # xs \<Rightarrow> if x = c then Some xs else None)"

definition getnum :: "bool \<Rightarrow> string \<Rightarrow> (nat \<times> string) option" where
  "getnum fixed s =
     (case s of
        [] \<Rightarrow> None
      | a # rest \<Rightarrow>
          if \<not> isDigit a then None
          else (case rest of
                  b # rest' \<Rightarrow> if isDigit b then Some (natOf 0 [a, b], rest')
                              else if fixed then None else Some (natOf 0 [a], rest)
                | [] \<Rightarrow> if fixed then None else Some (natOf 0 [a], rest)))"

definition getyear :: "string \<Rightarrow> (nat \<times> string) option" where
  "getyear s =
     (if 4 \<le> length s \<and> list_all isDigit (take 4 s) then Some (natOf 0 (take 4 s), drop 4 s) else None)"

text \<open>The fraction, of which at most nine digits count.\<close>

definition getfrac :: "string \<Rightarrow> nat \<times> string" where
  "getfrac s =
     (case s of
        p # a # rest \<Rightarrow>
          if (p = CHR ''.'' \<or> p = CHR '','') \<and> isDigit a
          then (let ds = takeWhile isDigit (a # rest); v = take 9 ds in
                (natOf 0 v * 10 ^ (9 - length v), dropWhile isDigit (a # rest)))
          else (0, s)
      | _ \<Rightarrow> (0, s))"

text \<open>The offset in seconds; nothing may follow it.\<close>

definition getzone :: "string \<Rightarrow> int option" where
  "getzone s =
     (if s = ''Z'' then Some 0
      else if length s \<noteq> 6 \<or> s ! 3 \<noteq> CHR '':'' then None
      else
        (case (getnum True (take 2 (drop 1 s)), getnum True (take 2 (drop 4 s))) of
           (Some (h, u), Some (m, v)) \<Rightarrow>
             if 24 < h \<or> 60 < m then None
             else if s ! 0 = CHR ''+'' then Some (int ((h * 60 + m) * 60))
             else if s ! 0 = CHR ''-'' then Some (- int ((h * 60 + m) * 60))
             else None
         | _ \<Rightarrow> None))"

definition numIn :: "nat \<Rightarrow> nat \<Rightarrow> (nat \<times> string) option \<Rightarrow> (nat \<times> string) option" where
  "numIn lo hi x = (case x of Some (n, s) \<Rightarrow> if lo \<le> n \<and> n \<le> hi then Some (n, s) else None | None \<Rightarrow> None)"

definition parseTime :: "string \<Rightarrow> gotime option" where
  "parseTime s =
     Option.bind (getyear s) (\<lambda>(y, s).
     Option.bind (Option.bind (expect (CHR ''-'') s) (\<lambda>s. numIn 1 12 (getnum True s))) (\<lambda>(m, s).
     Option.bind (Option.bind (expect (CHR ''-'') s) (getnum True)) (\<lambda>(d, s).
     Option.bind (Option.bind (expect (CHR ''T'') s) (\<lambda>s. numIn 0 23 (getnum False s))) (\<lambda>(h, s).
     Option.bind (Option.bind (expect (CHR '':'') s) (\<lambda>s. numIn 0 59 (getnum True s))) (\<lambda>(mi, s).
     Option.bind (Option.bind (expect (CHR '':'') s) (\<lambda>s. numIn 0 59 (getnum True s))) (\<lambda>(sec, s).
       (case getfrac s of (ns, s) \<Rightarrow>
          Option.bind (getzone s) (\<lambda>offset.
            if d < 1 \<or> daysIn m (int y) < int d then None
            else Some ((dateDays (int y) m (int d) * daySecs + int (h * 3600 + mi * 60 + sec) - offset) * second + int ns)))))))))"

section \<open>Reading what was written\<close>

lemma isDigit_digit [simp]: "(n :: nat) < 10 \<Longrightarrow> isDigit (char_of (48 + n))"
  by (simp add: isDigit_def)

lemma natOf_append: "natOf acc (xs @ ys) = natOf (natOf acc xs) ys"
  by (induction acc xs rule: natOf.induct) simp_all

lemma length_padded [simp]: "length (padded w n) = w"
  by (induction w arbitrary: n) simp_all

lemma digits_padded: "list_all isDigit (padded w n)"
  by (induction w arbitrary: n) simp_all

lemma natOf_padded: "n < 10 ^ w \<Longrightarrow> natOf 0 (padded w n) = n"
proof (induction w arbitrary: n)
  case (Suc w)
  then have "natOf 0 (padded w (n div 10)) = n div 10" by simp
  then show ?case by (simp add: natOf_append)
qed simp

lemma getnum_padded: "n < 100 \<Longrightarrow> getnum fixed (padded 2 n @ s) = Some (n, s)"
proof -
  assume n: "n < 100"
  obtain a b where ab: "padded 2 n = [a, b]"
    using length_padded [of 2 n] by (metis length_0_conv length_Suc_conv numeral_2_eq_2)
  then have "isDigit a" "isDigit b" using digits_padded [of 2 n] by simp_all
  moreover have "natOf 0 [a, b] = n" using natOf_padded [of n 2] n by (simp add: ab [symmetric])
  ultimately show ?thesis by (simp add: getnum_def ab)
qed

lemma getyear_padded: "n < 10000 \<Longrightarrow> getyear (padded 4 n @ s) = Some (n, s)"
  using natOf_padded [of n 4] digits_padded [of 4 n] by (simp add: getyear_def)

lemma stripZeros_split: "\<exists>k. s = stripZeros s @ replicate k (CHR ''0'')"
proof -
  let ?z = "takeWhile (\<lambda>c. c = CHR ''0'') (rev s)"
  have "?z = replicate (length ?z) (CHR ''0'')"
    by (rule replicate_eqI) (auto dest: set_takeWhileD)
  moreover have "s = stripZeros s @ rev ?z"
    unfolding stripZeros_def by (metis rev_append rev_rev_ident takeWhile_dropWhile_id)
  ultimately show ?thesis by (metis rev_replicate)
qed

lemma natOf_zeros: "natOf v (replicate k (CHR ''0'')) = v * 10 ^ k"
  by (induction k arbitrary: v) simp_all

text \<open>What may follow a fraction: neither a digit nor a separator of a fraction.\<close>

definition plainEnd :: "string \<Rightarrow> bool" where
  "plainEnd s = (case s of [] \<Rightarrow> True | c # cs \<Rightarrow> \<not> isDigit c \<and> c \<noteq> CHR ''.'' \<and> c \<noteq> CHR '','')"

lemma takeWhile_digits: "list_all isDigit ds \<Longrightarrow> plainEnd s \<Longrightarrow>
    takeWhile isDigit (ds @ s) = ds \<and> dropWhile isDigit (ds @ s) = s"
  by (induction ds) (auto simp: plainEnd_def split: list.splits)

lemma getfrac_text:
  assumes "ns < 10 ^ 9" and "plainEnd s"
  shows "getfrac (fracText ns @ s) = (ns, s)"
proof (cases "ns = 0")
  case True
  then show ?thesis using assms(2) by (auto simp: fracText_def getfrac_def plainEnd_def split: list.splits)
next
  case False
  define ds where "ds = stripZeros (padded 9 ns)"
  obtain k where k: "padded 9 ns = ds @ replicate k (CHR ''0'')" using stripZeros_split by (auto simp: ds_def)
  have len: "length ds + k = 9" using length_padded [of 9 ns] unfolding k by simp
  have v: "natOf 0 ds * 10 ^ k = ns" using natOf_padded [OF assms(1)] by (simp add: k natOf_append natOf_zeros)
  then have "ds \<noteq> []" using False by (cases ds) auto
  then obtain a rest where ds: "ds = a # rest" by (cases ds) auto
  have dig: "list_all isDigit ds" using digits_padded [of 9 ns] by (simp add: k)
  have "9 - length ds = k" "take 9 ds = ds" using len by simp_all
  then show ?thesis using False takeWhile_digits [OF dig assms(2)] dig v
    by (simp add: fracText_def getfrac_def ds_def [symmetric]) (simp add: ds Let_def)
qed

lemma zoneText_end: "plainEnd (zoneText offset)"
  by (auto simp: zoneText_def plainEnd_def isDigit_def Let_def)

lemma getzone_text:
  assumes "offset mod 60 = 0" and "\<bar>offset\<bar> div 3600 < 24"
  shows "getzone (zoneText offset) = Some offset"
proof (cases "offset = 0")
  case True
  then show ?thesis by (simp add: zoneText_def getzone_def)
next
  case False
  define m where "m = nat (\<bar>offset\<bar> div 60)"
  have "\<bar>offset\<bar> mod 60 = 0" using assms(1) by (cases "offset < 0") (simp_all add: zmod_zminus1_eq_if)
  then have m: "\<bar>offset\<bar> = int m * 60" by (auto simp: m_def dest!: mod_0_imp_dvd)
  have h: "m div 60 < 24"
  proof -
    have "\<bar>offset\<bar> < 86400" using assms(2) by linarith
    then show ?thesis using m by linarith
  qed
  obtain a b where ab: "padded 2 (m div 60) = [a, b]"
    using length_padded [of 2 "m div 60"] by (metis length_0_conv length_Suc_conv numeral_2_eq_2)
  obtain c d where cd: "padded 2 (m mod 60) = [c, d]"
    using length_padded [of 2 "m mod 60"] by (metis length_0_conv length_Suc_conv numeral_2_eq_2)
  have g: "getnum True [a, b] = Some (m div 60, [])" "getnum True [c, d] = Some (m mod 60, [])"
    using getnum_padded [of "m div 60" True "[]"] getnum_padded [of "m mod 60" True "[]"] h by (simp_all add: ab cd)
  have big: "offset \<le> - 60 \<longleftrightarrow> offset < 0"
    using m False by (cases m) auto
  have zt: "zoneText offset = (if offset < 0 then CHR ''-'' else CHR ''+'') # [a, b] @ CHR '':'' # [c, d]"
    by (simp add: zoneText_def Let_def m_def [symmetric] ab cd big False)
  have v: "int ((m div 60 * 60 + m mod 60) * 60) = \<bar>offset\<bar>" using m by simp
  have "\<not> (24 < m div 60 \<or> 60 < m mod 60)" using h mod_less_divisor [of 60 m] by linarith
  then have "getzone (zoneText offset) = Some (if offset < 0 then - int ((m div 60 * 60 + m mod 60) * 60)
      else int ((m div 60 * 60 + m mod 60) * 60))"
    unfolding zt getzone_def by (simp add: g del: of_nat_add of_nat_mult)
  then show ?thesis unfolding v by simp
qed

lemma expect_same [simp]: "expect c (c # s) = Some s"
  by (simp add: expect_def)

lemma hms_sum: "m = h * 60 + mi \<Longrightarrow> c = m * 60 + s \<Longrightarrow> h * 3600 + mi * 60 + s = (c :: nat)"
  by simp

text \<open>A zone whose offset is a whole number of minutes: all zones in use since 1972.\<close>

theorem time_round_trip:
  assumes "marshalTime offset t = Inr txt" and "offset mod 60 = 0"
  shows "parseTime txt = Some t"
proof -
  define secs where "secs = t div second + offset"
  define ns where "ns = nat (t mod second)"
  define clock where "clock = nat (secs mod daySecs)"
  obtain y m d where date: "dateOf (secs div daySecs) = (y, m, d)" by (rule prod_cases3)
  note dv = dateOf_valid [OF date]
  have y: "0 \<le> y" "y \<le> 9999" "\<bar>offset\<bar> div 3600 < 24"
    and text_eq: "txt = padded 4 (nat y) @ CHR ''-'' # padded 2 m @ CHR ''-'' # padded 2 (nat d) @ CHR ''T''
                 # padded 2 (clock div 3600) @ CHR '':'' # padded 2 (clock div 60 mod 60) @ CHR '':''
                 # padded 2 (clock mod 60) @ fracText ns @ zoneText offset"
    using assms(1) by (auto simp: marshalTime_def Let_def secs_def ns_def clock_def date [unfolded secs_def] split: if_splits)
  have clock: "clock < 86400" "int clock = secs mod daySecs" by (simp_all add: clock_def daySecs_def nat_less_iff)
  have ns: "ns < 10 ^ 9" "int ns = t mod second" by (simp_all add: ns_def second_def nat_less_iff)
  have "clock div 60 mod 60 < 60" "clock mod 60 < 60" by simp_all
  then have parts: "clock div 3600 \<le> 23" "clock div 60 mod 60 \<le> 59" "clock mod 60 \<le> 59"
    using clock by (simp_all only: less_Suc_eq_le eval_nat_numeral(3))
  have "clock div 3600 = clock div 60 div 60" by (simp add: div_mult2_eq [symmetric])
  moreover have "clock div 60 = clock div 60 div 60 * 60 + clock div 60 mod 60" "clock = clock div 60 * 60 + clock mod 60"
    by (simp_all only: div_mult_mod_eq)
  ultimately have hms: "clock div 3600 * 3600 + clock div 60 mod 60 * 60 + clock mod 60 = clock" by (metis hms_sum)
  have frac: "getfrac (fracText ns @ zoneText offset) = (ns, zoneText offset)" by (rule getfrac_text [OF ns(1) zoneText_end])
  have numbers: "m < 100" "nat d < 100" "nat y < 10000" "int (nat y) = y" "int (nat d) = d"
    using dv y by linarith+
  have "parseTime txt = Some ((dateDays y m d * daySecs + int (clock div 3600 * 3600 + clock div 60 mod 60 * 60 + clock mod 60) - offset)
      * second + int ns)"
    unfolding text_eq parseTime_def using parts numbers dv(2-5)
    by (simp add: getyear_padded getnum_padded numIn_def frac getzone_text [OF assms(2) y(3)] del: mod_less_divisor)
  also have "\<dots> = Some t"
  proof -
    have "secs div daySecs * daySecs + secs mod daySecs = secs" by simp
    moreover have "t div second * second + t mod second = t" by simp
    ultimately show ?thesis unfolding hms dv(1) clock(2) ns(2) by (simp add: secs_def)
  qed
  finally show ?thesis .
qed

text \<open>The text needs no escape in JSON.\<close>

lemma digits_plain: "list_all plain (padded w n)"
proof -
  have "isDigit c \<Longrightarrow> plain c" for c by (auto simp: isDigit_def plain_def)
  then show ?thesis using digits_padded [of w n] by (auto simp: list_all_iff)
qed

lemma stripZeros_plain: "list_all plain s \<Longrightarrow> list_all plain (stripZeros s)"
  by (auto simp: stripZeros_def list_all_iff dest: set_dropWhileD)

lemma time_plain: "marshalTime offset t = Inr txt \<Longrightarrow> list_all plain txt"
  by (auto simp: marshalTime_def Let_def fracText_def zoneText_def digits_plain stripZeros_plain plain_def
      split: prod.splits if_splits)

text \<open>Every time of the years 1 to 9999 has a text, in a zone of less than a day.\<close>

lemma low_sum: "p \<le> - 2 \<Longrightarrow> 4 * a \<le> p \<Longrightarrow> p < 100 * b + 100 \<Longrightarrow> 400 * c \<le> p \<Longrightarrow> 365 * p + a - b + c \<le> (- 730 :: int)"
  by linarith

lemma high_sum: "9999 \<le> p \<Longrightarrow> p < 4 * a + 4 \<Longrightarrow> 100 * b \<le> p \<Longrightarrow> p < 400 * c + 400 \<Longrightarrow> 3652059 \<le> (365 * p + a - b + c :: int)"
  by linarith

lemma quotients:
  assumes "0 < d"
  shows "d * (p div d) \<le> p" and "p < d * (p div d) + (d :: int)"
proof -
  from assms have "0 \<le> p mod d" "p mod d < d" by simp_all
  moreover have "d * (p div d) + p mod d = p" by simp
  ultimately show "d * (p div d) \<le> p" "p < d * (p div d) + d" by linarith+
qed

lemma daysBeforeYear_low: "y \<le> - 1 \<Longrightarrow> daysBeforeYear y \<le> - 730"
  unfolding daysBeforeYear_def Let_def by (rule low_sum [OF _ quotients(1) quotients(2) quotients(1)]) simp_all

lemma daysBeforeYear_high: "10000 \<le> y \<Longrightarrow> 3652059 \<le> daysBeforeYear y"
  unfolding daysBeforeYear_def Let_def by (rule high_sum [OF _ quotients(2) quotients(1) quotients(2)]) simp_all

lemma yearOf_bounds:
  assumes "0 \<le> n" and "n < 3652059" and "yearOf n = (y, yday)"
  shows "1 \<le> y" and "y \<le> 9999"
proof -
  note r = yearOf_range [OF assms(3)]
  show "y \<le> 9999"
  proof (rule ccontr)
    assume "\<not> y \<le> 9999"
    then have "3652059 \<le> daysBeforeYear y" by (intro daysBeforeYear_high) simp
    then show False using r(1,2) assms(2) by linarith
  qed
  show "1 \<le> y"
  proof (rule ccontr)
    assume "\<not> 1 \<le> y"
    then consider "y = 0" | "y \<le> - 1" by linarith
    then show False
    proof cases
      case 1
      then show False using r assms(1) by (simp add: daysBeforeYear_def leapYear_def)
    next
      case 2
      then show False using daysBeforeYear_low [OF 2] r(1,3) assms(1) by (simp split: if_splits)
    qed
  qed
qed

definition writable :: "int \<Rightarrow> gotime \<Rightarrow> bool" where
  "writable offset t \<longleftrightarrow> offset mod 60 = 0 \<and> \<bar>offset\<bar> < daySecs
     \<and> 0 \<le> t div second + offset \<and> t div second + offset < 3652059 * daySecs"

lemma day_bound: "x < 3652059 * daySecs \<Longrightarrow> x div daySecs < 3652059"
  unfolding daySecs_def by linarith

lemma marshalTime_ok:
  assumes "writable offset t"
  obtains time where "marshalTime offset t = Inr time"
proof -
  let ?secs = "t div second + offset"
  obtain y m d where date: "dateOf (?secs div daySecs) = (y, m, d)" by (rule prod_cases3)
  then obtain yday where "yearOf (?secs div daySecs) = (y, yday)" by (auto simp: dateOf_def split: prod.splits)
  moreover have "0 \<le> ?secs div daySecs" "?secs div daySecs < 3652059"
    using assms day_bound by (simp_all add: writable_def) (simp add: daySecs_def pos_imp_zdiv_nonneg_iff)
  ultimately have "1 \<le> y" "y \<le> 9999" using yearOf_bounds [of "?secs div daySecs" y] by blast+
  moreover have "\<bar>offset\<bar> div 3600 < 24" using assms unfolding writable_def daySecs_def by linarith
  ultimately show thesis using that by (simp add: marshalTime_def Let_def date)
qed

end
