(* ===== verification/CacheJson.thy ===== *)
theory CacheJson
  imports Clock
begin

text \<open>
  The text of the peer cache file: \<open>json.MarshalIndent(peers, "", "  ")\<close> and \<open>json.Unmarshal\<close> of a
  list of \<open>cachedPeer\<close> (src/types.go), with the struct's keys and its times.  Reading inverts
  writing for a local zone of whole minutes, up to the bytes that are not UTF-8.
\<close>

section \<open>Writing\<close>

record cachedPeer =
  cpID :: string
  cpName :: string
  cpAddrs :: "string list"
  cpLastSeen :: gotime

definition lineStart :: "nat \<Rightarrow> string" where
  "lineStart k = CHR 0x0A # replicate (2 * k) (CHR '' '')"

text \<open>The items of an array or object, each on its own line, and the array or object at depth \<open>k\<close>.\<close>

fun itemLines :: "string \<Rightarrow> string list \<Rightarrow> string" where
  "itemLines nl [] = []"
| "itemLines nl [x] = nl @ x"
| "itemLines nl (x # y # zs) = nl @ x @ CHR '','' # itemLines nl (y # zs)"

definition indentBlock :: "char \<Rightarrow> char \<Rightarrow> nat \<Rightarrow> string list \<Rightarrow> string" where
  "indentBlock l r k items =
     l # (if items = [] then [] else itemLines (lineStart (Suc k)) items @ lineStart k) @ [r]"

definition memberText :: "string \<times> string \<Rightarrow> string" where
  "memberText kv = jsonQuote (fst kv) @ CHR '':'' # CHR '' '' # snd kv"

text \<open>
  The struct's members in their order, the name left out when empty.  The callers never write
  a nil list of addresses.
\<close>

definition peerMembers :: "cachedPeer \<Rightarrow> string \<Rightarrow> (string \<times> string) list" where
  "peerMembers p time =
     (''id'', jsonQuote (cpID p))
     # (if cpName p = [] then [] else [(''name'', jsonQuote (cpName p))])
     @ [(''addrs'', indentBlock (CHR ''['') (CHR '']'') 2 (map jsonQuote (cpAddrs p))),
        (''last_seen'', dquote # time @ [dquote])]"

definition peerText :: "cachedPeer \<Rightarrow> string \<Rightarrow> string" where
  "peerText p time = indentBlock (CHR ''{'') (CHR ''}'') 1 (map memberText (peerMembers p time))"

fun peerTexts :: "int \<Rightarrow> cachedPeer list \<Rightarrow> goerror + string list" where
  "peerTexts zone [] = Inr []"
| "peerTexts zone (p # ps) =
     (case marshalTime zone (cpLastSeen p) of
        Inl err \<Rightarrow> Inl err
      | Inr time \<Rightarrow>
          (case peerTexts zone ps of
             Inl err \<Rightarrow> Inl err
           | Inr ts \<Rightarrow> Inr (peerText p time # ts)))"

text \<open>\<open>zone\<close> is the offset of the local zone, in seconds east of UTC, that the times carry.\<close>

definition marshalPeers :: "int \<Rightarrow> cachedPeer list \<Rightarrow> goerror + string" where
  "marshalPeers zone ps =
     (case peerTexts zone ps of
        Inl err \<Rightarrow> Inl err
      | Inr ts \<Rightarrow> Inr (indentBlock (CHR ''['') (CHR '']'') 0 ts))"

section \<open>Reading\<close>

text \<open>
  Keys match case-insensitively under Unicode's simple folding, which also takes the long s
  (U+017F, bytes C5 BF) for an s.
\<close>

fun foldKey :: "string \<Rightarrow> string" where
  "foldKey [] = []"
| "foldKey [a] = [asciiLower a]"
| "foldKey (a # b # cs) =
     (if byteOf a = (197 :: nat) \<and> byteOf b = (191 :: nat) then CHR ''s'' # foldKey cs
      else asciiLower a # foldKey (b # cs))"

text \<open>
  Storing a list into the slots of a slice: an element that is null or of the wrong type leaves
  its slot, also one beyond the slice's length that an earlier duplicate of the key had filled.
\<close>

fun storeSlots :: "string list \<Rightarrow> json list \<Rightarrow> string list \<times> goerror option" where
  "storeSlots old [] = (old, None)"
| "storeSlots old (v # vs) =
     (let kept = (case old of [] \<Rightarrow> [] | o' # os \<Rightarrow> o') in
      case storeSlots (tl old) vs of (slots, e) \<Rightarrow>
        (case v of
           JStr raw s \<Rightarrow> (s # slots, e)
         | JNull \<Rightarrow> (kept # slots, e)
         | _ \<Rightarrow> (kept # slots, Some (jsonTypeError (jsonKind v) ''struct field cachedPeer.addrs'' ''string''))))"

definition storeString :: "string \<Rightarrow> string \<Rightarrow> json \<Rightarrow> string \<times> goerror option" where
  "storeString field old v =
     (case v of
        JStr raw s \<Rightarrow> (s, None)
      | JNull \<Rightarrow> (old, None)
      | _ \<Rightarrow> (old, Some (jsonTypeError (jsonKind v) (''struct field cachedPeer.'' @ field) ''string'')))"

definition timeError :: goerror where "timeError = ExtErr ''parsing time''"
definition timeNotString :: goerror where "timeNotString = NewErr ''Time.UnmarshalJSON: input is not a JSON string''"

text \<open>\<open>Time.UnmarshalJSON\<close> reads the text between the quotes as it stands, and null is ignored.\<close>

definition unmarshalTime :: "gotime \<Rightarrow> json \<Rightarrow> goerror + gotime" where
  "unmarshalTime old v =
     (case v of
        JNull \<Rightarrow> Inr old
      | JStr raw s \<Rightarrow> (case parseTime raw of None \<Rightarrow> Inl timeError | Some t \<Rightarrow> Inr t)
      | _ \<Rightarrow> Inl timeNotString)"

text \<open>
  A member: the peer so far, the slots of its addresses and the first type error.  An error
  of \<open>UnmarshalJSON\<close> ends the reading (\<open>Inl\<close>), a type error is kept while it goes on.
\<close>

type_synonym peerState = "cachedPeer \<times> string list \<times> goerror option"

definition storePeerMember :: "peerState \<Rightarrow> string \<times> json \<Rightarrow> goerror + peerState" where
  "storePeerMember st kv =
     (case (st, kv) of ((p, slots, err), (k, v)) \<Rightarrow>
        (let key = foldKey k in
         if key = ''id'' then
           (case storeString ''id'' (cpID p) v of (s, e) \<Rightarrow> Inr (p\<lparr>cpID := s\<rparr>, slots, firstErr err e))
         else if key = ''name'' then
           (case storeString ''name'' (cpName p) v of (s, e) \<Rightarrow> Inr (p\<lparr>cpName := s\<rparr>, slots, firstErr err e))
         else if key = ''addrs'' then
           (case v of
              JNull \<Rightarrow> Inr (p\<lparr>cpAddrs := []\<rparr>, [], err)
            | JArr vs \<Rightarrow>
                if vs = [] then Inr (p\<lparr>cpAddrs := []\<rparr>, [], err)
                else (case storeSlots slots vs of (slots', e) \<Rightarrow>
                        Inr (p\<lparr>cpAddrs := take (length vs) slots'\<rparr>, slots', firstErr err e))
            | _ \<Rightarrow> Inr (p, slots, firstErr err (Some (jsonTypeError (jsonKind v) ''struct field cachedPeer.addrs'' ''[]string''))))
         else if key = ''last_seen'' then
           (case unmarshalTime (cpLastSeen p) v of
              Inl e \<Rightarrow> Inl e
            | Inr t \<Rightarrow> Inr (p\<lparr>cpLastSeen := t\<rparr>, slots, err))
         else Inr (p, slots, err)))"

fun storePeerMembers :: "peerState \<Rightarrow> (string \<times> json) list \<Rightarrow> goerror + peerState" where
  "storePeerMembers st [] = Inr st"
| "storePeerMembers st (kv # kvs) =
     (case storePeerMember st kv of Inl e \<Rightarrow> Inl e | Inr st' \<Rightarrow> storePeerMembers st' kvs)"

definition zeroPeer :: cachedPeer where
  "zeroPeer = \<lparr>cpID = [], cpName = [], cpAddrs = [], cpLastSeen = 0\<rparr>"

definition storePeer :: "json \<Rightarrow> goerror + (cachedPeer \<times> goerror option)" where
  "storePeer v =
     (case v of
        JNull \<Rightarrow> Inr (zeroPeer, None)
      | JObj ms \<Rightarrow>
          (case storePeerMembers (zeroPeer, [], None) ms of
             Inl e \<Rightarrow> Inl e
           | Inr (p, slots, err) \<Rightarrow> Inr (p, err))
      | _ \<Rightarrow> Inr (zeroPeer, Some (jsonTypeError (jsonKind v) ''value'' ''p2p.cachedPeer'')))"

fun storePeers :: "json list \<Rightarrow> goerror + (cachedPeer list \<times> goerror option)" where
  "storePeers [] = Inr ([], None)"
| "storePeers (v # vs) =
     (case storePeer v of
        Inl e \<Rightarrow> Inl e
      | Inr (p, err) \<Rightarrow>
          (case storePeers vs of
             Inl e \<Rightarrow> Inl e
           | Inr (ps, err') \<Rightarrow> Inr (p # ps, firstErr err err')))"

definition unmarshalPeers :: "string \<Rightarrow> goerror + cachedPeer list" where
  "unmarshalPeers raw =
     (case jsonParse raw of
        None \<Rightarrow> Inl (jsonSyntaxError raw)
      | Some JNull \<Rightarrow> Inr []
      | Some (JArr vs) \<Rightarrow>
          (case storePeers vs of
             Inl e \<Rightarrow> Inl e
           | Inr (ps, None) \<Rightarrow> Inr ps
           | Inr (ps, Some e) \<Rightarrow> Inl e)
      | Some v \<Rightarrow> Inl (jsonTypeError (jsonKind v) ''value'' ''[]p2p.cachedPeer''))"

section \<open>Indented text parses\<close>

lemma skipWs_lineStart [simp]: "skipWs (lineStart k @ s) = skipWs s"
proof -
  have "dropWhile isWs (replicate m (CHR '' '') @ s) = dropWhile isWs s" for m
    by (induction m) (simp_all add: isWs_def)
  then show ?thesis by (simp add: skipWs_def lineStart_def isWs_def)
qed

lemma parseValue_skipWs: "skipWs s = skipWs s' \<Longrightarrow> parseValue n d s = parseValue n d s'"
  by (cases n) (simp_all add: parseValue.simps)

lemma parseValue_lineStart [simp]: "parseValue n d (lineStart k @ s) = parseValue n d s"
  by (rule parseValue_skipWs) simp

lemma memberKey_lineStart [simp]: "memberKey (lineStart k @ s) = memberKey s"
  by (simp add: memberKey_def)

text \<open>
  A text that reads as a value wherever it stands, with fuel for its length, when it nests at
  most \<open>h\<close> deep.
\<close>

definition readsAs :: "nat \<Rightarrow> string \<Rightarrow> json \<Rightarrow> bool" where
  "readsAs h txt v \<longleftrightarrow> (\<forall>n d t. length txt \<le> n \<longrightarrow> d + h \<le> maxNestingDepth \<longrightarrow> parseValue n d (txt @ t) = Some (v, t))"

lemma readsAs_quote: "readsAs h (jsonQuote s) (quotedValue s)"
  unfolding readsAs_def
proof (intro allI impI)
  fix n d t assume "length (jsonQuote s) \<le> n"
  then obtain m where "n = Suc m" by (cases n) (auto simp: jsonQuote_def)
  then show "parseValue n d (jsonQuote s @ t) = Some (quotedValue s, t)" by (simp add: parse_string)
qed

lemma readsAs_plain: "list_all plain s \<Longrightarrow> readsAs h (dquote # s @ [dquote]) (JStr s s)"
  unfolding readsAs_def
proof (intro allI impI)
  fix n d t assume "list_all plain s" "length (dquote # s @ [dquote]) \<le> n"
  moreover from this obtain m where "n = Suc m" by (cases n) auto
  ultimately show "parseValue n d ((dquote # s @ [dquote]) @ t) = Some (JStr s s, t)" by (simp add: parse_plain)
qed

lemma parseElems_lines:
  assumes "list_all2 (readsAs h) xs vs" and "xs \<noteq> []" and "length (itemLines (lineStart k) xs) \<le> n" and "d + h \<le> maxNestingDepth"
  shows "parseElems n d (itemLines (lineStart k) xs @ lineStart j @ CHR '']'' # t) = Some (vs, t)"
  using assms
proof (induction "lineStart k" xs arbitrary: n vs rule: itemLines.induct)
  case (2 x)
  then obtain m v where n: "n = Suc m" "length x \<le> m" and v: "vs = [v]" "readsAs h x v"
    by (cases n) (auto simp: lineStart_def list_all2_Cons1)
  then show ?case using 2(4) by (simp add: parseElems.simps readsAs_def)
next
  case (3 x y zs)
  then obtain m v vs' where n: "n = Suc m" "length x \<le> m" "length (itemLines (lineStart k) (y # zs)) \<le> m"
    and v: "vs = v # vs'" "readsAs h x v" "list_all2 (readsAs h) (y # zs) vs'"
    by (cases n) (auto simp: lineStart_def list_all2_Cons1)
  have "parseElems m d (itemLines (lineStart k) (y # zs) @ lineStart j @ CHR '']'' # t) = Some (vs', t)"
    using 3(1) [OF v(3) _ n(3)] 3(5) by simp
  then show ?case using n v(1,2) 3(5) by (simp add: parseElems.simps(2) [of m] readsAs_def)
qed simp

lemma memberKey_text: "memberKey (memberText (k, x) @ t) = Some (toValidUTF8 k, CHR '' '' # x @ t)"
  by (simp add: memberText_def memberKey_quote)

lemma parseValue_space [simp]: "parseValue n d (CHR '' '' # s) = parseValue n d s"
  by (rule parseValue_skipWs) (simp add: skipWs_def isWs_def)

lemma length_memberText: "length x \<le> length (memberText (k, x))"
  by (simp add: memberText_def)

lemma parseMembers_lines:
  assumes "list_all2 (\<lambda>kx kv. toValidUTF8 (fst kx) = fst kv \<and> readsAs h (snd kx) (snd kv)) ms kvs" and "ms \<noteq> []"
    and "length (itemLines (lineStart k) (map memberText ms)) \<le> n" and "d + h \<le> maxNestingDepth"
  shows "parseMembers n d (itemLines (lineStart k) (map memberText ms) @ lineStart j @ CHR ''}'' # t) = Some (kvs, t)"
  using assms
proof (induction ms arbitrary: n kvs rule: induct_list012)
  case (2 m)
  obtain key x where m: "m = (key, x)" by (cases m)
  obtain kv where kv: "kvs = [kv]" "toValidUTF8 key = fst kv" "readsAs h x (snd kv)"
    using 2(1) by (auto simp: list_all2_Cons1 m)
  obtain n' where n: "n = Suc n'" "length x \<le> n'"
    using 2(3) length_memberText [of x key] by (cases n) (auto simp: lineStart_def m)
  then show ?case using kv 2(4) by (simp add: parseMembers.simps m memberKey_text readsAs_def)
next
  case (3 m m' ms)
  obtain key x where m: "m = (key, x)" by (cases m)
  obtain kv kvs' where kv: "kvs = kv # kvs'" "toValidUTF8 key = fst kv" "readsAs h x (snd kv)"
    "list_all2 (\<lambda>kx kv. toValidUTF8 (fst kx) = fst kv \<and> readsAs h (snd kx) (snd kv)) (m' # ms) kvs'"
    using 3(3) by (auto simp: list_all2_Cons1 m)
  obtain n' where n: "n = Suc n'" "length x \<le> n'" "length (itemLines (lineStart k) (map memberText (m' # ms))) \<le> n'"
    using 3(5) length_memberText [of x key] by (cases n) (auto simp: lineStart_def m)
  have "parseMembers n' d (itemLines (lineStart k) (map memberText (m' # ms)) @ lineStart j @ CHR ''}'' # t) = Some (kvs', t)"
    using 3(2) [OF kv(4) _ n(3) 3(6)] by simp
  then show ?case using kv n 3(6) by (simp add: parseMembers.simps(2) [of n'] m memberKey_text readsAs_def)
qed simp

lemma itemLines_lead: "xs \<noteq> [] \<Longrightarrow> \<exists>es. itemLines nl xs = nl @ hd xs @ es"
  by (induction nl xs rule: itemLines.induct) auto

text \<open>An item of a block starts with a quote or an opening bracket.\<close>

definition startsValue :: "string \<Rightarrow> bool" where
  "startsValue s = (case s of c # cs \<Rightarrow> c = dquote \<or> c = CHR ''{'' | [] \<Rightarrow> False)"

lemma block_lead:
  assumes "xs \<noteq> []" and "startsValue (hd xs)"
  obtains c cs where "skipWs (itemLines (lineStart k) xs @ t) = c # cs" and "c = dquote \<or> c = CHR ''{''"
    and "itemLines (lineStart k) xs @ t = lineStart k @ c # cs"
proof -
  obtain es where "itemLines (lineStart k) xs = lineStart k @ hd xs @ es" using itemLines_lead [OF assms(1)] by blast
  moreover obtain c cs where "hd xs = c # cs" "c = dquote \<or> c = CHR ''{''"
    using assms(2) by (auto simp: startsValue_def split: list.splits)
  ultimately show thesis using that [of c "cs @ es @ t"] by auto
qed

lemma parseElems_lineStart: "parseElems n d (lineStart k @ s) = parseElems n d s"
  by (cases n) (simp_all add: parseElems.simps)

lemma parseMembers_lineStart: "parseMembers n d (lineStart k @ s) = parseMembers n d s"
  by (cases n) (simp_all add: parseMembers.simps)

lemma readsAs_array:
  assumes "list_all2 (readsAs h) xs vs" and "list_all startsValue xs"
  shows "readsAs (Suc h) (indentBlock (CHR ''['') (CHR '']'') k xs) (JArr vs)"
  unfolding readsAs_def
proof (intro allI impI)
  fix n d t assume n: "length (indentBlock (CHR ''['') (CHR '']'') k xs) \<le> n" and d: "d + Suc h \<le> maxNestingDepth"
  then obtain m where m: "n = Suc m" by (cases n) (auto simp: indentBlock_def)
  show "parseValue n d (indentBlock (CHR ''['') (CHR '']'') k xs @ t) = Some (JArr vs, t)"
  proof (cases "xs = []")
    case True
    then show ?thesis using assms d m by (simp add: indentBlock_def parseValue.simps)
  next
    case False
    let ?body = "itemLines (lineStart (Suc k)) xs @ lineStart k @ CHR '']'' # t"
    have "startsValue (hd xs)" using assms(2) False by (cases xs) simp_all
    with False obtain c cs where c: "skipWs ?body = c # cs" "c = dquote \<or> c = CHR ''{''" "?body = lineStart (Suc k) @ c # cs"
      by (rule block_lead)
    have "parseElems m (Suc d) ?body = Some (vs, t)"
      using n d m False by (intro parseElems_lines [OF assms(1)]) (simp_all add: indentBlock_def)
    then have "parseElems m (Suc d) (c # cs) = Some (vs, t)" unfolding c(3) parseElems_lineStart .
    then show ?thesis using False d m c(1,2) by (auto simp: indentBlock_def parseValue.simps)
  qed
qed

lemma readsAs_object:
  assumes "list_all2 (\<lambda>kx kv. toValidUTF8 (fst kx) = fst kv \<and> readsAs h (snd kx) (snd kv)) ms kvs" and "ms \<noteq> []"
  shows "readsAs (Suc h) (indentBlock (CHR ''{'') (CHR ''}'') k (map memberText ms)) (JObj kvs)"
  unfolding readsAs_def
proof (intro allI impI)
  fix n d t assume n: "length (indentBlock (CHR ''{'') (CHR ''}'') k (map memberText ms)) \<le> n" and d: "d + Suc h \<le> maxNestingDepth"
  then obtain m where m: "n = Suc m" by (cases n) (auto simp: indentBlock_def)
  let ?body = "itemLines (lineStart (Suc k)) (map memberText ms) @ lineStart k @ CHR ''}'' # t"
  have "startsValue (hd (map memberText ms))" using assms(2) by (cases ms) (simp_all add: startsValue_def memberText_def jsonQuote_def)
  then obtain c cs where c: "skipWs ?body = c # cs" "c = dquote \<or> c = CHR ''{''" "?body = lineStart (Suc k) @ c # cs"
    using block_lead [of "map memberText ms"] assms(2) by blast
  have "parseMembers m (Suc d) ?body = Some (kvs, t)"
    using n d m assms(2) by (intro parseMembers_lines [OF assms]) (simp_all add: indentBlock_def)
  then have "parseMembers m (Suc d) (c # cs) = Some (kvs, t)" unfolding c(3) parseMembers_lineStart .
  then show "parseValue n d (indentBlock (CHR ''{'') (CHR ''}'') k (map memberText ms) @ t) = Some (JObj kvs, t)"
    using assms(2) d m c(1,2) by (auto simp: indentBlock_def parseValue.simps)
qed

section \<open>Reading what was written\<close>

lemma jsonParse_reads: "readsAs h txt v \<Longrightarrow> h \<le> maxNestingDepth \<Longrightarrow> jsonParse txt = Some v"
  unfolding readsAs_def jsonParse_def
  by (drule spec [of _ "2 * length txt + 2"], drule spec [of _ 0], drule spec [of _ "[]"]) simp

lemma cache_keys [simp]:
  "toValidUTF8 ''id'' = ''id''" "toValidUTF8 ''addrs'' = ''addrs''" "toValidUTF8 ''last_seen'' = ''last_seen''"
  by (simp_all add: toValidUTF8_plain plain_def)

definition peerValue :: "cachedPeer \<Rightarrow> string \<Rightarrow> json" where
  "peerValue p time = JObj
     ((''id'', quotedValue (cpID p))
      # (if cpName p = [] then [] else [(''name'', quotedValue (cpName p))])
      @ [(''addrs'', JArr (map quotedValue (cpAddrs p))), (''last_seen'', JStr time time)])"

lemma peerText_reads:
  assumes "list_all plain time"
  shows "readsAs 2 (peerText p time) (peerValue p time)"
proof -
  have "list_all2 (readsAs 0) (map jsonQuote (cpAddrs p)) (map quotedValue (cpAddrs p))"
    by (simp add: list_all2_conv_all_nth readsAs_quote)
  moreover have "list_all startsValue (map jsonQuote (cpAddrs p))"
    by (simp add: list_all_iff startsValue_def jsonQuote_def)
  ultimately have "readsAs 1 (indentBlock (CHR ''['') (CHR '']'') 2 (map jsonQuote (cpAddrs p))) (JArr (map quotedValue (cpAddrs p)))"
    using readsAs_array [of 0] by simp
  then show ?thesis
    unfolding peerText_def peerValue_def numeral_2_eq_2 One_nat_def
    by (intro readsAs_object) (simp_all add: peerMembers_def readsAs_quote readsAs_plain [OF assms] numeral_2_eq_2)
qed

text \<open>A peer on its way through the file.\<close>

definition utf8Peer :: "cachedPeer \<Rightarrow> cachedPeer" where
  "utf8Peer p = p\<lparr>cpID := toValidUTF8 (cpID p), cpName := toValidUTF8 (cpName p), cpAddrs := map toValidUTF8 (cpAddrs p)\<rparr>"

lemma fold_keys [simp]:
  "foldKey ''id'' = ''id''" "foldKey ''name'' = ''name''" "foldKey ''addrs'' = ''addrs''" "foldKey ''last_seen'' = ''last_seen''"
  by (simp_all add: asciiLower_def)

lemma storeSlots_quoted: "storeSlots [] (map quotedValue xs) = (map toValidUTF8 xs, None)"
  by (induction xs) (simp_all add: quotedValue_def)

lemma toValidUTF8_Nil [simp]: "toValidUTF8 [] = []"
  by (simp add: toValidUTF8_plain)

lemma storePeer_value:
  assumes "parseTime time = Some (cpLastSeen p)"
  shows "storePeer (peerValue p time) = Inr (utf8Peer p, None)"
  using assms storeSlots_quoted [of "cpAddrs p"]
  by (simp add: storePeer_def peerValue_def storePeerMember_def storeString_def quotedValue_def zeroPeer_def
      unmarshalTime_def utf8Peer_def Let_def del: foldKey.simps)

lemma peerTexts_read:
  assumes "peerTexts zone ps = Inr ts" and "zone mod 60 = 0"
  shows "\<exists>vs. list_all2 (readsAs 2) ts vs \<and> storePeers vs = Inr (map utf8Peer ps, None)"
  using assms(1)
proof (induction ps arbitrary: ts)
  case (Cons p ps)
  obtain time ts' where time: "marshalTime zone (cpLastSeen p) = Inr time" and ts: "peerTexts zone ps = Inr ts'" "ts = peerText p time # ts'"
    using Cons(2) by (auto split: sum.splits)
  obtain vs where vs: "list_all2 (readsAs 2) ts' vs" "storePeers vs = Inr (map utf8Peer ps, None)"
    using Cons(1) [OF ts(1)] by blast
  have "readsAs 2 (peerText p time) (peerValue p time)" by (rule peerText_reads) (rule time_plain [OF time])
  moreover have "storePeer (peerValue p time) = Inr (utf8Peer p, None)"
    by (rule storePeer_value) (rule time_round_trip [OF time assms(2)])
  ultimately show ?case using vs ts(2) by (intro exI [of _ "peerValue p time # vs"]) simp
qed simp

lemma peerTexts_start: "peerTexts zone ps = Inr ts \<Longrightarrow> list_all startsValue ts"
  by (induction ps arbitrary: ts) (auto simp: peerText_def indentBlock_def startsValue_def split: sum.splits)

theorem peers_round_trip:
  assumes "marshalPeers zone ps = Inr raw" and "zone mod 60 = 0"
  shows "unmarshalPeers raw = Inr (map utf8Peer ps)"
proof -
  obtain ts where ts: "peerTexts zone ps = Inr ts" "raw = indentBlock (CHR ''['') (CHR '']'') 0 ts"
    using assms(1) by (auto simp: marshalPeers_def split: sum.splits)
  obtain vs where vs: "list_all2 (readsAs 2) ts vs" "storePeers vs = Inr (map utf8Peer ps, None)"
    using peerTexts_read [OF ts(1) assms(2)] by blast
  have "readsAs 3 raw (JArr vs)"
    using readsAs_array [OF vs(1) peerTexts_start [OF ts(1)]] by (simp add: ts(2) eval_nat_numeral)
  then have "jsonParse raw = Some (JArr vs)" by (rule jsonParse_reads) (simp add: maxNestingDepth_def)
  then show ?thesis by (simp add: unmarshalPeers_def vs(2))
qed

text \<open>Writing fails only on a time: every other peer has a text.\<close>

lemma marshalPeers_ok: "list_all (\<lambda>p. writable zone (cpLastSeen p)) ps \<Longrightarrow> \<exists>raw. marshalPeers zone ps = Inr raw"
proof -
  assume "list_all (\<lambda>p. writable zone (cpLastSeen p)) ps"
  then have "\<exists>ts. peerTexts zone ps = Inr ts"
  proof (induction ps)
    case (Cons p ps)
    from Cons(2) have "writable zone (cpLastSeen p)" by simp
    then obtain time where "marshalTime zone (cpLastSeen p) = Inr time" by (rule marshalTime_ok)
    moreover obtain ts where "peerTexts zone ps = Inr ts" using Cons by auto
    ultimately show ?case by simp
  qed simp
  then show ?thesis by (auto simp: marshalPeers_def)
qed

end
