(* ===== verification/PeerCache.thy ===== *)
theory PeerCache
  imports Addrs Tracker CacheJson
begin

text \<open>
  The peer cache file (src/client.go): \<open>loadPeerCache\<close>, \<open>evictStalePeers\<close>, the function and the
  method named \<open>savePeerCache\<close>, \<open>loadAndConnectCachedPeers\<close> and \<open>connectToCachedPeers\<close>.  The text of the file
  is that of CacheJson.
\<close>

section \<open>Files\<close>

text \<open>
  What the file system answers for a path: no file, an error on open or read, or its bytes.  A
  write that fails does so with an error and may leave the file in another state.
\<close>

datatype fileState =
    FileMissing
  | OpenFails goerror
  | ReadFails goerror
  | Contents string

record fileSystem =
  fsFile :: "string \<Rightarrow> fileState"
  fsCloseErr :: "string \<Rightarrow> goerror option"
  fsWriteErr :: "string \<Rightarrow> (goerror \<times> fileState) option"

section \<open>Loading\<close>

text \<open>The loop of \<open>evictStalePeers\<close>: the peers kept, the count evicted, the lines logged.\<close>

fun evictLoop :: "gotime \<Rightarrow> cachedPeer list \<Rightarrow> cachedPeer list \<times> int \<times> logline list" where
  "evictLoop threshold [] = ([], 0, [])"
| "evictLoop threshold (p # ps) =
     (case evictLoop threshold ps of (kept, evicted, logs) \<Rightarrow>
        if timeIsZero (cpLastSeen p) then
          (let peerID = (if 16 < length (cpID p) then take 16 (cpID p) else cpID p) in
           (p # kept, evicted, Debugf ''Peer %s has no LastSeen timestamp, keeping for now'' [FStr peerID] # logs))
        else if timeAfter (cpLastSeen p) threshold then (p # kept, evicted, logs)
        else (kept, evicted + 1, logs))"

definition evictStalePeers :: "gotime \<Rightarrow> cachedPeer list \<Rightarrow> duration \<Rightarrow> cachedPeer list \<times> logline list" where
  "evictStalePeers now peers ttl =
     (case evictLoop (timeAdd now (- ttl)) peers of (kept, evicted, logs) \<Rightarrow>
        (kept, logs @ (if 0 < evicted
           then [Infof ''Evicted %d stale peers (not seen for > %v)'' [FInt evicted, FDur ttl]] else [])))"

definition closeLog :: "fileSystem \<Rightarrow> string \<Rightarrow> logline list" where
  "closeLog fs path = (case fsCloseErr fs path of
     None \<Rightarrow> [] | Some err \<Rightarrow> [Warnf ''Failed to close peer cache file: %v'' [FErr err]])"

definition loadPeerCache ::
  "fileSystem \<Rightarrow> string \<Rightarrow> duration \<Rightarrow> gotime \<Rightarrow> cachedPeer list \<times> logline list" where
  "loadPeerCache fs cacheFile ttl now =
     (case fsFile fs cacheFile of
        FileMissing \<Rightarrow> ([], [])
      | OpenFails err \<Rightarrow> ([], [Warnf ''Failed to open peer cache: %v'' [FErr err]])
      | ReadFails err \<Rightarrow> ([], Warnf ''Failed to read peer cache: %v'' [FErr err] # closeLog fs cacheFile)
      | Contents data \<Rightarrow>
          (case unmarshalPeers data of
             Inl err \<Rightarrow> ([], Warnf ''Failed to parse peer cache: %v'' [FErr err] # closeLog fs cacheFile)
           | Inr peers \<Rightarrow>
               if ttl < 0 then (peers, closeLog fs cacheFile)
               else (case evictStalePeers now peers ttl of
                       (kept, logs) \<Rightarrow> (kept, logs @ closeLog fs cacheFile))))"

section \<open>Saving\<close>

definition savePeerCacheFile ::
  "int \<Rightarrow> fileSystem \<Rightarrow> cachedPeer list \<Rightarrow> string \<Rightarrow> fileSystem \<times> logline list" where
  "savePeerCacheFile zone fs peers cacheFile =
     (case marshalPeers zone peers of
        Inl err \<Rightarrow> (fs, [Warnf ''Failed to marshal peer cache: %v'' [FErr err]])
      | Inr data \<Rightarrow>
          (case fsWriteErr fs cacheFile of
             Some (err, left) \<Rightarrow> (fs\<lparr>fsFile := (fsFile fs)(cacheFile := left)\<rparr>, [Warnf ''Failed to write peer cache: %v'' [FErr err]])
           | None \<Rightarrow> (fs\<lparr>fsFile := (fsFile fs)(cacheFile := Contents data)\<rparr>, [])))"

text \<open>The entry of a connected peer, from the addresses of its connections.\<close>

definition entryOf :: "'ma netLib \<Rightarrow> peerTracker \<Rightarrow> (peerID \<Rightarrow> 'ma list) \<Rightarrow> gotime \<Rightarrow> peerID \<Rightarrow> cachedPeer" where
  "entryOf lib pt conns now p =
     \<lparr>cpID = idString lib p, cpName = getName pt p, cpAddrs = map (maString lib) (conns p), cpLastSeen = now\<rparr>"

text \<open>
  The method: \<open>perTopic\<close> are the peers of each joined topic, \<open>ks\<close> the order in which the runtime
  visits the set of them, \<open>conns p\<close> the remote addresses of the connections to \<open>p\<close>.  The existing
  cache is loaded into \<open>existingMap\<close>, which nothing reads.
\<close>

definition savePeerCache ::
  "int \<Rightarrow> 'ma netLib \<Rightarrow> peerTracker \<Rightarrow> (peerID \<Rightarrow> 'ma list) \<Rightarrow> string \<Rightarrow> peerID list list \<Rightarrow> peerID list
     \<Rightarrow> gotime \<Rightarrow> fileSystem \<Rightarrow> fileSystem \<times> logline list" where
  "savePeerCache zone lib pt conns cacheFile perTopic ks now fs =
     (if cacheFile = [] then (fs, [])
      else
        (let peerSet = set (concat perTopic) in
         case loadPeerCache fs cacheFile (- 1) now of
           (existingPeers, logs) \<Rightarrow>
             (let existingMap = map_of (rev (map (\<lambda>ep. (cpID ep, cpLastSeen ep)) existingPeers));
                  cachedPeers = map (entryOf lib pt conns now) (filter (\<lambda>p. p \<in> peerSet \<and> 0 < length (conns p)) ks)
              in if 0 < length cachedPeers
                 then (case savePeerCacheFile zone fs cachedPeers cacheFile of (fs', logs') \<Rightarrow> (fs', logs @ logs'))
                 else (fs, logs))))"

section \<open>Dialing cached peers\<close>

text \<open>The dials it starts, each with the name it logs under, and the lines logged before them.\<close>

fun connectToCachedPeers ::
  "'ma netLib \<Rightarrow> (peerID \<Rightarrow> bool) \<Rightarrow> cachedPeer list \<Rightarrow> ('ma addrInfo \<times> string) list \<times> logline list" where
  "connectToCachedPeers lib isConn [] = ([], [])"
| "connectToCachedPeers lib isConn (cp # rest) =
     (case connectToCachedPeers lib isConn rest of (dials, logs) \<Rightarrow>
        (case peerDecode lib (cpID cp) of
           Inl err \<Rightarrow> (dials, Warnf ''Invalid cached peer ID %s: %v'' [FStr (cpID cp), FErr err] # logs)
         | Inr pid \<Rightarrow>
             if isConn pid then (dials, logs)
             else
               (let maddrs = parseMultiaddrs lib (cpAddrs cp) in
                if length maddrs = 0 then (dials, logs)
                else ((\<lparr>aiID = pid, aiAddrs = maddrs\<rparr>, cpName cp) # dials, logs))))"

text \<open>What the goroutine of one dial logs when \<open>host.Connect\<close> returns.\<close>

definition cachedDialLog :: "'ma netLib \<Rightarrow> 'ma addrInfo \<times> string \<Rightarrow> goerror option \<Rightarrow> logline" where
  "cachedDialLog lib d result =
     (case result of
        None \<Rightarrow> Infof ''Reconnected to cached peer: %s [%s]'' [FStr (snd d), FStr (idString lib (aiID (fst d)))]
      | Some err \<Rightarrow> Warnf ''Failed to reconnect to cached peer %s [%s]: %v''
                      [FStr (snd d), FStr (idString lib (aiID (fst d))), FErr err])"

definition loadAndConnectCachedPeers ::
  "'ma netLib \<Rightarrow> (peerID \<Rightarrow> bool) \<Rightarrow> 'key config \<Rightarrow> fileSystem \<Rightarrow> gotime
     \<Rightarrow> ('ma addrInfo \<times> string) list \<times> logline list" where
  "loadAndConnectCachedPeers lib isConn config fs now =
     (if PeerCacheFile config = [] then ([], [])
      else
        (let ttl = (if PeerCacheTTL config = 0 then 24 * hour else PeerCacheTTL config) in
         case loadPeerCache fs (PeerCacheFile config) ttl now of
           (cachedPeers, logs) \<Rightarrow>
             if 0 < length cachedPeers then
               (case connectToCachedPeers lib isConn cachedPeers of
                  (dials, logs') \<Rightarrow>
                    (dials, logs @ Infof ''Connecting to %d cached peers...'' [FInt (int (length cachedPeers))] # logs'))
             else ([], logs)))"

section \<open>Eviction\<close>

definition freshEnough :: "gotime \<Rightarrow> duration \<Rightarrow> cachedPeer \<Rightarrow> bool" where
  "freshEnough now ttl p \<longleftrightarrow> cpLastSeen p = 0 \<or> now - cpLastSeen p < ttl"

lemma evictLoop_eq:
  "fst (evictLoop (timeAdd now (- ttl)) ps) = filter (freshEnough now ttl) ps
   \<and> fst (snd (evictLoop (timeAdd now (- ttl)) ps)) = int (length (filter (\<lambda>p. \<not> freshEnough now ttl p) ps))"
  by (induction ps)
     (auto simp: freshEnough_def timeAdd_def timeAfter_def timeIsZero_def Let_def split: prod.splits)

lemma evictStalePeers_kept: "fst (evictStalePeers now ps ttl) = filter (freshEnough now ttl) ps"
  using evictLoop_eq [of now ttl ps] by (simp add: evictStalePeers_def case_prod_beta)

lemma loadPeerCache_kept:
  "fsFile fs cacheFile = Contents data \<Longrightarrow> unmarshalPeers data = Inr peers \<Longrightarrow>
     fst (loadPeerCache fs cacheFile ttl now) = (if ttl < 0 then peers else filter (freshEnough now ttl) peers)"
  using evictStalePeers_kept [of now peers ttl] by (simp add: loadPeerCache_def case_prod_beta)

lemma savePeerCache_file:
  assumes "cacheFile \<noteq> []" and "set ks = set (concat perTopic)"
    and "filter (\<lambda>p. conns p \<noteq> []) ks \<noteq> []"
    and "marshalPeers zone (map (entryOf lib pt conns now) (filter (\<lambda>p. conns p \<noteq> []) ks)) = Inr data"
    and "fsWriteErr fs cacheFile = None"
  shows "fsFile (fst (savePeerCache zone lib pt conns cacheFile perTopic ks now fs)) cacheFile = Contents data"
proof -
  have "filter (\<lambda>p. p \<in> set (concat perTopic) \<and> 0 < length (conns p)) ks = filter (\<lambda>p. conns p \<noteq> []) ks"
    using assms(2) by (intro filter_cong) auto
  then show ?thesis using assms
    by (simp add: savePeerCache_def savePeerCacheFile_def Let_def case_prod_beta)
qed

lemma entries_written:
  "writable zone now \<Longrightarrow> \<exists>data. marshalPeers zone (map (entryOf lib pt conns now) ps) = Inr data
     \<and> unmarshalPeers data = Inr (map utf8Peer (map (entryOf lib pt conns now) ps))"
proof -
  assume w: "writable zone now"
  then have "list_all (\<lambda>p. writable zone (cpLastSeen p)) (map (entryOf lib pt conns now) ps)"
    by (auto simp: list_all_iff entryOf_def)
  then obtain data where data: "marshalPeers zone (map (entryOf lib pt conns now) ps) = Inr data"
    using marshalPeers_ok by blast
  have "zone mod 60 = 0" using w by (simp add: writable_def)
  from data peers_round_trip [OF data this] show ?thesis by blast
qed

section \<open>Properties\<close>

text \<open>Loading keeps, in order, exactly the entries with no last-seen time or seen within the TTL, all
  of them for a negative TTL, and none when the file is missing, unreadable or not a cache.\<close>

lemma cache_load_exact:
  "fst (loadPeerCache fs cacheFile ttl now) =
     (case fsFile fs cacheFile of
        Contents data \<Rightarrow>
          (case unmarshalPeers data of
             Inl err \<Rightarrow> []
           | Inr peers \<Rightarrow> if ttl < 0 then peers
                           else filter (\<lambda>p. cpLastSeen p = 0 \<or> now - cpLastSeen p < ttl) peers)
      | _ \<Rightarrow> [])"
  using evictStalePeers_kept [of now _ ttl]
  by (auto simp: loadPeerCache_def freshEnough_def [abs_def] case_prod_beta split: fileState.split sum.split)

text \<open>What a client saves it dials after a restart: when the node restarts within the TTL, the dials are
  exactly the topic peers it was connected to, each at the addresses of those connections and
  logged under the name it had announced, as far as that is UTF-8.\<close>

definition restartsWithin :: "'key config \<Rightarrow> gotime \<Rightarrow> gotime \<Rightarrow> bool" where
  "restartsWithin config saved now \<longleftrightarrow>
     now - saved < (if PeerCacheTTL config = 0 then 24 * hour else PeerCacheTTL config) \<and> 0 \<le> PeerCacheTTL config"

text \<open>libp2p's texts of IDs and addresses are ASCII and are read back to what they came from.\<close>

definition addressable :: "'ma netLib \<Rightarrow> (peerID \<Rightarrow> 'ma list) \<Rightarrow> peerID list \<Rightarrow> bool" where
  "addressable lib conns ps \<longleftrightarrow>
     list_all (\<lambda>p. list_all (\<lambda>s. list_all (\<lambda>c. byteOf c < 128) s) (idString lib p # map (maString lib) (conns p))
       \<and> peerDecode lib (idString lib p) = Inr p
       \<and> parseMultiaddrs lib (map (maString lib) (conns p)) = conns p) ps"

lemma connectToCachedPeers_entries:
  assumes "addressable lib conns ps" and "list_all (\<lambda>p. \<not> isConn p \<and> conns p \<noteq> []) ps"
  shows "connectToCachedPeers lib isConn (map utf8Peer (map (entryOf lib pt conns now) ps)) =
    (map (\<lambda>p. (\<lparr>aiID = p, aiAddrs = conns p\<rparr>, toValidUTF8 (getName pt p))) ps, [])"
  using assms
proof (induction ps)
  case (Cons p ps)
  then have ascii: "toValidUTF8 (idString lib p) = idString lib p"
      "map toValidUTF8 (map (maString lib) (conns p)) = map (maString lib) (conns p)"
    by (auto simp: addressable_def list_all_iff intro!: toValidUTF8_ascii)
  have "utf8Peer (entryOf lib pt conns now p) =
      (entryOf lib pt conns now p)\<lparr>cpName := toValidUTF8 (getName pt p)\<rparr>"
    unfolding utf8Peer_def entryOf_def using ascii by (simp only: cachedPeer.simps)
  then show ?case using Cons by (simp add: addressable_def entryOf_def Let_def)
qed simp

lemma cache_round_trip:
  assumes "PeerCacheFile config \<noteq> []" and "set ks = set (concat perTopic)" and "fsWriteErr fs (PeerCacheFile config) = None"
    and "filter (\<lambda>p. conns p \<noteq> []) ks = ps" and "ps \<noteq> []" and "addressable lib conns ps" and "writable zone saved"
    and "restartsWithin config saved now"
  shows "fst (loadAndConnectCachedPeers lib (\<lambda>p. False) config
      (fst (savePeerCache zone lib pt conns (PeerCacheFile config) perTopic ks saved fs)) now) =
    map (\<lambda>p. (\<lparr>aiID = p, aiAddrs = conns p\<rparr>, toValidUTF8 (getName pt p))) ps"
proof -
  let ?fs = "fst (savePeerCache zone lib pt conns (PeerCacheFile config) perTopic ks saved fs)"
  let ?ttl = "if PeerCacheTTL config = 0 then 24 * hour else PeerCacheTTL config"
  let ?loaded = "map utf8Peer (map (entryOf lib pt conns saved) ps)"
  obtain data where data: "marshalPeers zone (map (entryOf lib pt conns saved) ps) = Inr data"
    "unmarshalPeers data = Inr ?loaded" using entries_written [OF assms(7)] by blast
  have written: "fsFile ?fs (PeerCacheFile config) = Contents data"
    using assms(1-5) data(1) by (intro savePeerCache_file) simp_all
  have "filter (freshEnough now ?ttl) ?loaded = ?loaded"
    using assms(8) by (auto simp: filter_id_conv freshEnough_def entryOf_def utf8Peer_def restartsWithin_def)
  moreover have "\<not> ?ttl < 0" using assms(8) by (simp add: restartsWithin_def duration_defs)
  ultimately have load: "fst (loadPeerCache ?fs (PeerCacheFile config) ?ttl now) = ?loaded"
    using loadPeerCache_kept [OF written data(2), of ?ttl now] by presburger
  have "list_all (\<lambda>p. \<not> False \<and> conns p \<noteq> []) ps" using assms(4) by (auto simp: list_all_iff)
  then have "connectToCachedPeers lib (\<lambda>p. False) ?loaded =
      (map (\<lambda>p. (\<lparr>aiID = p, aiAddrs = conns p\<rparr>, toValidUTF8 (getName pt p))) ps, [])"
    by (intro connectToCachedPeers_entries [OF assms(6)]) simp
  then show ?thesis using assms(1,5) load
    by (simp add: loadAndConnectCachedPeers_def Let_def case_prod_beta)
qed

definition emptyFs :: fileSystem where
  "emptyFs = \<lparr>fsFile = (\<lambda>f. FileMissing), fsCloseErr = (\<lambda>f. None), fsWriteErr = (\<lambda>f. None)\<rparr>"

text \<open>C37. Saving replaces the cache by the peers connected at that moment: whatever the file held before
  (a cache, garbage, nothing, or an error), it then holds a text that reads back as exactly their
  entries, so entries of peers that are not connected are lost although the code loads them first.\<close>

theorem cache_save_forgets:
  assumes "cacheFile \<noteq> []" and "set ks = set (concat perTopic)" and "filter (\<lambda>p. conns p \<noteq> []) ks \<noteq> []"
    and "writable zone now" and "fsWriteErr fs cacheFile = None"
  shows "\<exists>data. unmarshalPeers data = Inr (map utf8Peer (map (entryOf lib pt conns now) (filter (\<lambda>p. conns p \<noteq> []) ks)))
    \<and> (\<forall>previous. fsFile (fst (savePeerCache zone lib pt conns cacheFile perTopic ks now
           (fs\<lparr>fsFile := (fsFile fs)(cacheFile := previous)\<rparr>))) cacheFile = Contents data)"
proof -
  obtain data where data: "marshalPeers zone (map (entryOf lib pt conns now) (filter (\<lambda>p. conns p \<noteq> []) ks)) = Inr data"
    "unmarshalPeers data = Inr (map utf8Peer (map (entryOf lib pt conns now) (filter (\<lambda>p. conns p \<noteq> []) ks)))"
    using entries_written [OF assms(4)] by blast
  have "fsFile (fst (savePeerCache zone lib pt conns cacheFile perTopic ks now
           (fs\<lparr>fsFile := (fsFile fs)(cacheFile := previous)\<rparr>))) cacheFile = Contents data" for previous
    using assms(1-3,5) data(1) by (intro savePeerCache_file) simp_all
  then show ?thesis using data(2) by blast
qed

text \<open>A time in the year 2025, in a zone one hour east.\<close>

definition someTime :: gotime where
  "someTime = 63880000000 * second"

lemma cache_save_forgets_witness:
  "\<exists>data. unmarshalPeers data = Inr (map utf8Peer (map (entryOf textLib newPeerTracker (\<lambda>p. if p = ''a'' then [''/ip4/1''] else []) someTime) [''a'']))
    \<and> (\<forall>previous. fsFile (fst (savePeerCache 3600 textLib newPeerTracker (\<lambda>p. if p = ''a'' then [''/ip4/1''] else [])
           ''f'' [[''a'', ''b'']] [''b'', ''a''] someTime (emptyFs\<lparr>fsFile := (fsFile emptyFs)(''f'' := previous)\<rparr>))) ''f'' = Contents data)"
  using cache_save_forgets [of "''f''" "[''b'', ''a'']" "[[''a'', ''b'']]" "\<lambda>p. if p = ''a'' then [''/ip4/1''] else []"
      3600 someTime emptyFs textLib newPeerTracker]
  by (simp add: emptyFs_def writable_def someTime_def daySecs_def second_def insert_commute)

end
