(* ===== verification/Exchange.thy ===== *)
theory Exchange
  imports Addrs Tracker Json
begin

text \<open>
  The peer-address exchange of src/client.go: the responder (\<open>handlePeerAddressRequest\<close>,
  \<open>servePeerAddressRequest\<close>, \<open>readPeerIDRequest\<close>, \<open>directPeerAddresses\<close>) and the requester
  (\<open>exchangePeerAddressRequest\<close>, \<open>doPeerAddressExchange\<close>).

  A stream is what the network answers to each call on it; the calls the code makes are
  recorded in order.  Reading delivers the peer's bytes in chunks the network chooses, then
  an end: EOF, or an error such as the expired deadline.  The slice \<open>s[:16]\<close> of a shorter
  string panics; a handler that panics has the result \<open>None\<close>.
\<close>

section \<open>Constants and errors\<close>

definition peerAddressRequestProtocol :: string where
  "peerAddressRequestProtocol = ''/p2p-msg-bus/peer-addr-request/1.0.0''"

definition peerAddressRequestProtocolV2 :: string where
  "peerAddressRequestProtocolV2 = ''/p2p-msg-bus/peer-addr-request/1.1.0''"

definition maxPeerIDRequestBytes :: nat where "maxPeerIDRequestBytes = 128"
definition minPeerIDBytes :: nat where "minPeerIDBytes = 34"
definition maxSharedPeerAddresses :: nat where "maxSharedPeerAddresses = 32"
definition maxPeerAddressResponseBytes :: nat where "maxPeerAddressResponseBytes = 8 * 1024"

definition errPeerIDRequestTooLarge :: goerror where
  "errPeerIDRequestTooLarge = NewErr ''peer address request exceeds size limit''"
definition errPeerIDRequestInvalid :: goerror where
  "errPeerIDRequestInvalid = NewErr ''peer address request is not a valid peer ID''"
definition errPeerAddressResponseTooLarge :: goerror where
  "errPeerAddressResponseTooLarge = NewErr ''peer address response exceeds size limit''"

definition EOF :: goerror where "EOF = NewErr ''EOF''"

lemmas exchange_consts = maxPeerIDRequestBytes_def minPeerIDBytes_def maxSharedPeerAddresses_def
  maxPeerAddressResponseBytes_def

definition slice16 :: "string \<Rightarrow> string option" where
  "slice16 s = (if length s < 16 then None else Some (take 16 s))"

section \<open>Reading\<close>

text \<open>\<open>rJoined\<close>: the end is reported together with the last bytes rather than on its own.\<close>

record reader =
  rChunks :: "string list"
  rEnd :: goerror
  rJoined :: bool

definition rdRead :: "nat \<Rightarrow> reader \<Rightarrow> string \<times> goerror option \<times> reader" where
  "rdRead k r =
     (case rChunks r of
        [] \<Rightarrow> ([], Some (rEnd r), r)
      | c # cs \<Rightarrow>
          if length c \<le> k
          then (c, if cs = [] \<and> rJoined r then Some (rEnd r) else None, r\<lparr>rChunks := cs\<rparr>)
          else (take k c, None, r\<lparr>rChunks := drop k c # cs\<rparr>))"

text \<open>\<open>io.ReadAll(io.LimitReader(r, n))\<close>: what was read, and the error unless it is EOF.\<close>

function readAllLimit :: "nat \<Rightarrow> reader \<Rightarrow> string \<times> goerror option" where
  "readAllLimit n r =
     (if n = 0 then ([], None)
      else (case rdRead n r of
              (bs, Some e, r') \<Rightarrow> (bs, if e = EOF then None else Some e)
            | (bs, None, r') \<Rightarrow> (case readAllLimit (n - length bs) r' of (rest, e) \<Rightarrow> (bs @ rest, e))))"
  by pat_completeness auto
termination
  by (relation "measure (\<lambda>(n, r). n + length (rChunks r))")
     (auto simp: rdRead_def split: list.splits if_splits)

declare readAllLimit.simps [simp del]

definition readLegacyPeerIDRequest :: "reader \<Rightarrow> goerror + string" where
  "readLegacyPeerIDRequest r =
     (case rdRead (maxPeerIDRequestBytes + 1) r of
        (bs, Some e, r') \<Rightarrow> if \<not> errorsIs e EOF then Inl e else Inr bs
      | (bs, None, r') \<Rightarrow> Inr bs)"

text \<open>The part of \<open>readPeerIDRequest\<close> after the read.\<close>

definition decodePeerIDRequest :: "'ma netLib \<Rightarrow> string \<Rightarrow> goerror + peerID" where
  "decodePeerIDRequest lib raw =
     (if maxPeerIDRequestBytes < length raw then Inl errPeerIDRequestTooLarge
      else
        (let invalid = FmtErrorf ''%w (%d bytes)'' [FWrap errPeerIDRequestInvalid, FInt (int (length raw))] in
         case peerDecode lib raw of
           Inl err \<Rightarrow> Inl invalid
         | Inr pid \<Rightarrow> if length pid < minPeerIDBytes then Inl invalid else Inr pid))"

definition readPeerIDRequest :: "'ma netLib \<Rightarrow> reader \<Rightarrow> string \<Rightarrow> goerror + peerID" where
  "readPeerIDRequest lib r proto =
     (case (if proto = peerAddressRequestProtocolV2
            then (case readAllLimit (maxPeerIDRequestBytes + 1) r of
                    (raw, None) \<Rightarrow> Inr raw
                  | (raw, Some e) \<Rightarrow> Inl e)
            else readLegacyPeerIDRequest r) of
        Inl err \<Rightarrow> Inl err
      | Inr raw \<Rightarrow> decodePeerIDRequest lib raw)"

section \<open>Answering\<close>

fun directLoop :: "'ma netLib \<Rightarrow> string list \<Rightarrow> 'ma list \<Rightarrow> string list" where
  "directLoop lib direct [] = direct"
| "directLoop lib direct (a # as) =
     (if length direct = maxSharedPeerAddresses then direct
      else
        (let s = maString lib a in
         if stringsContains s ''/p2p-circuit'' then directLoop lib direct as
         else directLoop lib (direct @ [s]) as))"

definition directPeerAddresses :: "'ma netLib \<Rightarrow> (peerID \<Rightarrow> 'ma list) \<Rightarrow> peerID \<Rightarrow> string list" where
  "directPeerAddresses lib addrsOf pid = directLoop lib [] (addrsOf pid)"

record stream =
  stProtocol :: string
  stReader :: reader
  stSetDeadline :: "goerror option"
  stWrite :: "goerror option"
  stCloseWrite :: "goerror option"

datatype streamOp =
    OpSetDeadline gotime
  | OpWrite string
  | OpCloseWrite
  | OpClose
  | OpReset

definition servePeerAddressRequest ::
  "'ma netLib \<Rightarrow> peerTracker \<Rightarrow> (peerID \<Rightarrow> 'ma list) \<Rightarrow> duration \<Rightarrow> stream \<Rightarrow> peerID \<Rightarrow> gotime
     \<Rightarrow> (goerror option \<times> streamOp list \<times> logline list) option" where
  "servePeerAddressRequest lib pt addrsOf timeout st remote now =
     (let deadline = OpSetDeadline (timeAdd now timeout) in
      case stSetDeadline st of
        Some err \<Rightarrow> Some (Some (FmtErrorf ''set deadline: %w'' [FWrap err]), [deadline], [])
      | None \<Rightarrow>
          (case slice16 (idString lib remote) of
             None \<Rightarrow> None
           | Some short \<Rightarrow>
               (let received = Debugf ''Received peer address request from %s'' [FStr short] in
                case readPeerIDRequest lib (stReader st) (stProtocol st) of
                  Inl err \<Rightarrow> Some (Some err, [deadline], [received])
                | Inr pid \<Rightarrow>
                    (let addrStrs = directPeerAddresses lib addrsOf pid;
                         sharing = Debugf ''Peer address request from %s for %s: sharing %d direct addresses''
                           [FStr (getName pt remote), FStr (getName pt pid), FInt (int (length addrStrs))] in
                     case marshalStrings addrStrs of
                       Inl err \<Rightarrow> Some (Some (FmtErrorf ''encode response: %w'' [FWrap err]), [deadline], [received, sharing])
                     | Inr response \<Rightarrow>
                         (case stWrite st of
                            Some err \<Rightarrow> Some (Some (FmtErrorf ''write response: %w'' [FWrap err]),
                                          [deadline, OpWrite response], [received, sharing])
                          | None \<Rightarrow> Some (None, [deadline, OpWrite response], [received, sharing]))))))"

text \<open>The clock is read twice: for the limiter, and for the deadline.\<close>

definition handlePeerAddressRequest ::
  "'ma netLib \<Rightarrow> peerTracker \<Rightarrow> (peerID \<Rightarrow> 'ma list) \<Rightarrow> duration \<Rightarrow> peerAddressLimiter \<Rightarrow> stream \<Rightarrow> peerID
     \<Rightarrow> gotime \<Rightarrow> gotime \<Rightarrow> (peerAddressLimiter \<times> streamOp list \<times> logline list) option" where
  "handlePeerAddressRequest lib pt addrsOf timeout lmt st remote now now' =
     (case allow lmt remote now of (lmt', allowed, firstRejection) \<Rightarrow>
        if \<not> allowed then
          (if firstRejection then
             (case slice16 (idString lib remote) of
                None \<Rightarrow> None
              | Some short \<Rightarrow> Some (lmt', [OpReset],
                  [Warnf ''Peer %s exceeded %d peer address requests per %s; resetting further requests this window''
                     [FStr short, FInt (int peerAddressRequestsPerWindow), FDur peerAddressRequestWindow]]))
           else Some (lmt', [OpReset], []))
        else
          (case servePeerAddressRequest lib pt addrsOf timeout st remote now' of
             None \<Rightarrow> None
           | Some (Some err, ops, logs) \<Rightarrow>
               (case slice16 (idString lib remote) of
                  None \<Rightarrow> None
                | Some short \<Rightarrow> Some (lmt', ops @ [OpReset],
                    logs @ [Debugf ''Rejected peer address request from %s: %v'' [FStr short, FErr err]]))
           | Some (None, ops, logs) \<Rightarrow> Some (lmt', ops @ [OpClose], logs)))"

section \<open>Asking\<close>

definition doPeerAddressExchange ::
  "'ma netLib \<Rightarrow> duration \<Rightarrow> stream \<Rightarrow> peerID \<Rightarrow> gotime \<Rightarrow> (goerror + string list) \<times> streamOp list" where
  "doPeerAddressExchange lib timeout st target now =
     (let deadline = OpSetDeadline (timeAdd now timeout); request = OpWrite (idString lib target) in
      case stSetDeadline st of
        Some err \<Rightarrow> (Inl (FmtErrorf ''set deadline: %w'' [FWrap err]), [deadline])
      | None \<Rightarrow>
          (case stWrite st of
             Some err \<Rightarrow> (Inl (FmtErrorf ''write request: %w'' [FWrap err]), [deadline, request])
           | None \<Rightarrow>
               (case stCloseWrite st of
                  Some err \<Rightarrow> (Inl (FmtErrorf ''close write: %w'' [FWrap err]), [deadline, request, OpCloseWrite])
                | None \<Rightarrow>
                    ((case readAllLimit (maxPeerAddressResponseBytes + 1) (stReader st) of
                        (raw, Some err) \<Rightarrow> Inl (FmtErrorf ''read response: %w'' [FWrap err])
                      | (raw, None) \<Rightarrow>
                          if maxPeerAddressResponseBytes < length raw then Inl errPeerAddressResponseTooLarge
                          else (case unmarshalStrings raw of
                                  Inl err \<Rightarrow> Inl (FmtErrorf ''parse response: %w'' [FWrap err])
                                | Inr addrs \<Rightarrow> Inr addrs)),
                     [deadline, request, OpCloseWrite]))))"

definition exchangePeerAddressRequest ::
  "'ma netLib \<Rightarrow> duration \<Rightarrow> stream \<Rightarrow> peerID \<Rightarrow> gotime \<Rightarrow> (goerror + string list) \<times> streamOp list" where
  "exchangePeerAddressRequest lib timeout st target now =
     (case doPeerAddressExchange lib timeout st target now of
        (Inl err, ops) \<Rightarrow> (Inl err, ops @ [OpReset])
      | (Inr addrs, ops) \<Rightarrow> (Inr addrs, ops @ [OpClose]))"

section \<open>Reading, whatever the fragmentation\<close>

lemma readAllLimit_fst: "fst (readAllLimit n r) = take n (concat (rChunks r))"
proof (induction n r rule: readAllLimit.induct)
  case (1 n r)
  show ?case
  proof (cases "n = 0")
    case True
    then show ?thesis by (simp add: readAllLimit.simps)
  next
    case False
    then show ?thesis
      using 1 [OF False] by (cases "rChunks r")
        (auto simp: readAllLimit.simps [of n] rdRead_def split: prod.splits)
  qed
qed

lemma readAllLimit_EOF: "rEnd r = EOF \<Longrightarrow> snd (readAllLimit n r) = None"
proof (induction n r rule: readAllLimit.induct)
  case (1 n r)
  show ?case
  proof (cases "n = 0")
    case True
    then show ?thesis by (simp add: readAllLimit.simps)
  next
    case False
    then show ?thesis
      using 1(1) [OF False] 1(2) by (cases "rChunks r")
        (auto simp: readAllLimit.simps [of n] rdRead_def split: prod.splits)
  qed
qed

lemma readAllLimit_clean:
  "rEnd r = EOF \<Longrightarrow> readAllLimit n r = (take n (concat (rChunks r)), None)"
  by (simp add: prod_eq_iff readAllLimit_fst readAllLimit_EOF)

text \<open>A read that ends before its limit, without an error, has seen the whole text and a clean end.\<close>

lemma readAllLimit_short:
  "readAllLimit n r = (bs, None) \<Longrightarrow> length bs < n \<Longrightarrow> rEnd r = EOF"
proof (induction n r arbitrary: bs rule: readAllLimit.induct)
  case (1 n r)
  then have n: "n \<noteq> 0" by (auto simp: readAllLimit.simps)
  show ?case
    using 1(1) [OF n] 1(2,3) n by (cases "rChunks r")
      (fastforce simp: readAllLimit.simps [of n] rdRead_def split: prod.splits if_splits)+
qed

text \<open>The legacy read sees at most the first chunk.\<close>

lemma readLegacy_prefix:
  "readLegacyPeerIDRequest r = Inr raw \<Longrightarrow> \<exists>rest. concat (rChunks r) = raw @ rest \<and> length raw \<le> maxPeerIDRequestBytes + 1"
  by (cases "rChunks r")
     (auto simp: readLegacyPeerIDRequest_def rdRead_def split: if_splits
       intro: exI [of _ "drop (maxPeerIDRequestBytes + 1) (hd (rChunks r)) @ concat (tl (rChunks r))"])

lemma directLoop_eq:
  "length direct \<le> maxSharedPeerAddresses \<Longrightarrow>
   directLoop lib direct as = take maxSharedPeerAddresses
     (direct @ filter (\<lambda>s. \<not> stringsContains s ''/p2p-circuit'') (map (maString lib) as))"
proof (induction as arbitrary: direct)
  case (Cons a as)
  then show ?case by (auto simp: Let_def take_Cons')
qed simp

lemma directPeerAddresses_eq:
  "directPeerAddresses lib addrsOf pid = take maxSharedPeerAddresses
     (filter (\<lambda>s. \<not> stringsContains s ''/p2p-circuit'') (map (maString lib) (addrsOf pid)))"
  by (simp add: directPeerAddresses_def directLoop_eq)

section \<open>Histories of inbound streams\<close>

text \<open>
  One inbound stream with what the handler finds when it runs: the names the tracker knows and the addresses in the
  peerstore.  The handlers run concurrently; the limiter's mutex orders them, and that order is the order of the
  list.  The clock is read for the limiter (\<open>ibNow\<close>) before the mutex is taken (\<open>ibLock\<close>) and again for the
  deadline (\<open>ibLater\<close>); \<open>ibDone\<close> is when the reply, or the warning, is written.  A panic ends the process.
\<close>

record 'ma inbound =
  ibStream :: stream
  ibRemote :: peerID
  ibNow :: gotime
  ibLock :: gotime
  ibLater :: gotime
  ibDone :: gotime
  ibTracker :: peerTracker
  ibAddrs :: "peerID \<Rightarrow> 'ma list"

text \<open>
  A handler that reaches the deadline's clock within \<open>wait\<close> of the limiter's, and whose write does not outlast the deadline.
\<close>

definition timely :: "duration \<Rightarrow> duration \<Rightarrow> 'ma inbound \<Rightarrow> bool" where
  "timely wait timeout q \<longleftrightarrow> ibNow q \<le> ibLock q \<and> ibLock q \<le> ibLater q \<and> ibLater q \<le> ibNow q + wait
     \<and> ibLater q \<le> ibDone q \<and> ibDone q \<le> ibLater q + timeout"

fun handlerRun ::
  "'ma netLib \<Rightarrow> duration \<Rightarrow> peerAddressLimiter \<Rightarrow> 'ma inbound list \<Rightarrow> ('ma inbound \<times> streamOp list \<times> logline list) list" where
  "handlerRun lib timeout lmt [] = []"
| "handlerRun lib timeout lmt (q # qs) =
     (case handlePeerAddressRequest lib (ibTracker q) (ibAddrs q) timeout lmt (ibStream q) (ibRemote q) (ibNow q) (ibLater q) of
        None \<Rightarrow> []
      | Some (lmt', ops, logs) \<Rightarrow> (q, ops, logs) # handlerRun lib timeout lmt' qs)"

fun isWrite :: "streamOp \<Rightarrow> bool" where
  "isWrite (OpWrite s) = True"
| "isWrite _ = False"

definition inWindow :: "peerID \<Rightarrow> gotime \<Rightarrow> gotime \<Rightarrow> 'ma inbound \<Rightarrow> bool" where
  "inWindow p lo hi q \<longleftrightarrow> ibRemote q = p \<and> lo \<le> ibDone q \<and> ibDone q < hi"

definition repliesTo :: "peerID \<Rightarrow> gotime \<Rightarrow> gotime \<Rightarrow> ('ma inbound \<times> streamOp list \<times> logline list) list \<Rightarrow> nat" where
  "repliesTo p lo hi outs = length (filter (\<lambda>(q, ops, logs). inWindow p lo hi q \<and> (\<exists>op \<in> set ops. isWrite op)) outs)"

definition warningsAbout :: "peerID \<Rightarrow> gotime \<Rightarrow> gotime \<Rightarrow> ('ma inbound \<times> streamOp list \<times> logline list) list \<Rightarrow> nat" where
  "warningsAbout p lo hi outs = length (filter (\<lambda>(q, ops, logs). inWindow p lo hi q \<and> (\<exists>l \<in> set logs. isWarn l)) outs)"

lemma serve_no_warn:
  "servePeerAddressRequest lib pt addrsOf timeout st remote now = Some (e, ops, logs) \<Longrightarrow> \<forall>l \<in> set logs. \<not> isWarn l"
  by (auto simp: servePeerAddressRequest_def Let_def split: option.splits sum.splits)

lemma handle_verdict:
  assumes "handlePeerAddressRequest lib pt addrsOf timeout lmt st remote now now' = Some (lmt', ops, logs)"
  shows "lmt' = fst (allow lmt remote now)"
    and "(\<exists>op \<in> set ops. isWrite op) \<longrightarrow> used lmt remote now < peerAddressRequestsPerWindow"
    and "(\<exists>l \<in> set logs. isWarn l) \<longrightarrow> used lmt remote now = peerAddressRequestsPerWindow"
  using assms allow_verdict [of lmt remote now] serve_no_warn [of lib pt addrsOf timeout st remote now']
  by (auto simp: handlePeerAddressRequest_def split: prod.splits option.splits if_splits)

abbreviation requestsOf :: "'ma inbound list \<Rightarrow> (peerID \<times> gotime) list" where
  "requestsOf qs \<equiv> map (\<lambda>q. (ibRemote q, ibNow q)) qs"

text \<open>What is written in an interval was admitted at a time that fits it.\<close>

lemma replies_granted:
  assumes "\<forall>q \<in> set qs. lo \<le> ibDone q \<and> ibDone q < hi \<longrightarrow> lo' \<le> ibNow q \<and> ibNow q < hi'"
  shows "repliesTo p lo hi (handlerRun lib timeout lmt qs) \<le> granted p lo' hi' (allowRun lmt (requestsOf qs)) \<and>
   warningsAbout p lo hi (handlerRun lib timeout lmt qs) \<le> warned p lo' hi' (allowRun lmt (requestsOf qs))"
  using assms
proof (induction qs arbitrary: lmt)
  case Nil
  then show ?case by (simp add: repliesTo_def warningsAbout_def)
next
  case (Cons q qs)
  show ?case
  proof (cases "handlePeerAddressRequest lib (ibTracker q) (ibAddrs q) timeout lmt (ibStream q) (ibRemote q) (ibNow q) (ibLater q)")
    case None
    then show ?thesis by (simp add: repliesTo_def warningsAbout_def)
  next
    case (Some res)
    obtain lmt' ops logs where res: "res = (lmt', ops, logs)" by (rule prod_cases3)
    note v = handle_verdict [OF Some [unfolded res]]
    have run: "handlerRun lib timeout lmt (q # qs) = (q, ops, logs) # handlerRun lib timeout lmt' qs" by (simp add: Some res)
    have IH: "repliesTo p lo hi (handlerRun lib timeout lmt' qs) \<le> granted p lo' hi' (allowRun lmt' (requestsOf qs))"
      "warningsAbout p lo hi (handlerRun lib timeout lmt' qs) \<le> warned p lo' hi' (allowRun lmt' (requestsOf qs))"
      using Cons.IH [of lmt'] Cons.prems by simp_all
    have admitted: "inWindow p lo hi q \<Longrightarrow> ibRemote q = p \<and> lo' \<le> ibNow q \<and> ibNow q < hi'"
      using Cons.prems by (simp add: inWindow_def)
    have "repliesTo p lo hi (handlerRun lib timeout lmt (q # qs)) \<le> granted p lo' hi' (allowRun lmt (requestsOf (q # qs)))"
      using IH(1) v(2) admitted unfolding run by (auto simp: repliesTo_def allowRun_simps v(1))
    moreover have "warningsAbout p lo hi (handlerRun lib timeout lmt (q # qs)) \<le> warned p lo' hi' (allowRun lmt (requestsOf (q # qs)))"
      using IH(2) v(3) admitted unfolding run by (auto simp: warningsAbout_def allowRun_simps v(1))
    ultimately show ?thesis by simp
  qed
qed

section \<open>An exchange in which nothing fails\<close>

text \<open>The reply to a request for \<open>pid\<close>.\<close>

definition replyFor :: "'ma netLib \<Rightarrow> (peerID \<Rightarrow> 'ma list) \<Rightarrow> peerID \<Rightarrow> string" where
  "replyFor lib addrsOf pid =
     CHR ''['' # commaSep (map jsonQuote (take 32 (filter (\<lambda>s. \<not> stringsContains s ''/p2p-circuit'')
       (map (maString lib) (addrsOf pid))))) @ [CHR '']'']"

definition delivers :: "string \<Rightarrow> reader \<Rightarrow> bool" where
  "delivers raw r \<longleftrightarrow> concat (rChunks r) = raw \<and> rEnd r = EOF"

definition healthy :: "stream \<Rightarrow> bool" where
  "healthy st \<longleftrightarrow> stSetDeadline st = None \<and> stWrite st = None \<and> stCloseWrite st = None
     \<and> stProtocol st = peerAddressRequestProtocolV2"

definition named :: "'ma netLib \<Rightarrow> peerID \<Rightarrow> bool" where
  "named lib pid \<longleftrightarrow> peerDecode lib (idString lib pid) = Inr pid \<and> minPeerIDBytes \<le> length pid
     \<and> length (idString lib pid) \<le> maxPeerIDRequestBytes"

lemma serve_delivers:
  assumes "named lib target" and "delivers (idString lib target) (stReader st)" and "healthy st"
    and "16 \<le> length (idString lib remote)"
  shows "\<exists>logs. servePeerAddressRequest lib pt addrsOf timeout st remote now =
    Some (None, [OpSetDeadline (timeAdd now timeout), OpWrite (replyFor lib addrsOf target)], logs)"
proof -
  have "readPeerIDRequest lib (stReader st) (stProtocol st) = Inr target"
    using assms by (simp add: readPeerIDRequest_def readAllLimit_clean delivers_def healthy_def named_def
        decodePeerIDRequest_def Let_def)
  then show ?thesis using assms(3,4)
    by (simp add: servePeerAddressRequest_def healthy_def slice16_def Let_def marshalStrings_def
        replyFor_def directPeerAddresses_eq maxSharedPeerAddresses_def)
qed

lemma handle_delivers:
  assumes "named lib target" and "delivers (idString lib target) (stReader st)" and "healthy st"
    and "16 \<le> length (idString lib remote)" and "used lmt remote t < peerAddressRequestsPerWindow"
  shows "\<exists>lmt' logs. handlePeerAddressRequest lib pt addrsOf timeout lmt st remote t t' =
    Some (lmt', [OpSetDeadline (timeAdd t' timeout), OpWrite (replyFor lib addrsOf target), OpClose], logs)"
  using serve_delivers [OF assms(1-4), of pt addrsOf timeout t'] assms(5) allow_verdict [of lmt remote t]
  by (auto simp: handlePeerAddressRequest_def split: prod.splits)

lemma exchange_delivers:
  assumes "delivers (replyFor lib addrsOf target) (stReader st)" and "healthy st"
    and "length (replyFor lib addrsOf target) \<le> maxPeerAddressResponseBytes"
  shows "exchangePeerAddressRequest lib timeout st target now =
    (Inr (map toValidUTF8 (directPeerAddresses lib addrsOf target)),
     [OpSetDeadline (timeAdd now timeout), OpWrite (idString lib target), OpCloseWrite, OpClose])"
proof -
  have "marshalStrings (directPeerAddresses lib addrsOf target) = Inr (replyFor lib addrsOf target)"
    by (simp add: marshalStrings_def replyFor_def directPeerAddresses_eq maxSharedPeerAddresses_def)
  then show ?thesis using assms strings_roundtrip
    by (simp add: exchangePeerAddressRequest_def doPeerAddressExchange_def Let_def healthy_def delivers_def
        readAllLimit_clean)
qed

section \<open>Properties\<close>

text \<open>A 1.1.0 request means the same however the network fragments it: a request of at most
  128 bytes is decoded whole, and a longer one is rejected as too large.\<close>

lemma request_framing:
  "readPeerIDRequest lib (r\<lparr>rEnd := EOF\<rparr>) peerAddressRequestProtocolV2 =
     decodePeerIDRequest lib (take (maxPeerIDRequestBytes + 1) (concat (rChunks r)))"
  by (simp add: readPeerIDRequest_def readAllLimit_clean)

text \<open>C17. Which peer a request is answered for.  In the 1.1.0 framing it is the one the whole text names: the request is
  answered for a peer exactly when the stream ends cleanly after at most 128 bytes that decode to its ID and
  the ID has at least 34 bytes.  In the 1.0.0 framing it is the one the first fragment names, unless the read that returns it
  already reports a failure of the stream; so a request whose own proper prefixes name no peer, or one with
  an ID too short to be real, is not answered for another.\<close>

definition prefixesShort :: "'ma netLib \<Rightarrow> string \<Rightarrow> bool" where
  "prefixesShort lib text \<longleftrightarrow>
     list_all (\<lambda>k. case peerDecode lib (take k text) of Inl err \<Rightarrow> True | Inr pid \<Rightarrow> length pid < 34)
       [0..<length text]"

lemma decode_iff:
  "decodePeerIDRequest lib raw = Inr pid \<longleftrightarrow> length raw \<le> 128 \<and> peerDecode lib raw = Inr pid \<and> 34 \<le> length pid"
  by (auto simp: decodePeerIDRequest_def exchange_consts Let_def split: sum.splits)

lemma read_V2_iff:
  "readPeerIDRequest lib r peerAddressRequestProtocolV2 = Inr pid \<longleftrightarrow>
     rEnd r = EOF \<and> decodePeerIDRequest lib (concat (rChunks r)) = Inr pid"
proof (cases "readAllLimit (maxPeerIDRequestBytes + 1) r")
  case (Pair raw e)
  have raw: "raw = take (maxPeerIDRequestBytes + 1) (concat (rChunks r))"
    using readAllLimit_fst [of "maxPeerIDRequestBytes + 1" r] Pair by simp
  show ?thesis
  proof (cases "rEnd r = EOF")
    case True
    then show ?thesis using raw Pair readAllLimit_EOF [OF True, of "maxPeerIDRequestBytes + 1"]
      by (auto simp: readPeerIDRequest_def decode_iff exchange_consts)
  next
    case False
    then have "\<not> (e = None \<and> length raw \<le> 128)"
      using readAllLimit_short [of "maxPeerIDRequestBytes + 1" r raw] Pair by (auto simp: exchange_consts)
    then show ?thesis using False Pair by (auto simp: readPeerIDRequest_def decode_iff split: option.splits)
  qed
qed

lemma read_legacy_iff:
  "readPeerIDRequest lib r peerAddressRequestProtocol = Inr pid \<longleftrightarrow>
     decodePeerIDRequest lib (concat (take 1 (rChunks r))) = Inr pid
     \<and> (errorsIs (rEnd r) EOF \<or> rChunks r \<noteq> [] \<and> (tl (rChunks r) \<noteq> [] \<or> \<not> rJoined r))"
  by (cases "rChunks r")
     (auto simp: readPeerIDRequest_def readLegacyPeerIDRequest_def rdRead_def decode_iff exchange_consts
       peerAddressRequestProtocol_def peerAddressRequestProtocolV2_def split: if_splits)

lemma decode_prefix:
  assumes "prefixesShort lib text" and "text = raw @ rest" and "peerDecode lib raw = Inr pid" and "34 \<le> length pid"
  shows "peerDecode lib text = Inr pid"
proof (cases "rest = []")
  case False
  then have "length raw < length text" "take (length raw) text = raw" by (simp_all add: assms(2))
  moreover have "case peerDecode lib (take (length raw) text) of Inl err \<Rightarrow> True | Inr pid \<Rightarrow> length pid < 34"
    using assms(1) \<open>length raw < length text\<close> by (simp add: prefixesShort_def list_all_iff)
  ultimately show ?thesis using assms(3,4) by simp
qed (use assms in simp)

theorem request_right_peer:
  "(readPeerIDRequest lib r peerAddressRequestProtocolV2 = Inr pid) =
     (rEnd r = EOF \<and> length (concat (rChunks r)) \<le> 128 \<and> peerDecode lib (concat (rChunks r)) = Inr pid \<and> 34 \<le> length pid)
   \<and> (readPeerIDRequest lib r peerAddressRequestProtocol = Inr pid) =
     ((errorsIs (rEnd r) EOF \<or> rChunks r \<noteq> [] \<and> (tl (rChunks r) \<noteq> [] \<or> \<not> rJoined r))
      \<and> length (concat (take 1 (rChunks r))) \<le> 128 \<and> peerDecode lib (concat (take 1 (rChunks r))) = Inr pid \<and> 34 \<le> length pid)
   \<and> (prefixesShort lib (concat (rChunks r)) \<and> readPeerIDRequest lib r peerAddressRequestProtocol = Inr pid \<longrightarrow>
     peerDecode lib (concat (rChunks r)) = Inr pid)"
proof -
  have "peerDecode lib (concat (rChunks r)) = Inr pid"
    if "prefixesShort lib (concat (rChunks r))" "readPeerIDRequest lib r peerAddressRequestProtocol = Inr pid"
  proof -
    have dec: "peerDecode lib (concat (take 1 (rChunks r))) = Inr pid" "34 \<le> length pid"
      using that(2) by (simp_all add: read_legacy_iff decode_iff)
    have parts: "concat (rChunks r) = concat (take 1 (rChunks r)) @ concat (drop 1 (rChunks r))"
      by (metis append_take_drop_id concat_append)
    show ?thesis by (rule decode_prefix [OF that(1) parts dec])
  qed
  moreover have "(readPeerIDRequest lib r peerAddressRequestProtocolV2 = Inr pid) =
     (rEnd r = EOF \<and> length (concat (rChunks r)) \<le> 128 \<and> peerDecode lib (concat (rChunks r)) = Inr pid \<and> 34 \<le> length pid)"
    by (simp add: read_V2_iff decode_iff)
  moreover have "(readPeerIDRequest lib r peerAddressRequestProtocol = Inr pid) =
     ((errorsIs (rEnd r) EOF \<or> rChunks r \<noteq> [] \<and> (tl (rChunks r) \<noteq> [] \<or> \<not> rJoined r))
      \<and> length (concat (take 1 (rChunks r))) \<le> 128 \<and> peerDecode lib (concat (take 1 (rChunks r))) = Inr pid \<and> 34 \<le> length pid)"
    unfolding read_legacy_iff decode_iff by blast
  ultimately show ?thesis by blast
qed

text \<open>A peer ID that is its own text, for the witnesses.\<close>

definition somePeer :: peerID where
  "somePeer = ''12D3KooWQmQmQmQmQmQmQmQmQmQmQmQmQmQmQmQmQm''"

definition wireLib :: "string netLib" where
  "wireLib = textLib\<lparr>peerDecode := (\<lambda>s. if s = somePeer then Inr s else Inl (ExtErr ''not a peer ID''))\<rparr>"

definition someStream :: "string list \<Rightarrow> string \<Rightarrow> stream" where
  "someStream chunks proto = \<lparr>stProtocol = proto, stReader = \<lparr>rChunks = chunks, rEnd = EOF, rJoined = False\<rparr>,
     stSetDeadline = None, stWrite = None, stCloseWrite = None\<rparr>"

lemma healthy_someStream: "healthy (someStream chunks peerAddressRequestProtocolV2)"
  by (simp add: healthy_def someStream_def)

lemma used_new: "used newPeerAddressLimiter p t < peerAddressRequestsPerWindow"
  by (simp add: used_def live_def newPeerAddressLimiter_def map_drop_def peerAddressRequestsPerWindow_def)

definition twoFragments :: reader where
  "twoFragments = \<lparr>rChunks = [take 20 somePeer, drop 20 somePeer], rEnd = EOF, rJoined = True\<rparr>"

text \<open>Fragmented, the request of a 1.1.0 requester is read whole, and that of a 1.0.0 requester is rejected.\<close>

lemma request_right_peer_witness:
  "readPeerIDRequest wireLib twoFragments peerAddressRequestProtocolV2 = Inr somePeer
   \<and> readPeerIDRequest wireLib twoFragments peerAddressRequestProtocol \<noteq> Inr somePeer"
proof -
  have "concat (rChunks twoFragments) = somePeer" "length somePeer = 42" "rEnd twoFragments = EOF"
    "peerDecode wireLib somePeer = Inr somePeer" "peerDecode wireLib (concat (take 1 (rChunks twoFragments))) \<noteq> Inr somePeer"
    by code_simp+
  then show ?thesis using request_right_peer [of wireLib twoFragments somePeer] by (auto simp: somePeer_def)
qed

text \<open>C14. Whatever streams a peer opens, however their handlers interleave with each other and with those of other
  peers, at most three budgets of replies to it are written in any interval as long as the window, and it is warned about at
  most three times: each handler may wait for the limiter's mutex after reading the clock, and write its reply as
  late as its deadline allows.  The waits are to be short: with the default deadline of ten seconds, at most ten seconds.\<close>

theorem inbound_bounded:
  assumes "sorted (map ibLock qs)" and "list_all (timely wait timeout) qs"
    and "0 \<le> wait" and "0 \<le> timeout" and "5 * wait + timeout \<le> peerAddressRequestWindow"
  shows "repliesTo p lo (lo + peerAddressRequestWindow) (handlerRun lib timeout newPeerAddressLimiter qs)
           \<le> 3 * peerAddressRequestsPerWindow
       \<and> warningsAbout p lo (lo + peerAddressRequestWindow) (handlerRun lib timeout newPeerAddressLimiter qs) \<le> 3"
proof -
  let ?lo = "lo - wait - timeout" and ?hi = "lo + peerAddressRequestWindow"
  have "\<forall>q \<in> set qs. lo \<le> ibDone q \<and> ibDone q < ?hi \<longrightarrow> ?lo \<le> ibNow q \<and> ibNow q < ?hi"
    using assms(2) by (auto simp: list_all_iff timely_def)
  note admitted = replies_granted [OF this, of p lib timeout newPeerAddressLimiter]
  have locks: "sorted_wrt (\<lambda>q q'. ibLock q \<le> ibLock q') qs" using assms(1) by (simp add: sorted_map)
  have "ibNow q \<le> ibNow q' + wait" if "q \<in> set qs" "q' \<in> set qs" "ibLock q \<le> ibLock q'" for q q'
  proof -
    have "ibNow q \<le> ibLock q" "ibLock q' \<le> ibNow q' + wait" using assms(2) that(1,2) by (auto simp: list_all_iff timely_def)
    then show ?thesis using that(3) by linarith
  qed
  then have "sorted_wrt (\<lambda>q q'. ibNow q \<le> ibNow q' + wait) qs"
    using locks by (rule sorted_wrt_mono_rel)
  then have order: "sorted_wrt (\<lambda>t t'. t \<le> t' + wait) (map snd (requestsOf qs))" by (simp add: sorted_wrt_map)
  have "skewOK ?lo ?hi wait" using assms(3-5) by (simp add: skewOK_def peerAddressRequestWindow_def)
  from skewed_bounds [OF this order, of p] admitted show ?thesis by linarith
qed

definition inboundAt :: "gotime \<Rightarrow> gotime \<Rightarrow> string inbound" where
  "inboundAt t d = \<lparr>ibStream = someStream [somePeer] peerAddressRequestProtocol, ibRemote = somePeer, ibNow = t, ibLock = d,
     ibLater = d, ibDone = d + 5 * second, ibTracker = newPeerTracker, ibAddrs = (\<lambda>p. [''/ip4/1.2.3.4/tcp/1''])\<rparr>"

text \<open>The second call has read the clock before the first one.\<close>

lemma inbound_bounded_witness:
  "repliesTo somePeer 0 peerAddressRequestWindow
     (handlerRun wireLib (10 * second) newPeerAddressLimiter [inboundAt 7 9, inboundAt 3 10]) \<le> 3 * peerAddressRequestsPerWindow"
  using inbound_bounded [of "[inboundAt 7 9, inboundAt 3 10]" second "10 * second" somePeer 0 wireLib]
  by (simp add: inboundAt_def timely_def peerAddressRequestWindow_def duration_defs)

text \<open>C16. Every request the handler returns from ends its stream exactly once, last: closed when the
  reply was written and reset otherwise, so the requester never mistakes a failure for an empty
  answer; and what is written is the JSON of at most 32 addresses, none a relay circuit.\<close>

definition endsOnce :: "streamOp list \<Rightarrow> bool" where
  "endsOnce ops \<longleftrightarrow> (case rev ops of [] \<Rightarrow> False | op # before \<Rightarrow>
     op \<in> {OpClose, OpReset} \<and> OpClose \<notin> set before \<and> OpReset \<notin> set before)"

theorem handler_outcome:
  assumes "handlePeerAddressRequest lib pt addrsOf timeout lmt st remote now now' = Some (lmt', ops, logs)"
  shows "endsOnce ops
    \<and> filter isWrite ops =
        (if used lmt remote now < peerAddressRequestsPerWindow \<and> stSetDeadline st = None
         then (case readPeerIDRequest lib (stReader st) (stProtocol st) of
                 Inl err \<Rightarrow> [] | Inr pid \<Rightarrow> [OpWrite (replyFor lib addrsOf pid)])
         else [])
    \<and> (OpClose \<in> set ops) = (filter isWrite ops \<noteq> [] \<and> stWrite st = None)"
  using assms allow_verdict [of lmt remote now]
  by (auto simp: handlePeerAddressRequest_def servePeerAddressRequest_def Let_def endsOnce_def replyFor_def
      marshalStrings_def directPeerAddresses_eq maxSharedPeerAddresses_def
      split: prod.splits option.splits if_splits sum.splits)

lemma handler_outcome_witness:
  "handlePeerAddressRequest wireLib newPeerTracker (\<lambda>p. [''/ip4/1.2.3.4'', ''/p2p-circuit'']) (10 * second)
     newPeerAddressLimiter (someStream [somePeer] peerAddressRequestProtocolV2) somePeer 0 0 \<noteq> None
   \<and> endsOnce [OpSetDeadline (10 * second), OpWrite (replyFor wireLib (\<lambda>p. [''/ip4/1.2.3.4'', ''/p2p-circuit'']) somePeer), OpClose]"
proof -
  let ?run = "handlePeerAddressRequest wireLib newPeerTracker (\<lambda>p. [''/ip4/1.2.3.4'', ''/p2p-circuit'']) (10 * second)
     newPeerAddressLimiter (someStream [somePeer] peerAddressRequestProtocolV2) somePeer 0 0"
  have "named wireLib somePeer" "delivers (idString wireLib somePeer) (stReader (someStream [somePeer] peerAddressRequestProtocolV2))"
    "16 \<le> length (idString wireLib somePeer)" by code_simp+
  from handle_delivers [OF this(1,2) healthy_someStream this(3) used_new, of newPeerTracker
      "\<lambda>p. [''/ip4/1.2.3.4'', ''/p2p-circuit'']" "10 * second" 0 0]
  obtain l logs where "?run = Some (l, [OpSetDeadline (10 * second),
      OpWrite (replyFor wireLib (\<lambda>p. [''/ip4/1.2.3.4'', ''/p2p-circuit'']) somePeer), OpClose], logs)" by (auto simp: timeAdd_def)
  from handler_outcome [OF this] this show ?thesis by simp
qed

text \<open>C35. No byte of a rejected request reaches the log or the wire: two requests that name no peer, of which the
  handler has read the same number of bytes, leave it with the same result, log lines included, in either framing
  and however each is fragmented, as long as the streams do not fail.  (In the 1.1.0 framing the bytes read are the first 129 of the
  whole request, in the 1.0.0 framing those of its first fragment.)\<close>

definition bytesRead :: "string \<Rightarrow> reader \<Rightarrow> nat" where
  "bytesRead proto r =
     min 129 (length (concat (if proto = peerAddressRequestProtocolV2 then rChunks r else take 1 (rChunks r))))"

lemma rejected_with:
  assumes "readPeerIDRequest lib r proto = Inl err" and "rEnd r = EOF"
  shows "err = (if 128 < bytesRead proto r then errPeerIDRequestTooLarge
    else FmtErrorf ''%w (%d bytes)'' [FWrap errPeerIDRequestInvalid, FInt (int (bytesRead proto r))])"
proof (cases "proto = peerAddressRequestProtocolV2")
  case True
  then show ?thesis using assms
    by (auto simp: readPeerIDRequest_def readAllLimit_clean decodePeerIDRequest_def bytesRead_def exchange_consts Let_def min_def
        split: if_splits sum.splits)
next
  case False
  then show ?thesis using assms
    by (cases "rChunks r")
       (auto simp: readPeerIDRequest_def readLegacyPeerIDRequest_def rdRead_def decodePeerIDRequest_def bytesRead_def
          exchange_consts EOF_def Let_def min_def split: if_splits sum.splits)
qed

theorem rejected_alike:
  assumes "readPeerIDRequest lib r (stProtocol st) = Inl err" and "readPeerIDRequest lib r' (stProtocol st) = Inl err'"
    and "bytesRead (stProtocol st) r = bytesRead (stProtocol st) r'" and "rEnd r = EOF" and "rEnd r' = EOF"
  shows "handlePeerAddressRequest lib pt addrsOf timeout lmt (st\<lparr>stReader := r\<rparr>) remote now now' =
         handlePeerAddressRequest lib pt addrsOf timeout lmt (st\<lparr>stReader := r'\<rparr>) remote now now'"
proof -
  have "err = err'" using rejected_with [OF assms(1,4)] rejected_with [OF assms(2,5)] assms(3) by simp
  then have same: "servePeerAddressRequest lib pt addrsOf timeout (st\<lparr>stReader := r\<rparr>) remote now' =
      servePeerAddressRequest lib pt addrsOf timeout (st\<lparr>stReader := r'\<rparr>) remote now'"
    using assms(1,2) by (simp add: servePeerAddressRequest_def Let_def split: option.split)
  show ?thesis unfolding handlePeerAddressRequest_def same ..
qed

text \<open>Two requests of the 1.0.0 framing, one of them in two fragments.\<close>

lemma rejected_alike_witness:
  "handlePeerAddressRequest wireLib newPeerTracker (\<lambda>p. []) (10 * second) newPeerAddressLimiter
     (someStream [] peerAddressRequestProtocol\<lparr>stReader := \<lparr>rChunks = [''spoof''], rEnd = EOF, rJoined = False\<rparr>\<rparr>) somePeer 0 0
   = handlePeerAddressRequest wireLib newPeerTracker (\<lambda>p. []) (10 * second) newPeerAddressLimiter
     (someStream [] peerAddressRequestProtocol\<lparr>stReader := \<lparr>rChunks = [''Xjunk'', ''more''], rEnd = EOF, rJoined = True\<rparr>\<rparr>) somePeer 0 0"
  by (rule rejected_alike [where err = "FmtErrorf ''%w (%d bytes)'' [FWrap errPeerIDRequestInvalid, FInt 5]"
        and err' = "FmtErrorf ''%w (%d bytes)'' [FWrap errPeerIDRequestInvalid, FInt 5]"])
     (simp_all add: readPeerIDRequest_def readLegacyPeerIDRequest_def rdRead_def decodePeerIDRequest_def Let_def exchange_consts
        bytesRead_def wireLib_def somePeer_def someStream_def peerAddressRequestProtocol_def peerAddressRequestProtocolV2_def)

text \<open>C15. A whole exchange over the 1.1.0 framing: when the request and the reply arrive complete, each
  in any fragments, and the reply is within the 8 KiB the requester accepts, the requester gets
  exactly the addresses the responder shares (as JSON carries them), and both ends close.\<close>

theorem exchange_end_to_end:
  assumes "named lib target"
    and "delivers (idString lib target) (stReader inbound)" and "healthy inbound" and "16 \<le> length (idString lib remote)"
    and "used lmt remote t < peerAddressRequestsPerWindow"
    and "delivers (replyFor lib addrsOf target) (stReader outbound)" and "healthy outbound"
    and "length (replyFor lib addrsOf target) \<le> maxPeerAddressResponseBytes"
  shows "(\<exists>lmt' logs. handlePeerAddressRequest lib pt addrsOf timeout lmt inbound remote t t' =
             Some (lmt', [OpSetDeadline (timeAdd t' timeout), OpWrite (replyFor lib addrsOf target), OpClose], logs))
    \<and> exchangePeerAddressRequest lib timeout outbound target now =
        (Inr (map toValidUTF8 (directPeerAddresses lib addrsOf target)),
         [OpSetDeadline (timeAdd now timeout), OpWrite (idString lib target), OpCloseWrite, OpClose])"
  using handle_delivers [OF assms(1-5)] exchange_delivers [OF assms(6-8)] by blast

lemma exchange_end_to_end_witness:
  "(\<exists>lmt' logs. handlePeerAddressRequest wireLib newPeerTracker (\<lambda>p. [''/ip4/1.2.3.4'']) (10 * second) newPeerAddressLimiter
       (someStream [take 7 somePeer, drop 7 somePeer] peerAddressRequestProtocolV2) somePeer 0 0 =
       Some (lmt', [OpSetDeadline (timeAdd 0 (10 * second)), OpWrite (replyFor wireLib (\<lambda>p. [''/ip4/1.2.3.4'']) somePeer), OpClose], logs))
   \<and> exchangePeerAddressRequest wireLib (10 * second)
       (someStream [replyFor wireLib (\<lambda>p. [''/ip4/1.2.3.4'']) somePeer] peerAddressRequestProtocolV2) somePeer 0 =
       (Inr (map toValidUTF8 (directPeerAddresses wireLib (\<lambda>p. [''/ip4/1.2.3.4'']) somePeer)),
        [OpSetDeadline (timeAdd 0 (10 * second)), OpWrite (idString wireLib somePeer), OpCloseWrite, OpClose])"
proof (rule exchange_end_to_end)
  show "named wireLib somePeer" by code_simp
  show "delivers (idString wireLib somePeer) (stReader (someStream [take 7 somePeer, drop 7 somePeer] peerAddressRequestProtocolV2))"
    by code_simp
  show "length (replyFor wireLib (\<lambda>p. [''/ip4/1.2.3.4'']) somePeer) \<le> maxPeerAddressResponseBytes"
    by (simp add: replyFor_def wireLib_def textLib_def jsonQuote_def quoteBody_ascii escAscii_def
        maxPeerAddressResponseBytes_def)
  show "16 \<le> length (idString wireLib somePeer)" by code_simp
  show "used newPeerAddressLimiter somePeer 0 < peerAddressRequestsPerWindow"
    by (rule used_new)
qed (simp_all add: healthy_someStream, simp add: someStream_def delivers_def)

text \<open>C39. The cap of 32 addresses does not keep a reply within what requesters accept: a responder whose
  peerstore has 32 direct addresses of at least 254 ASCII characters (long DNS names, say) for a
  peer writes a reply that every requester rejects as too large and resets.\<close>

definition longAddrs :: "'ma netLib \<Rightarrow> 'ma list \<Rightarrow> bool" where
  "longAddrs lib as \<longleftrightarrow> length as = 32 \<and> list_all (\<lambda>a. 254 \<le> length (maString lib a)
     \<and> list_all (\<lambda>c. byteOf c < (128 :: nat)) (maString lib a)
     \<and> \<not> stringsContains (maString lib a) ''/p2p-circuit'') as"

lemma length_commaSep_ge:
  "xs \<noteq> [] \<Longrightarrow> list_all (\<lambda>x. n \<le> length x) xs \<Longrightarrow> (n + 1) * length xs \<le> length (commaSep xs) + 1"
proof (induction xs rule: induct_list012)
  case (3 x y zs)
  then have "(n + 1) * length (y # zs) \<le> length (commaSep (y # zs)) + 1" "n \<le> length x" by simp_all
  then show ?case by simp
qed simp_all

lemma replyFor_long:
  assumes "longAddrs lib (addrsOf target)"
  shows "maxPeerAddressResponseBytes < length (replyFor lib addrsOf target)"
proof -
  let ?ss = "map (maString lib) (addrsOf target)"
  have ss: "filter (\<lambda>s. \<not> stringsContains s ''/p2p-circuit'') ?ss = ?ss" "length ?ss = 32"
    using assms by (auto simp: longAddrs_def filter_id_conv list_all_iff)
  have "254 + 2 \<le> length (jsonQuote (maString lib a))" if "a \<in> set (addrsOf target)" for a
    using assms that length_quoteBody_ascii [of "maString lib a"]
    by (auto simp: longAddrs_def list_all_iff jsonQuote_def)
  then have "list_all (\<lambda>x. 256 \<le> length x) (map jsonQuote ?ss)" by (auto simp: list_all_iff)
  then have "257 * 32 \<le> length (commaSep (map jsonQuote ?ss)) + 1"
    using length_commaSep_ge [of "map jsonQuote ?ss" 256] ss(2) by fastforce
  moreover have "take 32 ?ss = ?ss" using ss(2) by simp
  ultimately show ?thesis by (simp add: replyFor_def ss(1) maxPeerAddressResponseBytes_def)
qed

theorem oversized_reply:
  assumes "longAddrs lib (addrsOf target)"
    and "delivers (replyFor lib addrsOf target) (stReader outbound)" and "healthy outbound"
  shows "exchangePeerAddressRequest lib timeout outbound target now =
    (Inl errPeerAddressResponseTooLarge,
     [OpSetDeadline (timeAdd now timeout), OpWrite (idString lib target), OpCloseWrite, OpReset])"
  using assms replyFor_long [of lib addrsOf target, OF assms(1)]
  by (simp add: exchangePeerAddressRequest_def doPeerAddressExchange_def Let_def healthy_def delivers_def
      readAllLimit_clean)

lemma longAddrs_replicate: "longAddrs wireLib (replicate 32 (replicate 254 (CHR ''a'')))"
proof -
  have "\<not> stringsContains (replicate 254 (CHR ''a'')) ''/p2p-circuit''"
    by (auto dest!: stringsContains_set)
  then show ?thesis by (simp add: longAddrs_def wireLib_def textLib_def list_all_iff)
qed

lemma oversized_reply_witness:
  "exchangePeerAddressRequest wireLib (10 * second)
     (someStream [replyFor wireLib (\<lambda>p. replicate 32 (replicate 254 (CHR ''a''))) somePeer] peerAddressRequestProtocolV2) somePeer 0 =
    (Inl errPeerAddressResponseTooLarge,
     [OpSetDeadline (timeAdd 0 (10 * second)), OpWrite (idString wireLib somePeer), OpCloseWrite, OpReset])"
  by (rule oversized_reply [where addrsOf = "\<lambda>p. replicate 32 (replicate 254 (CHR ''a''))"])
     (simp_all add: longAddrs_replicate healthy_someStream, simp add: someStream_def delivers_def)

end
