(* ===== verification/Lookup.thy ===== *)
theory Lookup
  imports Exchange "HOL-Library.Multiset"
begin

text \<open>
  Finding addresses of topic peers (src/client.go): the periodic scan
  (\<open>scanTopicPeersForAddresses\<close>, \<open>shouldRequestPeerAddresses\<close>, \<open>pruneRequested\<close>), one lookup
  (\<open>requestPeerAddresses\<close>), the set of lookups in flight (\<open>beginAddrLookup\<close>, \<open>endAddrLookup\<close>) under
  any interleaving of the lookup goroutines, and the dial that follows a successful one
  (\<open>tryConnectToTopicPeer\<close>).
\<close>

section \<open>The periodic scan\<close>

definition peerAddressRetryInterval :: duration where
  "peerAddressRetryInterval = 5 * minute"

definition shouldRequestPeerAddresses :: "(peerID \<rightharpoonup> gotime) \<Rightarrow> peerID \<Rightarrow> gotime \<Rightarrow> bool" where
  "shouldRequestPeerAddresses requested target now \<longleftrightarrow>
     (case requested target of
        None \<Rightarrow> True
      | Some asked \<Rightarrow> peerAddressRetryInterval \<le> timeSub now asked)"

text \<open>Deleting while ranging over the map: the result does not depend on the order of the visit.\<close>

definition pruneRequested :: "peerID list \<Rightarrow> (peerID \<rightharpoonup> gotime) \<Rightarrow> peerID set \<Rightarrow> (peerID \<rightharpoonup> gotime)" where
  "pruneRequested ks requested topicSet = range_delete (\<lambda>p t. p \<notin> topicSet) ks requested"

text \<open>The loop over the topic peers: the lookups it starts, in order, and the times it records.\<close>

fun scanLoop ::
  "(peerID \<Rightarrow> bool) \<Rightarrow> gotime \<Rightarrow> (peerID \<rightharpoonup> gotime) \<Rightarrow> peerID list \<Rightarrow> (peerID \<rightharpoonup> gotime) \<times> peerID list" where
  "scanLoop isConn now requested [] = (requested, [])"
| "scanLoop isConn now requested (p # ps) =
     (if isConn p then scanLoop isConn now requested ps
      else if \<not> shouldRequestPeerAddresses requested p now then scanLoop isConn now requested ps
      else apsnd ((#) p) (scanLoop isConn now (requested(p \<mapsto> now)) ps))"

text \<open>\<open>peers\<close> is what \<open>getAllTopicPeers\<close> returns, \<open>ks\<close> the order of the range in \<open>pruneRequested\<close>.\<close>

definition scanTopicPeersForAddresses ::
  "(peerID \<Rightarrow> bool) \<Rightarrow> peerID list \<Rightarrow> peerID list \<Rightarrow> (peerID \<rightharpoonup> gotime) \<Rightarrow> gotime
     \<Rightarrow> (peerID \<rightharpoonup> gotime) \<times> peerID list \<times> logline list" where
  "scanTopicPeersForAddresses isConn peers ks requested now =
     (case scanLoop isConn now requested peers of
        (requested', started) \<Rightarrow>
          (pruneRequested ks requested' (set peers), started,
           [Debugf ''Scanning %d topic peers for address discovery'' [FInt (int (length peers))]]))"

text \<open>
  One tick of \<open>attemptDirectConnectionsToTopicPeers\<close>: the time, who is connected then, the topic
  peers the tracker knows, and the order of the pruning range.
\<close>

record tick =
  tkNow :: gotime
  tkConnected :: "peerID \<Rightarrow> bool"
  tkPeers :: "peerID list"
  tkOrder :: "peerID list"

fun attemptDirectConnectionsToTopicPeers :: "(peerID \<rightharpoonup> gotime) \<Rightarrow> tick list \<Rightarrow> (gotime \<times> peerID list) list" where
  "attemptDirectConnectionsToTopicPeers requested [] = []"
| "attemptDirectConnectionsToTopicPeers requested (k # ticks) =
     (case scanTopicPeersForAddresses (tkConnected k) (tkPeers k) (tkOrder k) requested (tkNow k) of
        (requested', started, logs) \<Rightarrow>
          (tkNow k, started) # attemptDirectConnectionsToTopicPeers requested' ticks)"

section \<open>Lookups in flight\<close>

definition beginAddrLookup :: "peerID set \<Rightarrow> peerID \<Rightarrow> peerID set \<times> bool" where
  "beginAddrLookup inFlight target =
     (if target \<in> inFlight then (inFlight, False) else (insert target inFlight, True))"

definition endAddrLookup :: "peerID set \<Rightarrow> peerID \<Rightarrow> peerID set" where
  "endAddrLookup inFlight target = inFlight - {target}"

section \<open>One lookup\<close>

text \<open>
  What a lookup meets at each connected peer: whether the context is cancelled by then, the
  stream \<open>NewStream\<close> opens or its error, and the time.  \<open>errText\<close> is the text of an error.
\<close>

record probe =
  prPeer :: peerID
  prCancelled :: bool
  prStream :: "goerror + stream"
  prNow :: gotime

record 'ma lookupResult =
  lkAdded :: "'ma list option"
  lkLogs :: "logline list"
  lkExchanges :: "(peerID \<times> streamOp list) list"

definition noResult :: "logline list \<Rightarrow> 'ma lookupResult" where
  "noResult logs = \<lparr>lkAdded = None, lkLogs = logs, lkExchanges = []\<rparr>"

definition prepend ::
  "logline list \<Rightarrow> (peerID \<times> streamOp list) list \<Rightarrow> 'ma lookupResult \<Rightarrow> 'ma lookupResult" where
  "prepend logs exs res = res\<lparr>lkLogs := logs @ lkLogs res, lkExchanges := exs @ lkExchanges res\<rparr>"

fun askPeers ::
  "(goerror \<Rightarrow> string) \<Rightarrow> 'ma netLib \<Rightarrow> duration \<Rightarrow> peerID \<Rightarrow> peerID \<Rightarrow> string \<Rightarrow> probe list
     \<Rightarrow> 'ma lookupResult option" where
  "askPeers errText lib timeout self target name [] =
     Some (noResult [Debugf ''No connected peers had addresses for %s'' [FStr name]])"
| "askPeers errText lib timeout self target name (pr # rest) =
     (if prCancelled pr then Some (noResult [])
      else if prPeer pr = self then askPeers errText lib timeout self target name rest
      else
        (case prStream pr of
           Inl err \<Rightarrow>
             (if \<not> stringsContains (errText err) ''protocols not supported'' then
                (case slice16 (idString lib (prPeer pr)) of
                   None \<Rightarrow> None
                 | Some short \<Rightarrow>
                     map_option (prepend [Debugf ''Failed to open peer-addr-request stream to %s: %v'' [FStr short, FErr err]] [])
                       (askPeers errText lib timeout self target name rest))
              else askPeers errText lib timeout self target name rest)
         | Inr st \<Rightarrow>
             (case exchangePeerAddressRequest lib timeout st target (prNow pr) of
                (Inl err, ops) \<Rightarrow>
                  (case slice16 (idString lib (prPeer pr)) of
                     None \<Rightarrow> None
                   | Some short \<Rightarrow>
                       map_option (prepend [Debugf ''Peer address request to %s for %s failed: %v''
                            [FStr short, FStr name, FErr err]] [(prPeer pr, ops)])
                         (askPeers errText lib timeout self target name rest))
              | (Inr addrs, ops) \<Rightarrow>
                  (let parsed = Debugf ''Parsed response: %d addresses for %s'' [FInt (int (length addrs)), FStr name] in
                   if 0 < length addrs then
                     (case slice16 (idString lib (prPeer pr)) of
                        None \<Rightarrow> None
                      | Some short \<Rightarrow>
                          Some \<lparr>lkAdded = Some (parseMultiaddrs lib (take (min (length addrs) maxSharedPeerAddresses) addrs)),
                                lkLogs = [parsed, Infof ''Peer %s shared %d addresses for %s''
                                            [FStr short, FInt (int (length addrs)), FStr name]],
                                lkExchanges = [(prPeer pr, ops)]\<rparr>)
                   else
                     map_option (prepend [parsed] [(prPeer pr, ops)])
                       (askPeers errText lib timeout self target name rest)))))"

text \<open>A whole call: \<open>lkAdded = Some as\<close> stores \<open>as\<close> in the peerstore and starts a dial.\<close>

definition requestPeerAddresses ::
  "(goerror \<Rightarrow> string) \<Rightarrow> 'ma netLib \<Rightarrow> duration \<Rightarrow> peerTracker \<Rightarrow> peerID \<Rightarrow> peerID set \<Rightarrow> peerID \<Rightarrow> probe list
     \<Rightarrow> (peerID set \<times> 'ma lookupResult) option" where
  "requestPeerAddresses errText lib timeout pt self inFlight target probes =
     (case beginAddrLookup inFlight target of
        (inFlight', won) \<Rightarrow>
          if \<not> won then Some (inFlight', noResult [])
          else
            (let name = getName pt target in
             map_option (\<lambda>res. (endAddrLookup inFlight' target,
                 prepend [Debugf ''Requesting addresses for peer %s from %d connected peers''
                   [FStr name, FInt (int (length probes))]] [] res))
               (askPeers errText lib timeout self target name probes)))"

section \<open>Dialing a topic peer\<close>

definition ignoredErrors :: "string list" where
  "ignoredErrors = [''connection refused'', ''rate limit exceeded'', ''NO_RESERVATION'',
     ''concurrent active dial'', ''all dials failed'']"

fun containsNone :: "string \<Rightarrow> string list \<Rightarrow> bool" where
  "containsNone s [] = True"
| "containsNone s (ignored # rest) = (if stringsContains s ignored then False else containsNone s rest)"

definition shouldLogConnectionError :: "(goerror \<Rightarrow> string) \<Rightarrow> goerror \<Rightarrow> bool" where
  "shouldLogConnectionError errText err = containsNone (errText err) ignoredErrors"

fun addressLines :: "'ma netLib \<Rightarrow> nat \<Rightarrow> 'ma list \<Rightarrow> logline list" where
  "addressLines lib i [] = []"
| "addressLines lib i (a # as) =
     Debugf ''  Address %d: %s'' [FInt (int i + 1), FStr (maString lib a)] # addressLines lib (Suc i) as"

text \<open>
  The peer it dials, if it does; \<open>dial\<close> is what \<open>host.Connect\<close> answers, and \<open>pt'\<close> the tracker by then.
\<close>

definition tryConnectToTopicPeer ::
  "(goerror \<Rightarrow> string) \<Rightarrow> 'ma netLib \<Rightarrow> peerTracker \<Rightarrow> peerTracker \<Rightarrow> (peerID \<Rightarrow> bool) \<Rightarrow> (peerID \<Rightarrow> 'ma list)
     \<Rightarrow> ('ma addrInfo \<Rightarrow> goerror option) \<Rightarrow> peerID \<Rightarrow> ('ma addrInfo option \<times> logline list) option" where
  "tryConnectToTopicPeer errText lib pt pt' isConn addrsOf dial p =
     (if isConn p then Some (None, [])
      else
        (let addrs = addrsOf p; name = getName pt p in
         case slice16 (idString lib p) of
           None \<Rightarrow> None
         | Some short \<Rightarrow>
             (let head = Debugf ''Peer %s (%s): %d addresses in peerstore''
                    [FStr name, FStr short, FInt (int (length addrs))] in
              if length addrs = 0 then
                Some (None, [head, Debugf ''No addresses for peer %s - continuing via relay'' [FStr name]])
              else
                (let info = \<lparr>aiID = p, aiAddrs = addrs\<rparr>;
                     outcome = (case dial info of
                        Some err \<Rightarrow>
                          (if shouldLogConnectionError errText err
                           then [Debugf ''Failed to establish direct connection to topic peer %s: %v'' [FStr short, FErr err]]
                           else [])
                      | None \<Rightarrow> [Infof ''Established direct connection to topic peer %s (%s)'' [FStr (getName pt' p), FStr short]])
                 in Some (Some info, head # addressLines lib 0 addrs @ outcome)))))"

section \<open>The scan, peer by peer\<close>

lemma due_iff: "shouldRequestPeerAddresses requested p now \<longleftrightarrow>
    (case requested p of None \<Rightarrow> True | Some asked \<Rightarrow> peerAddressRetryInterval \<le> now - asked)"
  unfolding shouldRequestPeerAddresses_def
  by (auto simp: timeSub_def peerAddressRetryInterval_def duration_defs maxInt64_def minInt64_def
      split: option.splits)

lemma due_now: "requested p = Some now \<Longrightarrow> \<not> shouldRequestPeerAddresses requested p now"
  by (simp add: due_iff peerAddressRetryInterval_def duration_defs)

lemma due_cong: "requested p = requested' p \<Longrightarrow>
    shouldRequestPeerAddresses requested p now = shouldRequestPeerAddresses requested' p now"
  by (simp add: shouldRequestPeerAddresses_def)

lemma scanLoop_started:
  "p \<in> set (snd (scanLoop isConn now requested ps)) \<longleftrightarrow>
     p \<in> set ps \<and> \<not> isConn p \<and> shouldRequestPeerAddresses requested p now"
proof (induction ps arbitrary: requested)
  case (Cons q ps)
  define r' where "r' = requested(q \<mapsto> now)"
  have "\<not> shouldRequestPeerAddresses r' q now" by (rule due_now) (simp add: r'_def)
  moreover have "shouldRequestPeerAddresses r' p now = shouldRequestPeerAddresses requested p now" if "p \<noteq> q"
    using that by (intro due_cong) (simp add: r'_def)
  ultimately show ?case
    using Cons.IH [of requested] Cons.IH [of r'] unfolding scanLoop.simps r'_def [symmetric] by auto
qed simp

lemma scanLoop_requested:
  "fst (scanLoop isConn now requested ps) p =
     (if p \<in> set (snd (scanLoop isConn now requested ps)) then Some now else requested p)"
proof (induction ps arbitrary: requested)
  case (Cons q ps)
  define r' where "r' = requested(q \<mapsto> now)"
  have "r' p = (if p = q then Some now else requested p)" by (simp add: r'_def)
  then show ?case
    using Cons.IH [of requested] Cons.IH [of r'] unfolding scanLoop.simps r'_def [symmetric] by auto
qed simp

lemma scanLoop_distinct: "distinct (snd (scanLoop isConn now requested ps))"
  by (induction ps arbitrary: requested) (auto simp: scanLoop_started due_now)

lemma scan_fst:
  "fst (scanTopicPeersForAddresses isConn peers ks requested now) p =
     (if p \<in> set peers \<or> p \<notin> set ks then fst (scanLoop isConn now requested peers) p else None)"
  by (simp add: scanTopicPeersForAddresses_def pruneRequested_def case_prod_beta range_delete_apply map_drop_def
      split: option.split)

lemma scan_started:
  "fst (snd (scanTopicPeersForAddresses isConn peers ks requested now)) = snd (scanLoop isConn now requested peers)"
  by (simp add: scanTopicPeersForAddresses_def case_prod_beta)

definition askedAt :: "peerID \<Rightarrow> (gotime \<times> peerID list) list \<Rightarrow> gotime list" where
  "askedAt p outs = map fst (filter (\<lambda>(t, started). p \<in> set started) outs)"

lemma attempt_Cons:
  "attemptDirectConnectionsToTopicPeers requested (k # ticks) =
     (tkNow k, snd (scanLoop (tkConnected k) (tkNow k) requested (tkPeers k)))
       # attemptDirectConnectionsToTopicPeers
           (fst (scanTopicPeersForAddresses (tkConnected k) (tkPeers k) (tkOrder k) requested (tkNow k))) ticks"
  using scan_started [of "tkConnected k" "tkPeers k" "tkOrder k" requested "tkNow k"]
  by (cases "scanTopicPeersForAddresses (tkConnected k) (tkPeers k) (tkOrder k) requested (tkNow k)") simp

lemma asked_later:
  "list_all (\<lambda>k. p \<in> set (tkPeers k)) ticks \<Longrightarrow> requested p = Some a \<Longrightarrow>
     \<forall>u \<in> set (askedAt p (attemptDirectConnectionsToTopicPeers requested ticks)). peerAddressRetryInterval \<le> u - a"
proof (induction ticks arbitrary: requested a)
  case (Cons k ticks)
  let ?r = "fst (scanTopicPeersForAddresses (tkConnected k) (tkPeers k) (tkOrder k) requested (tkNow k))"
  let ?started = "snd (scanLoop (tkConnected k) (tkNow k) requested (tkPeers k))"
  have r: "?r p = (if p \<in> set ?started then Some (tkNow k) else Some a)"
    using Cons.prems by (simp add: scan_fst scanLoop_requested)
  have pos: "0 \<le> peerAddressRetryInterval" by (simp add: peerAddressRetryInterval_def duration_defs)
  have "peerAddressRetryInterval \<le> tkNow k - a" if "p \<in> set ?started"
    using that Cons.prems(2) by (simp add: scanLoop_started due_iff)
  then show ?case
    using Cons.IH [of ?r "if p \<in> set ?started then tkNow k else a"] Cons.prems(1) r pos
    unfolding attempt_Cons by (fastforce simp: askedAt_def split: if_splits)
qed (simp add: askedAt_def)

section \<open>Any interleaving of lookups\<close>

datatype lpc = LWaiting | LRunning | LDone

record lookupSys =
  inFl :: "peerID set"
  gos :: "(peerID \<times> lpc) list"

definition lookupInit :: "lookupSys \<Rightarrow> bool" where
  "lookupInit s \<longleftrightarrow> inFl s = {} \<and> gos s = []"

text \<open>A goroutine starts, takes its critical section in \<open>beginAddrLookup\<close>, and ends (also by panicking).\<close>

inductive lookupStep :: "lookupSys \<Rightarrow> lookupSys \<Rightarrow> bool" where
  spawn: "lookupStep s (s\<lparr>gos := gos s @ [(target, LWaiting)]\<rparr>)"
| begins: "i < length (gos s) \<Longrightarrow> gos s ! i = (target, LWaiting) \<Longrightarrow>
    lookupStep s (s\<lparr>inFl := fst (beginAddrLookup (inFl s) target),
      gos := (gos s)[i := (target, if snd (beginAddrLookup (inFl s) target) then LRunning else LDone)]\<rparr>)"
| finishes: "i < length (gos s) \<Longrightarrow> gos s ! i = (target, LRunning) \<Longrightarrow>
    lookupStep s (s\<lparr>inFl := endAddrLookup (inFl s) target, gos := (gos s)[i := (target, LDone)]\<rparr>)"

definition running :: "peerID \<Rightarrow> lookupSys \<Rightarrow> nat" where
  "running target s = count (mset (gos s)) (target, LRunning)"

definition lookup_inv :: "lookupSys \<Rightarrow> bool" where
  "lookup_inv s \<longleftrightarrow> (\<forall>target. running target s = (if target \<in> inFl s then 1 else 0))"

lemma count_update:
  "i < length xs \<Longrightarrow> count (mset (xs[i := y])) x =
     count (mset xs) x - (if xs ! i = x then 1 else 0) + (if y = x then 1 else 0)"
  by (simp add: mset_update)

lemma lookupStep_inv:
  assumes "lookup_inv s" and "lookupStep s t"
  shows "lookup_inv t"
  using assms(2)
proof cases
  case (spawn target)
  then show ?thesis using assms(1) by (simp add: lookup_inv_def running_def)
next
  case (begins i target)
  then show ?thesis using assms(1)
    by (auto simp: lookup_inv_def running_def count_update beginAddrLookup_def)
next
  case (finishes i target)
  then show ?thesis using assms(1)
    by (auto simp: lookup_inv_def running_def count_update endAddrLookup_def)
qed

interpretation lookups: invariant_system lookupInit lookupStep lookup_inv
  by unfold_locales (simp add: lookupInit_def lookup_inv_def running_def, rule lookupStep_inv)

section \<open>Properties\<close>

text \<open>C20. However the lookup goroutines interleave, at most one looks up a given target at any time,
  and a target is blocked exactly while one does: no lookup leaves its mark behind.\<close>

theorem lookup_exclusive:
  assumes "reach lookupInit lookupStep s"
  shows "running target s \<le> 1 \<and> (target \<in> inFl s) = (running target s = 1)"
  using lookups.reach_inv [OF assms] by (simp add: lookup_inv_def)

lemma lookup_exclusive_witness:
  "running ''t'' \<lparr>inFl = {''t''}, gos = [(''t'', LRunning), (''t'', LDone)]\<rparr> \<le> 1"
proof -
  let ?s0 = "\<lparr>inFl = {}, gos = []\<rparr> :: lookupSys"
  let ?s1 = "\<lparr>inFl = {}, gos = [(''t'', LWaiting)]\<rparr>"
  let ?s2 = "\<lparr>inFl = {}, gos = [(''t'', LWaiting), (''t'', LWaiting)]\<rparr>"
  let ?s3 = "\<lparr>inFl = {''t''}, gos = [(''t'', LRunning), (''t'', LWaiting)]\<rparr>"
  let ?s4 = "\<lparr>inFl = {''t''}, gos = [(''t'', LRunning), (''t'', LDone)]\<rparr>"
  have "reach lookupInit lookupStep ?s0" by (rule reach_init) (simp add: lookupInit_def)
  moreover have "lookupStep ?s0 ?s1" using spawn [of ?s0 "''t''"] by simp
  moreover have "lookupStep ?s1 ?s2" using spawn [of ?s1 "''t''"] by simp
  moreover have "lookupStep ?s2 ?s3" using begins [of 0 ?s2 "''t''"] by (simp add: beginAddrLookup_def)
  moreover have "lookupStep ?s3 ?s4" using begins [of 1 ?s3 "''t''"] by (simp add: beginAddrLookup_def)
  ultimately have "reach lookupInit lookupStep ?s4" by (meson reach_step)
  from lookup_exclusive [OF this, of "''t''"] show ?thesis by simp
qed

text \<open>C21. A topic peer that cannot be reached is asked for again, but never sooner than five minutes
  after the last attempt, over any run of the scan in which it stays a topic peer.\<close>

theorem lookup_retry_interval:
  assumes "list_all (\<lambda>k. p \<in> set (tkPeers k)) ticks"
  shows "sorted_wrt (\<lambda>t u. peerAddressRetryInterval \<le> u - t) (askedAt p (attemptDirectConnectionsToTopicPeers requested ticks))"
  using assms
proof (induction ticks arbitrary: requested)
  case (Cons k ticks)
  let ?r = "fst (scanTopicPeersForAddresses (tkConnected k) (tkPeers k) (tkOrder k) requested (tkNow k))"
  let ?started = "snd (scanLoop (tkConnected k) (tkNow k) requested (tkPeers k))"
  have "?r p = Some (tkNow k)" if "p \<in> set ?started"
    using that Cons.prems by (simp add: scan_fst scanLoop_requested)
  then have "\<forall>u \<in> set (askedAt p (attemptDirectConnectionsToTopicPeers ?r ticks)). peerAddressRetryInterval \<le> u - tkNow k"
    if "p \<in> set ?started" using that Cons.prems asked_later [of p ticks ?r "tkNow k"] by simp
  then show ?case using Cons.IH [of ?r] Cons.prems unfolding attempt_Cons
    by (auto simp: askedAt_def)
qed (simp add: askedAt_def)

definition exampleTick :: "gotime \<Rightarrow> tick" where
  "exampleTick t = \<lparr>tkNow = t, tkConnected = (\<lambda>p. False), tkPeers = [''p''], tkOrder = [''p'']\<rparr>"

lemma lookup_retry_interval_witness:
  "sorted_wrt (\<lambda>t u. peerAddressRetryInterval \<le> u - t)
     (askedAt ''p'' (attemptDirectConnectionsToTopicPeers Map.empty [exampleTick 0, exampleTick minute, exampleTick (5 * minute)]))
   \<and> askedAt ''p'' (attemptDirectConnectionsToTopicPeers Map.empty [exampleTick 0, exampleTick minute, exampleTick (5 * minute)])
       = [0, 5 * minute]"
proof
  show "sorted_wrt (\<lambda>t u. peerAddressRetryInterval \<le> u - t)
     (askedAt ''p'' (attemptDirectConnectionsToTopicPeers Map.empty [exampleTick 0, exampleTick minute, exampleTick (5 * minute)]))"
    by (rule lookup_retry_interval) (simp add: exampleTick_def)
  show "askedAt ''p'' (attemptDirectConnectionsToTopicPeers Map.empty [exampleTick 0, exampleTick minute, exampleTick (5 * minute)])
       = [0, 5 * minute]"
    by code_simp
qed

text \<open>One scan starts a lookup for exactly the topic peers that are neither connected nor asked for
  within the last five minutes, once each, and remembers only topic peers, so what it remembers
  is bounded by the topic peers.\<close>

lemma scan_exact:
  assumes "range_order (fst (scanLoop isConn now requested peers)) ks"
  shows "set (fst (snd (scanTopicPeersForAddresses isConn peers ks requested now)))
           = {p \<in> set peers. \<not> isConn p \<and> shouldRequestPeerAddresses requested p now}
       \<and> distinct (fst (snd (scanTopicPeersForAddresses isConn peers ks requested now)))
       \<and> dom (fst (scanTopicPeersForAddresses isConn peers ks requested now)) \<subseteq> set peers"
proof (intro conjI)
  show "dom (fst (scanTopicPeersForAddresses isConn peers ks requested now)) \<subseteq> set peers"
    using assms by (auto simp: scan_fst range_order_def split: if_splits)
qed (auto simp: scan_started scanLoop_started scanLoop_distinct)

lemma scan_exact_witness:
  "set (fst (snd (scanTopicPeersForAddresses (\<lambda>p. p = ''a'') [''a'', ''b''] [''b'', ''gone''] [''gone'' \<mapsto> 0] 7)))
     = {p \<in> set [''a'', ''b'']. \<not> p = ''a'' \<and> shouldRequestPeerAddresses [''gone'' \<mapsto> 0] p 7}"
proof -
  have "fst (scanLoop (\<lambda>p. p = ''a'') 7 [''gone'' \<mapsto> 0] [''a'', ''b'']) = [''gone'' \<mapsto> 0, ''b'' \<mapsto> 7]"
    by (simp add: shouldRequestPeerAddresses_def)
  then have "range_order (fst (scanLoop (\<lambda>p. p = ''a'') 7 [''gone'' \<mapsto> 0] [''a'', ''b''])) [''b'', ''gone'']"
    by (simp add: range_order_def)
  from scan_exact [OF this] show ?thesis by blast
qed

text \<open>A lookup stores the addresses of the first connected peer, other than this node itself, that
  shares any before the client is cancelled, at most 32 of them; it stores nothing when another
  lookup for the target is in flight, ends every stream it opened exactly once, and leaves the
  set of lookups in flight as it found it.\<close>

definition sharedBy :: "'ma netLib \<Rightarrow> duration \<Rightarrow> peerID \<Rightarrow> peerID \<Rightarrow> probe \<Rightarrow> string list option" where
  "sharedBy lib timeout self target pr =
     (if prPeer pr = self then None
      else
        (case prStream pr of
           Inl err \<Rightarrow> None
         | Inr st \<Rightarrow>
             (case fst (exchangePeerAddressRequest lib timeout st target (prNow pr)) of
                Inl err \<Rightarrow> None
              | Inr addrs \<Rightarrow> if addrs = [] then None else Some addrs)))"

definition option_list :: "'a option \<Rightarrow> 'a list" where
  "option_list x = (case x of None \<Rightarrow> [] | Some y \<Rightarrow> [y])"

definition firstShared :: "'ma netLib \<Rightarrow> duration \<Rightarrow> peerID \<Rightarrow> peerID \<Rightarrow> probe list \<Rightarrow> 'ma list option" where
  "firstShared lib timeout self target probes =
     map_option (\<lambda>pr. parseMultiaddrs lib (take maxSharedPeerAddresses (the (sharedBy lib timeout self target pr))))
       (find (\<lambda>pr. sharedBy lib timeout self target pr \<noteq> None) (takeWhile (\<lambda>pr. \<not> prCancelled pr) probes))"

lemma exchange_endsOnce: "endsOnce (snd (exchangePeerAddressRequest lib timeout st target now))"
  by (auto simp: exchangePeerAddressRequest_def doPeerAddressExchange_def Let_def endsOnce_def
      split: option.splits sum.splits prod.splits)

lemma prepend_simps [simp]:
  "lkAdded (prepend logs exs res) = lkAdded res"
  "lkExchanges (prepend logs exs res) = exs @ lkExchanges res"
  "lkAdded (noResult logs) = None" "lkExchanges (noResult logs) = []"
  by (simp_all add: prepend_def noResult_def)

lemma askPeers_result:
  "askPeers errText lib timeout self target name probes = Some res \<Longrightarrow>
     lkAdded res = firstShared lib timeout self target probes
     \<and> list_all (\<lambda>(p, ops). p \<noteq> self \<and> endsOnce ops) (lkExchanges res)"
proof (induction probes arbitrary: res)
  case (Cons pr probes)
  show ?case
  proof (cases "prCancelled pr \<or> prPeer pr = self")
    case True
    then show ?thesis using Cons by (auto simp: firstShared_def sharedBy_def)
  next
    case False
    show ?thesis
    proof (cases "prStream pr")
      case (Inl err)
      then have "sharedBy lib timeout self target pr = None" by (simp add: sharedBy_def)
      then have "firstShared lib timeout self target (pr # probes) = firstShared lib timeout self target probes"
        using False by (simp add: firstShared_def)
      then show ?thesis using Cons False Inl by (auto split: if_splits option.splits)
    next
      case (Inr st)
      obtain r ops where ex: "exchangePeerAddressRequest lib timeout st target (prNow pr) = (r, ops)" by force
      have ends: "endsOnce ops" using exchange_endsOnce [of lib timeout st target "prNow pr"] ex by simp
      have "sharedBy lib timeout self target pr = (case r of Inl err \<Rightarrow> None | Inr addrs \<Rightarrow> if addrs = [] then None else Some addrs)"
        using False Inr ex by (simp add: sharedBy_def)
      then show ?thesis using Cons False Inr ex ends
        by (cases r) (auto simp: firstShared_def Let_def min_def split: if_splits option.splits)
    qed
  qed
qed (simp add: firstShared_def)

theorem lookup_result:
  assumes "requestPeerAddresses errText lib timeout pt self inFlight target probes = Some (inFlight', res)"
  shows "inFlight' = inFlight
    \<and> lkAdded res = (if target \<in> inFlight then None else firstShared lib timeout self target probes)
    \<and> list_all (\<lambda>as. length as \<le> maxSharedPeerAddresses) (option_list (lkAdded res))
    \<and> list_all (\<lambda>(p, ops). p \<noteq> self \<and> endsOnce ops) (lkExchanges res)"
proof -
  have len: "length (parseMultiaddrs lib (take n xs)) \<le> n" for n xs
    using length_parseMultiaddrs [of lib "take n xs"] by simp
  have "list_all (\<lambda>as. length as \<le> maxSharedPeerAddresses) (option_list (firstShared lib timeout self target probes))"
    using len by (auto simp: firstShared_def option_list_def split: option.split)
  then show ?thesis
    using assms askPeers_result [of errText lib timeout self target "getName pt target" probes]
    by (auto simp: requestPeerAddresses_def beginAddrLookup_def endAddrLookup_def Let_def option_list_def split: if_splits)
qed

definition exampleProbe :: "peerID \<Rightarrow> string \<Rightarrow> probe" where
  "exampleProbe p reply = \<lparr>prPeer = p, prCancelled = False,
     prStream = Inr (someStream [reply] peerAddressRequestProtocolV2), prNow = 0\<rparr>"

lemma lookup_result_witness:
  "\<exists>res. requestPeerAddresses (\<lambda>e. []) wireLib (10 * second) newPeerTracker ''me'' {} somePeer
        [exampleProbe ''me'' ''[]'', exampleProbe somePeer (replyFor wireLib (\<lambda>p. [''/ip4/1.2.3.4'']) somePeer)] = Some ({}, res)
     \<and> lkAdded res = firstShared wireLib (10 * second) ''me'' somePeer
         [exampleProbe ''me'' ''[]'', exampleProbe somePeer (replyFor wireLib (\<lambda>p. [''/ip4/1.2.3.4'']) somePeer)]"
proof -
  let ?reply = "replyFor wireLib (\<lambda>p. [''/ip4/1.2.3.4'']) somePeer"
  let ?probes = "[exampleProbe ''me'' ''[]'', exampleProbe somePeer ?reply]"
  have "length ?reply \<le> maxPeerAddressResponseBytes"
    by (simp add: replyFor_def wireLib_def textLib_def jsonQuote_def quoteBody_ascii escAscii_def
        maxPeerAddressResponseBytes_def)
  moreover have "unmarshalStrings ?reply = Inr (map toValidUTF8 [''/ip4/1.2.3.4''])"
    by (rule strings_roundtrip) (simp add: marshalStrings_def replyFor_def wireLib_def textLib_def)
  ultimately have ex: "exchangePeerAddressRequest wireLib (10 * second) (someStream [?reply] peerAddressRequestProtocolV2) somePeer 0
      = (Inr (map toValidUTF8 [''/ip4/1.2.3.4'']),
         [OpSetDeadline (timeAdd 0 (10 * second)), OpWrite (idString wireLib somePeer), OpCloseWrite, OpClose])"
    by (simp add: exchangePeerAddressRequest_def doPeerAddressExchange_def someStream_def Let_def readAllLimit_clean)
  have me: "''me'' \<noteq> somePeer" by (simp add: somePeer_def)
  have "slice16 (idString wireLib somePeer) \<noteq> None"
    by (simp add: slice16_def wireLib_def textLib_def somePeer_def)
  then obtain res where "requestPeerAddresses (\<lambda>e. []) wireLib (10 * second) newPeerTracker ''me'' {} somePeer ?probes = Some ({}, res)"
    using me by (auto simp: requestPeerAddresses_def beginAddrLookup_def endAddrLookup_def Let_def exampleProbe_def ex)
  from lookup_result [OF this] this show ?thesis by auto
qed

end
