(* ===== verification/Maintain.thy ===== *)
theory Maintain
  imports Lookup
begin

text \<open>
  The background loops of a client (src/client.go): the reconnect loop of a managed peer pool
  (\<open>connectToManagedPeers\<close>, \<open>allConnected\<close>, \<open>reconnectDisconnected\<close>, \<open>maintainPeerSet\<close>), DHT discovery
  (\<open>waitForDHTAndAdvertise\<close>, \<open>advertiseTopics\<close>, \<open>discoverPeers\<close>, \<open>findAndConnectPeers\<close>,
  \<open>processPeerDiscovery\<close>, \<open>connectToDiscoveredPeer\<close>) and the mDNS callback \<open>HandlePeerFound\<close>.

  A loop over a \<open>select\<close> is a function on the sequence of events the runtime chooses; the result
  says, event by event, which dials it starts and what it logs.  \<open>None\<close> is a panic.
\<close>

section \<open>Managed peers\<close>

text \<open>\<open>connectToManagedPeers\<close> dials every peer; this is what one of its goroutines logs.\<close>

definition connectToManagedPeers :: "'ma addrInfo list \<Rightarrow> 'ma addrInfo list" where
  "connectToManagedPeers peers = peers"

definition managedDialLog ::
  "'ma netLib \<Rightarrow> string \<Rightarrow> 'ma addrInfo \<Rightarrow> goerror option \<Rightarrow> logline option" where
  "managedDialLog lib kind ai result =
     (case result of
        Some err \<Rightarrow>
          map_option (\<lambda>short. Warnf ''Failed to connect to %s peer %s (%v): %v''
              [FStr kind, FStr short, FStrs (map (maString lib) (aiAddrs ai)), FErr err])
            (slice16 (idString lib (aiID ai)))
      | None \<Rightarrow> Some (Infof ''Connected to %s peer: %s'' [FStr kind, FStr (idString lib (aiID ai))]))"

fun allConnected :: "(peerID \<Rightarrow> bool) \<Rightarrow> 'ma addrInfo list \<Rightarrow> bool" where
  "allConnected isConn [] = True"
| "allConnected isConn (ai # rest) = (if \<not> isConn (aiID ai) then False else allConnected isConn rest)"

fun reconnectDisconnected ::
  "'ma netLib \<Rightarrow> string \<Rightarrow> (peerID \<Rightarrow> bool) \<Rightarrow> 'ma addrInfo list \<Rightarrow> ('ma addrInfo list \<times> logline list) option" where
  "reconnectDisconnected lib kind isConn [] = Some ([], [])"
| "reconnectDisconnected lib kind isConn (ai # rest) =
     (if \<not> isConn (aiID ai) then
        (case slice16 (idString lib (aiID ai)) of
           None \<Rightarrow> None
         | Some short \<Rightarrow>
             map_option (\<lambda>(dials, logs). (ai # dials,
                 Infof ''%s peer %s disconnected, attempting reconnection'' [FStr kind, FStr short] # logs))
               (reconnectDisconnected lib kind isConn rest))
      else reconnectDisconnected lib kind isConn rest)"

text \<open>What the goroutine of one redial logs.\<close>

definition redialLog :: "'ma netLib \<Rightarrow> string \<Rightarrow> 'ma addrInfo \<Rightarrow> goerror option \<Rightarrow> logline option" where
  "redialLog lib kind ai result =
     map_option (\<lambda>short.
         (case result of
            Some err \<Rightarrow> Warnf ''Failed to reconnect to %s peer %s: %v'' [FStr kind, FStr short, FErr err]
          | None \<Rightarrow> Infof ''Successfully reconnected to %s peer %s'' [FStr kind, FStr short]))
       (slice16 (idString lib (aiID ai)))"

text \<open>
  The events of \<open>maintainPeerSet\<close>: the context is done, the two fast minutes are over, a tick of the
  five-second ticker (with who is connected when \<open>allConnected\<close> looks and when
  \<open>reconnectDisconnected\<close> does), a tick of the thirty-second ticker.
\<close>

datatype maintainEvent =
    CtxDone
  | FastPhaseEnd
  | FastTick "peerID \<Rightarrow> bool" "peerID \<Rightarrow> bool"
  | SlowTick "peerID \<Rightarrow> bool"

datatype maintainPhase = FastPhase | SlowPhase | Stopped

text \<open>One turn of the loops.  A stopped ticker delivers nothing, so its events do not occur.\<close>

fun maintainTurn ::
  "'ma netLib \<Rightarrow> string \<Rightarrow> 'ma addrInfo list \<Rightarrow> maintainPhase \<Rightarrow> maintainEvent
     \<Rightarrow> (maintainPhase \<times> 'ma addrInfo list \<times> logline list) option" where
  "maintainTurn lib kind peers FastPhase CtxDone = Some (Stopped, [], [])"
| "maintainTurn lib kind peers FastPhase FastPhaseEnd = Some (SlowPhase, [], [])"
| "maintainTurn lib kind peers FastPhase (FastTick c1 c2) =
     (if allConnected c1 peers
      then Some (SlowPhase, [], [Infof ''All %s peers connected, switching to maintenance mode'' [FStr kind]])
      else map_option (\<lambda>(dials, logs). (FastPhase, dials, logs)) (reconnectDisconnected lib kind c2 peers))"
| "maintainTurn lib kind peers SlowPhase CtxDone =
     Some (Stopped, [], [Infof ''%s peer maintenance stopping'' [FStr kind]])"
| "maintainTurn lib kind peers SlowPhase (SlowTick c) =
     map_option (\<lambda>(dials, logs). (SlowPhase, dials, logs)) (reconnectDisconnected lib kind c peers)"
| "maintainTurn lib kind peers ph ev = Some (ph, [], [])"

fun maintainLoop ::
  "'ma netLib \<Rightarrow> string \<Rightarrow> 'ma addrInfo list \<Rightarrow> maintainPhase \<Rightarrow> maintainEvent list
     \<Rightarrow> ('ma addrInfo list \<times> logline list) list option" where
  "maintainLoop lib kind peers ph [] = Some []"
| "maintainLoop lib kind peers ph (ev # evs) =
     (if ph = Stopped then Some []
      else
        (case maintainTurn lib kind peers ph ev of
           None \<Rightarrow> None
         | Some (ph', dials, logs) \<Rightarrow>
             map_option ((#) (dials, logs)) (maintainLoop lib kind peers ph' evs)))"

definition maintainPeerSet ::
  "'ma netLib \<Rightarrow> string \<Rightarrow> 'ma addrInfo list \<Rightarrow> maintainEvent list \<Rightarrow> ('ma addrInfo list \<times> logline list) list option" where
  "maintainPeerSet lib kind peers evs =
     (if length peers = 0 then Some [([], [Debugf ''No %s peers to maintain'' [FStr kind]])]
      else
        map_option ((#) ([], [Infof ''Starting %s peer maintenance for %d peers'' [FStr kind, FInt (int (length peers))]]))
          (maintainLoop lib kind peers FastPhase evs))"

section \<open>Discovery\<close>

text \<open>\<open>ks\<close> is the order of the range over \<open>c.topics\<close>; \<open>adv\<close> what \<open>Advertise\<close> answers.\<close>

definition advertiseTopics :: "(string \<Rightarrow> goerror option) \<Rightarrow> string list \<Rightarrow> logline list" where
  "advertiseTopics adv ks =
     map (\<lambda>topic. case adv topic of
        Some err \<Rightarrow> Warnf ''Failed to advertise topic %s: %v'' [FStr topic, FErr err]
      | None \<Rightarrow> Infof ''Announcing presence on DHT for topic: %s'' [FStr topic]) ks"

text \<open>\<open>waitForDHTAndAdvertise\<close>: \<open>Some n\<close> is a tick at which the routing table has \<open>n\<close> peers.\<close>

datatype waitEvent = WaitDone | WaitTimeout | WaitTick nat

fun waitForDHTAndAdvertise ::
  "bool \<Rightarrow> bool \<Rightarrow> (string \<Rightarrow> goerror option) \<Rightarrow> string list \<Rightarrow> waitEvent list \<Rightarrow> logline list" where
  "waitForDHTAndAdvertise enableMDNS hasDHT adv ks [] = []"
| "waitForDHTAndAdvertise enableMDNS hasDHT adv ks (WaitDone # evs) = []"
| "waitForDHTAndAdvertise enableMDNS hasDHT adv ks (WaitTimeout # evs) =
     (if enableMDNS then [Infof ''Timeout waiting for DHT peers - will rely on mDNS and peer cache'' []]
      else [Infof ''Timeout waiting for DHT peers - will rely on peer cache'' []])"
| "waitForDHTAndAdvertise enableMDNS hasDHT adv ks (WaitTick n # evs) =
     (if hasDHT \<and> 0 < n then advertiseTopics adv ks
      else waitForDHTAndAdvertise enableMDNS hasDHT adv ks evs)"

definition connectToDiscoveredPeer ::
  "(goerror \<Rightarrow> string) \<Rightarrow> 'ma netLib \<Rightarrow> peerID \<Rightarrow> ('ma addrInfo \<Rightarrow> goerror option) \<Rightarrow> 'ma addrInfo
     \<Rightarrow> 'ma addrInfo list \<times> logline list" where
  "connectToDiscoveredPeer errText lib self dial ai =
     (if aiID ai = self \<or> length (aiAddrs ai) = 0 then ([], [])
      else
        (case dial ai of
           Some err \<Rightarrow>
             ([ai], if shouldLogConnectionError errText err
                    then [Debugf ''Failed to connect to discovered peer %s: %v'' [FStr (idString lib (aiID ai)), FErr err]]
                    else [])
         | None \<Rightarrow> ([ai], [])))"

text \<open>The loop ends at the ten-second timeout, at cancellation, or when the channel is closed.\<close>

datatype 'ma discoveryEvent = DiscDone | DiscPeer "'ma addrInfo" | DiscClosed

fun processPeerDiscovery ::
  "(goerror \<Rightarrow> string) \<Rightarrow> 'ma netLib \<Rightarrow> peerID \<Rightarrow> ('ma addrInfo \<Rightarrow> goerror option) \<Rightarrow> 'ma discoveryEvent list
     \<Rightarrow> 'ma addrInfo list \<times> logline list" where
  "processPeerDiscovery errText lib self dial [] = ([], [])"
| "processPeerDiscovery errText lib self dial (DiscDone # evs) = ([], [])"
| "processPeerDiscovery errText lib self dial (DiscClosed # evs) = ([], [])"
| "processPeerDiscovery errText lib self dial (DiscPeer ai # evs) =
     (case connectToDiscoveredPeer errText lib self dial ai of (dials, logs) \<Rightarrow>
        (case processPeerDiscovery errText lib self dial evs of (dials', logs') \<Rightarrow> (dials @ dials', logs @ logs')))"

text \<open>The searches started: the topics \<open>FindPeers\<close> does not fail for, each with its goroutine.\<close>

fun findAndConnectPeers :: "(string \<Rightarrow> bool) \<Rightarrow> string list \<Rightarrow> string list" where
  "findAndConnectPeers findOK [] = []"
| "findAndConnectPeers findOK (topic # rest) =
     (if \<not> findOK topic then findAndConnectPeers findOK rest else topic # findAndConnectPeers findOK rest)"

datatype discoverEvent = DoneEvent | NowEvent | TickEvent
datatype discoverAction = Advertise | FindConnect

fun discoverLoop :: "discoverEvent list \<Rightarrow> discoverAction list" where
  "discoverLoop [] = []"
| "discoverLoop (DoneEvent # evs) = []"
| "discoverLoop (NowEvent # evs) = Advertise # FindConnect # discoverLoop evs"
| "discoverLoop (TickEvent # evs) = FindConnect # discoverLoop evs"

definition discoverPeers :: "bool \<Rightarrow> discoverEvent list \<Rightarrow> discoverAction list" where
  "discoverPeers runImmediately evs = (if runImmediately then [FindConnect] else []) @ discoverLoop evs"

text \<open>The mDNS callback.\<close>

definition HandlePeerFound ::
  "'ma netLib \<Rightarrow> peerID \<Rightarrow> ('ma addrInfo \<Rightarrow> goerror option) \<Rightarrow> 'ma addrInfo \<Rightarrow> 'ma addrInfo list \<times> logline list" where
  "HandlePeerFound lib self dial ai =
     (if self = aiID ai then ([], [])
      else
        (case dial ai of
           None \<Rightarrow> ([ai], [Infof ''Connected to peer: %s'' [FStr (idString lib (aiID ai))]])
         | Some err \<Rightarrow> ([ai], [])))"

section \<open>Topic connection callbacks\<close>

text \<open>
  The \<open>NotifyBundle\<close> a subscription installs.  \<open>ConnectedF\<close>, half a second after a connection: tag the
  peer if it is on the topic by then, log it and save the cache; \<open>DisconnectedF\<close>: untag it.
\<close>

datatype tagOp = TagPeer peerID string int | UntagPeer peerID string | SaveCache

definition connectedF ::
  "'ma netLib \<Rightarrow> peerTracker \<Rightarrow> string \<Rightarrow> peerID list \<Rightarrow> peerID \<Rightarrow> 'ma \<Rightarrow> tagOp list \<times> logline list" where
  "connectedF lib pt topic onTopic p remoteAddr =
     (if p \<in> set onTopic then
        ([TagPeer p (''topic:'' @ topic) 100, SaveCache],
         [Debugf ''Tagged topic peer %s for protection'' [FStr (idString lib p)],
          Infof ''[CONNECTED] Topic peer %s [%s] %s'' [FStr (idString lib p), FStr (getName pt p), FStr (maString lib remoteAddr)]])
      else ([], []))"

definition disconnectedF ::
  "'ma netLib \<Rightarrow> string \<Rightarrow> peerID list \<Rightarrow> peerID \<Rightarrow> (tagOp list \<times> logline list) option" where
  "disconnectedF lib topic onTopic p =
     (if p \<in> set onTopic then
        map_option (\<lambda>short. ([UntagPeer p (''topic:'' @ topic)],
            [Infof ''[DISCONNECTED] Lost connection to topic peer %s'' [FStr short]]))
          (slice16 (idString lib p))
      else Some ([], []))"

section \<open>Lemmas\<close>

lemma allConnected_iff: "allConnected isConn peers = list_all (isConn \<circ> aiID) peers"
  by (induction peers) auto

definition sliceable :: "'ma netLib \<Rightarrow> 'ma addrInfo list \<Rightarrow> bool" where
  "sliceable lib peers \<longleftrightarrow> list_all (\<lambda>ai. 16 \<le> length (idString lib (aiID ai))) peers"

lemma reconnect_dials:
  "sliceable lib peers \<Longrightarrow>
     \<exists>logs. reconnectDisconnected lib kind isConn peers = Some (filter (\<lambda>ai. \<not> isConn (aiID ai)) peers, logs)"
  by (induction peers) (auto simp: sliceable_def slice16_def)

text \<open>The peers a turn in a given phase dials.\<close>

fun dueDials :: "'ma addrInfo list \<Rightarrow> maintainPhase \<Rightarrow> maintainEvent \<Rightarrow> 'ma addrInfo list" where
  "dueDials peers FastPhase (FastTick c1 c2) =
     (if list_all (c1 \<circ> aiID) peers then [] else filter (\<lambda>ai. \<not> c2 (aiID ai)) peers)"
| "dueDials peers SlowPhase (SlowTick c) = filter (\<lambda>ai. \<not> c (aiID ai)) peers"
| "dueDials peers ph ev = []"

fun nextPhase :: "'ma addrInfo list \<Rightarrow> maintainPhase \<Rightarrow> maintainEvent \<Rightarrow> maintainPhase" where
  "nextPhase peers FastPhase FastPhaseEnd = SlowPhase"
| "nextPhase peers FastPhase (FastTick c1 c2) = (if list_all (c1 \<circ> aiID) peers then SlowPhase else FastPhase)"
| "nextPhase peers ph CtxDone = Stopped"
| "nextPhase peers ph ev = ph"

fun dueRun :: "'ma addrInfo list \<Rightarrow> maintainPhase \<Rightarrow> maintainEvent list \<Rightarrow> 'ma addrInfo list list" where
  "dueRun peers Stopped evs = []"
| "dueRun peers ph [] = []"
| "dueRun peers ph (ev # evs) = dueDials peers ph ev # dueRun peers (nextPhase peers ph ev) evs"

lemma maintainTurn_dials:
  assumes "sliceable lib peers" and "ph \<noteq> Stopped"
  shows "\<exists>logs. maintainTurn lib kind peers ph ev = Some (nextPhase peers ph ev, dueDials peers ph ev, logs)"
proof -
  obtain L where "reconnectDisconnected lib kind c peers = Some (filter (\<lambda>ai. \<not> c (aiID ai)) peers, L c)" for c
    using reconnect_dials [OF assms(1), of kind] by metis
  then show ?thesis using assms(2) by (cases ph; cases ev) (simp_all add: allConnected_iff)
qed

lemma maintainLoop_dials:
  assumes "sliceable lib peers"
  shows "map_option (map fst) (maintainLoop lib kind peers ph evs) = Some (dueRun peers ph evs)"
proof (induction evs arbitrary: ph)
  case Nil
  then show ?case by (cases ph) simp_all
next
  case (Cons ev evs)
  show ?case
  proof (cases "ph = Stopped")
    case False
    obtain logs where "maintainTurn lib kind peers ph ev = Some (nextPhase peers ph ev, dueDials peers ph ev, logs)"
      using maintainTurn_dials [OF assms False] by blast
    moreover have "dueRun peers ph (ev # evs) = dueDials peers ph ev # dueRun peers (nextPhase peers ph ev) evs"
      using False by (cases ph) simp_all
    ultimately show ?thesis using Cons [of "nextPhase peers ph ev"] False
      by (auto simp: option.map_comp comp_def)
  qed simp
qed

section \<open>Properties\<close>

text \<open>C29. The reconnect loop of a managed pool, over any sequence of events: until every peer is connected
  or two minutes are over each five-second tick redials exactly the peers that are not connected,
  from then on each thirty-second tick does, and nothing is dialed once the context is done.\<close>

theorem maintain_redials:
  assumes "sliceable lib peers" and "peers \<noteq> []"
  shows "map_option (map fst) (maintainPeerSet lib kind peers evs) = Some ([] # dueRun peers FastPhase evs)"
  using maintainLoop_dials [OF assms(1), of kind FastPhase evs] assms(2)
  by (auto simp: maintainPeerSet_def option.map_comp comp_def)

definition longPeer :: "string addrInfo" where
  "longPeer = \<lparr>aiID = somePeer, aiAddrs = [''/ip4/1.2.3.4'']\<rparr>"

lemma maintain_redials_witness:
  "map_option (map fst) (maintainPeerSet wireLib ''static'' [longPeer]
     [FastTick (\<lambda>p. False) (\<lambda>p. False), FastTick (\<lambda>p. True) (\<lambda>p. True), SlowTick (\<lambda>p. False), CtxDone, SlowTick (\<lambda>p. False)])
   = Some [[], [longPeer], [], [longPeer], []]"
proof -
  have "sliceable wireLib [longPeer]"
    by (simp add: sliceable_def longPeer_def wireLib_def textLib_def somePeer_def)
  then show ?thesis by (simp add: maintain_redials)
qed

text \<open>A managed peer whose ID prints in fewer than 16 characters takes the process down: the goroutine
  that reports a failed startup dial panics, and so does the first tick that finds it disconnected.\<close>

lemma short_id_panics:
  assumes "length (idString lib (aiID ai)) < 16" and "\<not> c2 (aiID ai)" and "\<not> c1 (aiID ai)"
  shows "managedDialLog lib kind ai (Some err) = None \<and> maintainPeerSet lib kind [ai] (FastTick c1 c2 # evs) = None"
  using assms by (simp add: managedDialLog_def maintainPeerSet_def slice16_def)

lemma short_id_panics_witness:
  "maintainPeerSet textLib ''static'' [\<lparr>aiID = ''11'', aiAddrs = []\<rparr>] (FastTick (\<lambda>p. False) (\<lambda>p. False) # []) = None"
  using short_id_panics [of textLib "\<lparr>aiID = ''11'', aiAddrs = []\<rparr>" "\<lambda>p. False" "\<lambda>p. False" "''static''" EOF "[]"]
  by (simp add: textLib_def)

text \<open>Discovery never dials this node or a peer without addresses, dials every other peer it is
  handed before it ends, and keeps quiet about exactly the dial errors that mention one of the
  five expected causes.\<close>

fun handed :: "'ma discoveryEvent list \<Rightarrow> 'ma addrInfo list" where
  "handed (DiscPeer ai # evs) = ai # handed evs"
| "handed evs = []"

lemma containsNone_iff: "containsNone s xs = list_all (\<lambda>x. \<not> stringsContains s x) xs"
  by (induction xs) auto

lemma discovery_exact:
  "fst (processPeerDiscovery errText lib self dial evs) =
     filter (\<lambda>ai. aiID ai \<noteq> self \<and> aiAddrs ai \<noteq> []) (handed evs)
   \<and> snd (processPeerDiscovery errText lib self dial evs) =
     concat (map (\<lambda>ai. case dial ai of
         None \<Rightarrow> []
       | Some err \<Rightarrow> if list_all (\<lambda>x. \<not> stringsContains (errText err) x) ignoredErrors
                    then [Debugf ''Failed to connect to discovered peer %s: %v'' [FStr (idString lib (aiID ai)), FErr err]]
                    else [])
       (filter (\<lambda>ai. aiID ai \<noteq> self \<and> aiAddrs ai \<noteq> []) (handed evs)))"
proof (induction errText lib self dial evs rule: processPeerDiscovery.induct)
  case (4 errText lib self dial ai evs)
  then show ?case
    by (auto simp: connectToDiscoveredPeer_def shouldLogConnectionError_def containsNone_iff
        split: prod.splits option.splits)
qed simp_all

end
