(* ===== verification/Setup.thy ===== *)
theory Setup
  imports Scoring ResLimits PeerCache Maintain
begin

text \<open>
  Starting a client (src/client.go): \<open>NewClient\<close> and its helpers.  The result is the client or an
  error, the effects in the order in which the code causes them (the context cancelled, the host,
  the DHT and pubsub created and closed, dials, handlers, goroutines), and the log.  The libraries'
  constructors are what the record \<open>platform\<close> answers.
\<close>

section \<open>Options and effects\<close>

datatype ('key, 'ma, 'mgr, 'net) hostOption =
    Identity 'key
  | TCPTransport
  | ConnectionManager int int duration
  | ConnectionGater "'net list"
  | AddrsFactory "'ma list"
  | ResourceManager 'mgr
  | ListenAddrStrings "string list"
  | NATPortMap
  | EnableNATService
  | EnableHolePunching
  | EnableRelay
  | EnableAutoRelay "'ma addrInfo list"
  | ProtocolVersionOpt string

datatype dhtMode = ModeServer | ModeClient

datatype 'ma dhtOption =
    DHTModeOpt dhtMode
  | DHTBootstrapPeers "'ma addrInfo list"
  | ProviderCleanupInterval duration

datatype ('key, 'ma, 'mgr, 'net) effect =
    Cancel
  | NewHost "('key, 'ma, 'mgr, 'net) hostOption list"
  | HostClose
  | NewDHT "'ma dhtOption list"
  | DHTClose
  | NewGossipSub "'ma psOption list"
  | MdnsStart
  | MdnsClose
  | TopicClose string
  | Dial string "'ma addrInfo list"
  | DialCached "('ma addrInfo \<times> string) list"
  | SetStreamHandler string
  | GoMaintain string "'ma addrInfo list"
  | GoWaitForDHT
  | GoDiscover bool
  | GoAttemptDirect

record hostInfo =
  hiID :: peerID
  hiAddrs :: "string list"
  hiLimits :: "int list option"

record ('key, 'ma, 'eff, 'mgr, 'net) platform =
  plNet :: "'ma netLib"
  plIDFromPrivateKey :: "'key \<Rightarrow> goerror + peerID"
  plConnManager :: "int \<Rightarrow> int \<Rightarrow> duration \<Rightarrow> goerror option"
  plGater :: "goerror option"
  plParseCIDR :: "string \<Rightarrow> goerror + 'net"
  plBlockSubnet :: "'net \<Rightarrow> goerror option"
  plRcmgr :: "('eff, 'mgr) rcmgrLib"
  plNewHost :: "('key, 'ma, 'mgr, 'net) hostOption list \<Rightarrow> goerror + hostInfo"
  plNewDHT :: "'ma dhtOption list \<Rightarrow> goerror option"
  plBootstrap :: "goerror option"
  plGossipSub :: "'ma psOption list \<Rightarrow> goerror option"
  plMdnsStart :: "goerror option"

text \<open>A stage of the start: its result, its effects, its log.  A failed stage ends the start.\<close>

type_synonym ('a, 'e) stage = "(goerror + 'a) \<times> 'e list \<times> logline list"

definition andThen :: "('a, 'e) stage \<Rightarrow> ('a \<Rightarrow> ('b, 'e) stage) \<Rightarrow> ('b, 'e) stage" where
  "andThen m f =
     (case m of
        (Inl err, es, ls) \<Rightarrow> (Inl err, es, ls)
      | (Inr x, es, ls) \<Rightarrow> (case f x of (r, es', ls') \<Rightarrow> (r, es @ es', ls @ ls')))"

definition failWith :: "goerror \<Rightarrow> 'e list \<Rightarrow> ('a, 'e) stage" where
  "failWith err es = (Inl err, es, [])"

definition logged :: "'a \<Rightarrow> logline list \<Rightarrow> ('a, 'e) stage" where
  "logged x ls = (Inr x, [], ls)"

definition doing :: "'e list \<Rightarrow> (unit, 'e) stage" where
  "doing es = (Inr (), es, [])"

section \<open>Before the host\<close>

definition ErrNameRequired :: goerror where "ErrNameRequired = NewErr ''config.Name is required''"
definition ErrPrivateKeyRequired :: goerror where "ErrPrivateKeyRequired = NewErr ''config.PrivateKey is required''"

definition bootstrapPeerKind :: string where "bootstrapPeerKind = ''bootstrap''"
definition staticPeerKind :: string where "staticPeerKind = ''static''"

definition getLogger :: "'key config \<Rightarrow> logline list" where
  "getLogger config = (if \<not> LoggerSet config then [Debugf ''Using default logger'' []] else [])"

definition peerAddressExchangeSettings :: "(rune \<Rightarrow> bool) \<Rightarrow> 'key config \<Rightarrow> duration \<times> logline list" where
  "peerAddressExchangeSettings uni config =
     (let seen = sanitizePeerName uni (Name config);
          logs = (if seen \<noteq> Name config
            then [Warnf ''Config.Name %q will be seen by peers as %q (names are limited to %d printable bytes)''
                    [FStr (Name config), FStr seen, FInt (int maxPeerNameLen)]]
            else [])
      in (if 0 < cfgPeerAddressStreamTimeout config then cfgPeerAddressStreamTimeout config
          else peerAddressStreamTimeout, logs))"

definition resolveAllowlist ::
  "('key, 'ma, 'eff, 'mgr, 'net) platform \<Rightarrow> 'key config \<Rightarrow> 'key \<Rightarrow> gotime
     \<Rightarrow> (peerAllowlist, ('key, 'ma, 'mgr, 'net) effect) stage" where
  "resolveAllowlist pl config key now =
     (case plIDFromPrivateKey pl key of
        Inl err \<Rightarrow> failWith (FmtErrorf ''failed to derive peer ID from private key: %w'' [FWrap err]) [Cancel]
      | Inr selfID \<Rightarrow>
          (case newPeerAllowlist (plNet pl) config selfID now of
             (Inl err, logs) \<Rightarrow> (Inl err, [Cancel], logs)
           | (Inr allowlist, logs) \<Rightarrow> logged allowlist logs))"

definition privateRanges :: "string list" where
  "privateRanges = [''10.0.0.0/8'', ''172.16.0.0/12'', ''192.168.0.0/16'', ''127.0.0.0/8'', ''169.254.0.0/16'',
     ''100.64.0.0/10'', ''fc00::/7'', ''fe80::/10'', ''::1/128'']"

text \<open>The loop over the ranges: the subnets blocked so far, in order.\<close>

fun blockRanges ::
  "('key, 'ma, 'eff, 'mgr, 'net) platform \<Rightarrow> string list \<Rightarrow> 'net list
     \<Rightarrow> ('net list, ('key, 'ma, 'mgr, 'net) effect) stage" where
  "blockRanges pl [] blocked = logged blocked []"
| "blockRanges pl (cidr # rest) blocked =
     (case plParseCIDR pl cidr of
        Inl err \<Rightarrow> failWith (FmtErrorf ''failed to parse CIDR %s: %w'' [FStr cidr, FWrap err]) [Cancel]
      | Inr ipnet \<Rightarrow>
          (case plBlockSubnet pl ipnet of
             Some err \<Rightarrow>
               andThen (logged () [Warnf ''Failed to block subnet %s: %v'' [FStr cidr, FErr err]])
                 (\<lambda>u. blockRanges pl rest blocked)
           | None \<Rightarrow> blockRanges pl rest (blocked @ [ipnet])))"

definition createPrivateIPConnectionGater ::
  "('key, 'ma, 'eff, 'mgr, 'net) platform \<Rightarrow> ('net list, ('key, 'ma, 'mgr, 'net) effect) stage" where
  "createPrivateIPConnectionGater pl =
     (case plGater pl of
        Some err \<Rightarrow> failWith (FmtErrorf ''failed to create connection gater: %w'' [FWrap err]) [Cancel]
      | None \<Rightarrow> blockRanges pl privateRanges [])"

fun announceLoop ::
  "'ma netLib \<Rightarrow> string list \<Rightarrow> 'ma list \<Rightarrow> ('ma list, ('key, 'ma, 'mgr, 'net) effect) stage" where
  "announceLoop lib [] acc = logged acc []"
| "announceLoop lib (addrStr # rest) acc =
     (case newMultiaddr lib addrStr of
        Inl err \<Rightarrow> failWith (FmtErrorf ''invalid announce address %s: %w'' [FStr addrStr, FWrap err]) [Cancel]
      | Inr maddr \<Rightarrow> announceLoop lib rest (acc @ [maddr]))"

definition gaterOptions ::
  "('key, 'ma, 'eff, 'mgr, 'net) platform \<Rightarrow> 'key config
     \<Rightarrow> (('key, 'ma, 'mgr, 'net) hostOption list, ('key, 'ma, 'mgr, 'net) effect) stage" where
  "gaterOptions pl config =
     (if \<not> AllowPrivateIPs config then
        andThen (createPrivateIPConnectionGater pl)
          (\<lambda>ipFilter. logged [ConnectionGater ipFilter]
             [Infof ''Private IP connection gater enabled (blocking RFC1918 and local addresses)'' []])
      else logged [] [])"

definition announceOptions ::
  "('key, 'ma, 'eff, 'mgr, 'net) platform \<Rightarrow> 'key config
     \<Rightarrow> (('key, 'ma, 'mgr, 'net) hostOption list, ('key, 'ma, 'mgr, 'net) effect) stage" where
  "announceOptions pl config =
     (if 0 < length (AnnounceAddrs config) then
        andThen (announceLoop (plNet pl) (AnnounceAddrs config) [])
          (\<lambda>addrs. logged [AddrsFactory addrs]
             [Infof ''Using custom announce addresses: %v'' [FStrs (AnnounceAddrs config)]])
      else logged [] [])"

definition buildHostOptions ::
  "('key, 'ma, 'eff, 'mgr, 'net) platform \<Rightarrow> 'key config \<Rightarrow> 'key
     \<Rightarrow> (('key, 'ma, 'mgr, 'net) hostOption list, ('key, 'ma, 'mgr, 'net) effect) stage" where
  "buildHostOptions pl config key =
     (case connManagerSettings config of
        (minConns, maxConns, gracePeriod) \<Rightarrow>
          andThen (logged () [Infof ''Configured TCP-only transport (WebRTC disabled to prevent mDNS)'' []]) (\<lambda>u.
          andThen
            (case plConnManager pl minConns maxConns gracePeriod of
               Some err \<Rightarrow> failWith (FmtErrorf ''failed to create connection manager: %w'' [FWrap err]) [Cancel]
             | None \<Rightarrow> logged () [Infof ''Connection manager configured: min=%d, max=%d, grace=%v''
                                [FInt minConns, FInt maxConns, FDur gracePeriod]]) (\<lambda>u.
          andThen (gaterOptions pl config) (\<lambda>gater.
          andThen (announceOptions pl config) (\<lambda>announce.
            (case resourceManagerOptions (plRcmgr pl) (ResourceLimitsCfg config) maxConns of
               Inl err \<Rightarrow> failWith err [Cancel]
             | Inr mgrs \<Rightarrow>
                 logged ([Identity key, TCPTransport, ConnectionManager minConns maxConns gracePeriod]
                   @ gater @ announce @ map ResourceManager mgrs) []))))))"

section \<open>The host and the DHT\<close>

definition listenAddrs :: "int \<Rightarrow> string list" where
  "listenAddrs port = [''/ip4/0.0.0.0/tcp/'' @ intDec port, ''/ip6/::/tcp/'' @ intDec port]"

definition natOptions :: "'key config \<Rightarrow> ('key, 'ma, 'mgr, 'net) hostOption list \<times> logline list" where
  "natOptions config =
     (if EnableNAT config
      then ([NATPortMap, EnableNATService, EnableHolePunching],
            [Infof ''UPnP/NAT-PMP enabled (will scan local gateway for port mapping)'' []])
      else ([], [Infof ''UPnP/NAT-PMP disabled (production safe default)'' []]))"

definition createHost ::
  "('key, 'ma, 'eff, 'mgr, 'net) platform \<Rightarrow> ('key, 'ma, 'mgr, 'net) hostOption list \<Rightarrow> 'key config \<Rightarrow> 'ma addrInfo list
     \<Rightarrow> (hostInfo, ('key, 'ma, 'mgr, 'net) effect) stage" where
  "createHost pl hostOpts config relayPeers =
     (case natOptions config of
        (natOpts, natLogs) \<Rightarrow>
          (let opts = hostOpts @ [ListenAddrStrings (listenAddrs (Port config))] @ natOpts
                 @ [EnableRelay, EnableAutoRelay relayPeers]
                 @ (if ProtocolVersion config \<noteq> [] then [ProtocolVersionOpt (ProtocolVersion config)] else []) in
           case plNewHost pl opts of
             Inl err \<Rightarrow> (Inl (FmtErrorf ''failed to create host: %w'' [FWrap err]), [Cancel], natLogs)
           | Inr h \<Rightarrow>
               (Inr h, [NewHost opts],
                natLogs @ [Infof ''P2P Client created. ID: %s'' [FStr (idString (plNet pl) (hiID h))],
                           Infof ''Listening on: %v'' [FStrs (hiAddrs h)]]
                  @ logSystemLimits (hiLimits h))))"

definition dhtOptions :: "'key config \<Rightarrow> 'ma addrInfo list \<Rightarrow> 'ma dhtOption list \<times> logline list" where
  "dhtOptions config bootstrapPeers =
     (let (mode, modeLog) =
            (if DHTMode config = ''client''
             then (ModeClient, Infof ''DHT mode: client (query-only, no provider storage)'' [])
             else (ModeServer, Infof ''DHT mode: server (will advertise and store provider records)'' []));
          (cleanup, cleanupLog) =
            (if mode = ModeServer \<and> 0 < DHTCleanupInterval config
             then ([ProviderCleanupInterval (DHTCleanupInterval config)],
                   [Infof ''Configuring DHT cleanup interval: %v'' [FDur (DHTCleanupInterval config)]])
             else ([], []))
      in ([DHTModeOpt mode, DHTBootstrapPeers bootstrapPeers] @ cleanup, modeLog # cleanupLog))"

definition setupDHT ::
  "('key, 'ma, 'eff, 'mgr, 'net) platform \<Rightarrow> 'key config \<Rightarrow> 'ma addrInfo list
     \<Rightarrow> (bool, ('key, 'ma, 'mgr, 'net) effect) stage" where
  "setupDHT pl config bootstrapPeers =
     (case dhtOptions config bootstrapPeers of
        (opts, logs) \<Rightarrow>
          (case plNewDHT pl opts of
             Some err \<Rightarrow> (Inl (FmtErrorf ''failed to create DHT: %w'' [FWrap err]), [HostClose, Cancel], logs)
           | None \<Rightarrow>
               (case plBootstrap pl of
                  Some err \<Rightarrow> (Inl (FmtErrorf ''failed to bootstrap DHT: %w'' [FWrap err]),
                              [NewDHT opts, HostClose, Cancel], logs)
                | None \<Rightarrow> (Inr True, [NewDHT opts], logs))))"

text \<open>The result says whether there is a DHT.\<close>

definition initDHT ::
  "('key, 'ma, 'eff, 'mgr, 'net) platform \<Rightarrow> 'key config \<Rightarrow> 'ma addrInfo list
     \<Rightarrow> (bool, ('key, 'ma, 'mgr, 'net) effect) stage" where
  "initDHT pl config bootstrapPeers =
     (if DHTMode config = ''off''
      then logged False [Infof ''DHT mode: off (topic-only network, no DHT peer discovery)'' []]
      else setupDHT pl config bootstrapPeers)"

text \<open>The result says whether there is a service.\<close>

definition startMDNS ::
  "('key, 'ma, 'eff, 'mgr, 'net) platform \<Rightarrow> 'key config \<Rightarrow> (bool, ('key, 'ma, 'mgr, 'net) effect) stage" where
  "startMDNS pl config =
     (if \<not> EnableMDNS config
      then logged False [Infof ''mDNS discovery disabled (production safe default)'' []]
      else (Inr True, [MdnsStart],
            [case plMdnsStart pl of
               Some err \<Rightarrow> Errorf ''mDNS failed to start: %v'' [FErr err]
             | None \<Rightarrow> Infof ''mDNS discovery started'' []]))"

section \<open>NewClient\<close>

text \<open>
  The fields of the client that the start decides; the maps and counters start empty, with
  \<open>newPeerTracker\<close> and \<open>newPeerAddressLimiter\<close>.
\<close>

record 'ma clientInit =
  ciHost :: hostInfo
  ciHasDHT :: bool
  ciHasMDNS :: bool
  ciStreamTimeout :: duration
  ciTracker :: peerTracker
  ciLimiter :: peerAddressLimiter
  ciAllowlist :: peerAllowlist
  ciPubSub :: "'ma psOption list"

text \<open>Dialing the managed and cached peers, before pubsub exists.\<close>

definition dialInitialPeers ::
  "('key, 'ma, 'eff, 'mgr, 'net) platform \<Rightarrow> fileSystem \<Rightarrow> (peerID \<Rightarrow> bool) \<Rightarrow> 'key config \<Rightarrow> gotime
     \<Rightarrow> 'ma addrInfo list \<Rightarrow> 'ma addrInfo list \<Rightarrow> (unit, ('key, 'ma, 'mgr, 'net) effect) stage" where
  "dialInitialPeers pl fs isConn config now bootstrapPeers staticPeers =
     (let dialStatic = (if 0 < length staticPeers
            then ([Dial staticPeerKind (connectToManagedPeers staticPeers)],
                  [Infof ''Configured %d static peer(s)'' [FInt (int (length staticPeers))]])
            else ([], [])) in
      case loadAndConnectCachedPeers (plNet pl) isConn config fs now of
        (cached, cacheLogs) \<Rightarrow>
          (Inr (), [Dial bootstrapPeerKind (connectToManagedPeers bootstrapPeers)] @ fst dialStatic
             @ (if cached \<noteq> [] then [DialCached cached] else []),
           snd dialStatic @ cacheLogs))"

definition createPubSub ::
  "('key, 'ma, 'eff, 'mgr, 'net) platform \<Rightarrow> 'key config \<Rightarrow> paramStore \<Rightarrow> peerAllowlist \<Rightarrow> 'ma addrInfo list
     \<Rightarrow> ('ma psOption list, ('key, 'ma, 'mgr, 'net) effect) stage" where
  "createPubSub pl config st allowlist staticPeers =
     (case buildPubSubOptions (plNet pl) config st (Some allowlist) staticPeers of
        ((Inl err, st'), logs) \<Rightarrow>
          (Inl (FmtErrorf ''invalid pubsub configuration: %w'' [FWrap err]), [HostClose, Cancel], logs)
      | ((Inr psOpts, st'), logs) \<Rightarrow>
          (case plGossipSub pl psOpts of
             Some err \<Rightarrow> (Inl (FmtErrorf ''failed to create pubsub: %w'' [FWrap err]), [HostClose, Cancel], logs)
           | None \<Rightarrow> (Inr psOpts, [NewGossipSub psOpts], logs)))"

text \<open>The handlers and the background goroutines of a client that has started.\<close>

definition startBackground ::
  "'ma addrInfo list \<Rightarrow> 'ma addrInfo list \<Rightarrow> bool \<Rightarrow> (unit, ('key, 'ma, 'mgr, 'net) effect) stage" where
  "startBackground bootstrapPeers staticPeers hasDHT =
     (Inr (),
      [SetStreamHandler peerAddressRequestProtocol, SetStreamHandler peerAddressRequestProtocolV2,
       GoMaintain bootstrapPeerKind bootstrapPeers]
        @ (if 0 < length staticPeers then [GoMaintain staticPeerKind staticPeers] else [])
        @ (if hasDHT then [GoWaitForDHT, GoDiscover True] else [GoAttemptDirect]),
      Infof ''Peer address request protocol handler installed'' []
        # (if hasDHT then []
           else [Infof ''Skipping DHT discovery - peer discovery will happen via GossipSub topic mesh only'' [],
                 Infof ''Topic peer exchange enabled - will attempt direct connections to discovered peers'' []]))"

text \<open>Everything from the creation of the host on.\<close>

definition startHost ::
  "('key, 'ma, 'eff, 'mgr, 'net) platform \<Rightarrow> fileSystem \<Rightarrow> (peerID \<Rightarrow> bool) \<Rightarrow> 'key config \<Rightarrow> paramStore
     \<Rightarrow> gotime \<Rightarrow> duration \<Rightarrow> peerAllowlist \<Rightarrow> 'ma addrInfo list \<Rightarrow> 'ma addrInfo list \<Rightarrow> 'ma addrInfo list
     \<Rightarrow> ('key, 'ma, 'mgr, 'net) hostOption list \<Rightarrow> ('ma clientInit, ('key, 'ma, 'mgr, 'net) effect) stage" where
  "startHost pl fs isConn config st now streamTimeout allowlist staticPeers bootstrapPeers relayPeers hostOpts =
     andThen (createHost pl hostOpts config relayPeers) (\<lambda>h.
     andThen (initDHT pl config bootstrapPeers) (\<lambda>hasDHT.
     andThen (dialInitialPeers pl fs isConn config now bootstrapPeers staticPeers) (\<lambda>u.
     andThen (createPubSub pl config st allowlist staticPeers) (\<lambda>psOpts.
     andThen (startMDNS pl config) (\<lambda>hasMDNS.
     andThen (startBackground bootstrapPeers staticPeers hasDHT) (\<lambda>u.
       logged \<lparr>ciHost = h, ciHasDHT = hasDHT, ciHasMDNS = hasMDNS, ciStreamTimeout = streamTimeout,
         ciTracker = newPeerTracker, ciLimiter = newPeerAddressLimiter, ciAllowlist = allowlist,
         ciPubSub = psOpts\<rparr> []))))))"

text \<open>
  \<open>testMode\<close> is \<open>testing.Testing()\<close>; \<open>st\<close> holds the caller's scoring parameters, \<open>fs\<close> the files, \<open>isConn\<close> who is
  connected when the cached peers are dialed.
\<close>

definition NewClient ::
  "(rune \<Rightarrow> bool) \<Rightarrow> ('key, 'ma, 'eff, 'mgr, 'net) platform \<Rightarrow> fileSystem \<Rightarrow> (peerID \<Rightarrow> bool) \<Rightarrow> bool
     \<Rightarrow> paramStore \<Rightarrow> gotime \<Rightarrow> 'key config \<Rightarrow> ('ma clientInit, ('key, 'ma, 'mgr, 'net) effect) stage" where
  "NewClient uni pl fs isConn testMode st now config =
     (if Name config = [] then failWith ErrNameRequired []
      else
        (case peerAddressExchangeSettings uni config of
           (streamTimeout, nameLogs) \<Rightarrow>
             andThen (logged () (getLogger config @ nameLogs)) (\<lambda>u.
               (case PrivateKey config of
                  None \<Rightarrow> failWith ErrPrivateKeyRequired [Cancel]
                | Some key \<Rightarrow>
                    (case parsePeerMultiaddrs (plNet pl) (StaticPeers config) of
                       (staticPeers, staticLogs) \<Rightarrow>
                         andThen (logged () staticLogs) (\<lambda>u.
                         andThen (resolveAllowlist pl config key now) (\<lambda>allowlist.
                         andThen (buildHostOptions pl config key) (\<lambda>hostOpts.
                           (case getBootstrapAndRelayPeers (plNet pl) config testMode of
                              ((bootstrapPeers, relayPeers), peerLogs) \<Rightarrow>
                                andThen (logged () peerLogs) (\<lambda>u.
                                  startHost pl fs isConn config st now streamTimeout allowlist
                                    staticPeers bootstrapPeers relayPeers hostOpts))))))))))"

text \<open>
  The part of \<open>Close\<close> that releases what the client holds, once its readers are done: \<open>ks\<close> is the order
  of the range over the joined topics.
\<close>

definition closeServices :: "'ma clientInit \<Rightarrow> string list \<Rightarrow> ('key, 'ma, 'mgr, 'net) effect list" where
  "closeServices c ks =
     map TopicClose ks @ (if ciHasMDNS c then [MdnsClose] else []) @ (if ciHasDHT c then [DHTClose] else []) @ [HostClose]"

section \<open>What a stage can leave behind\<close>

text \<open>
  A failed start must end with the cancellation, with no host open and neither mDNS nor a handler or loop of the client
  started.  The DHT is not among this (see \<open>stillOpen\<close>).
\<close>

fun closedDown :: "bool \<Rightarrow> ('key, 'ma, 'mgr, 'net) effect list \<Rightarrow> bool" where
  "closedDown hostOpen [] = False"
| "closedDown hostOpen (Cancel # es) = (es = [] \<and> \<not> hostOpen)"
| "closedDown hostOpen (NewHost opts # es) = closedDown True es"
| "closedDown hostOpen (HostClose # es) = closedDown False es"
| "closedDown hostOpen (SetStreamHandler p # es) = False"
| "closedDown hostOpen (GoMaintain kind ps # es) = False"
| "closedDown hostOpen (GoWaitForDHT # es) = False"
| "closedDown hostOpen (GoDiscover b # es) = False"
| "closedDown hostOpen (GoAttemptDirect # es) = False"
| "closedDown hostOpen (MdnsStart # es) = False"
| "closedDown hostOpen (e # es) = closedDown hostOpen es"

definition failsWith :: "('e list \<Rightarrow> bool) \<Rightarrow> ('a, 'e) stage \<Rightarrow> bool" where
  "failsWith P m \<longleftrightarrow> (isl (fst m) \<longrightarrow> P (fst (snd m)))"

text \<open>A stage before the host exists: no effect but the cancellation that ends it.\<close>

definition quiet :: "('a, ('key, 'ma, 'mgr, 'net) effect) stage \<Rightarrow> bool" where
  "quiet m \<longleftrightarrow> fst (snd m) = (if isl (fst m) then [Cancel] else [])"

lemma quiet_simps [simp]:
  "quiet (logged x ls)" "quiet (failWith err [Cancel])" "quiet (Inl err, [Cancel], ls)"
  by (simp_all add: quiet_def logged_def failWith_def)

lemma stage_cases:
  obtains err es ls where "m = (Inl err, es, ls)" | x es ls where "m = (Inr x, es, ls)"
  by (metis prod_cases3 sum.exhaust)

lemma andThen_simps [simp]:
  "andThen (Inl err, es, ls) f = (Inl err, es, ls)"
  "andThen (Inr x, es, ls) f = (fst (f x), es @ fst (snd (f x)), ls @ snd (snd (f x)))"
  by (simp_all add: andThen_def case_prod_beta)

lemma quiet_andThen: "quiet m \<Longrightarrow> (\<And>x. quiet (f x)) \<Longrightarrow> quiet (andThen m f)"
  by (cases m rule: stage_cases) (auto simp: quiet_def)

lemma fails_quiet: "quiet m \<Longrightarrow> P [Cancel] \<Longrightarrow> (\<And>x. failsWith P (f x)) \<Longrightarrow> failsWith P (andThen m f)"
  by (cases m rule: stage_cases) (auto simp: quiet_def failsWith_def)

lemma fails_andThen:
  "failsWith P m \<Longrightarrow> (\<And>x es ls. m = (Inr x, es, ls) \<Longrightarrow> failsWith (\<lambda>es'. P (es @ es')) (f x)) \<Longrightarrow>
     failsWith P (andThen m f)"
  by (cases m rule: stage_cases) (auto simp: failsWith_def)

lemma quiet_resolveAllowlist: "quiet (resolveAllowlist pl config key now)"
  by (auto simp: resolveAllowlist_def split: sum.split prod.split)

lemma quiet_blockRanges: "quiet (blockRanges pl cidrs blocked)"
  by (induction cidrs arbitrary: blocked) (auto intro!: quiet_andThen split: sum.split option.split)

lemma quiet_announceLoop: "quiet (announceLoop lib addrs acc)"
  by (induction addrs arbitrary: acc) (auto split: sum.split)

lemma quiet_buildHostOptions: "quiet (buildHostOptions pl config key)"
  by (auto simp: buildHostOptions_def gaterOptions_def announceOptions_def createPrivateIPConnectionGater_def
      quiet_blockRanges quiet_announceLoop intro!: quiet_andThen split: prod.split sum.split option.split)

lemma startHost_fails:
  "failsWith (closedDown False)
     (startHost pl fs isConn config st now streamTimeout allowlist staticPeers bootstrapPeers relayPeers hostOpts)"
  unfolding startHost_def
proof (intro fails_andThen)
  show "failsWith (closedDown False) (createHost pl hostOpts config relayPeers)"
    by (auto simp: createHost_def failsWith_def Let_def split: prod.split sum.split)
next
  fix h es1 ls1 assume "createHost pl hostOpts config relayPeers = (Inr h, es1, ls1)"
  then obtain opts where es1: "es1 = [NewHost opts]"
    by (auto simp: createHost_def Let_def split: prod.splits sum.splits)
  show "failsWith (\<lambda>es'. closedDown False (es1 @ es')) (initDHT pl config bootstrapPeers)"
    by (auto simp: es1 initDHT_def setupDHT_def failsWith_def logged_def split: prod.split option.split)
  fix hasDHT es2 ls2 assume "initDHT pl config bootstrapPeers = (Inr hasDHT, es2, ls2)"
  then have es2: "closedDown False (es1 @ es2 @ es) = closedDown True es" for es
    by (auto simp: es1 initDHT_def setupDHT_def logged_def split: prod.splits option.splits if_splits)
  show "failsWith (\<lambda>es'. closedDown False (es1 @ es2 @ es'))
      (dialInitialPeers pl fs isConn config now bootstrapPeers staticPeers)"
    by (auto simp: dialInitialPeers_def failsWith_def Let_def split: prod.split)
  fix u es3 ls3 assume "dialInitialPeers pl fs isConn config now bootstrapPeers staticPeers = (Inr u, es3, ls3)"
  then have es3: "closedDown True (es3 @ es) = closedDown True es" for es
    by (auto simp: dialInitialPeers_def Let_def split: prod.splits if_splits)
  show "failsWith (\<lambda>es'. closedDown False (es1 @ es2 @ es3 @ es')) (createPubSub pl config st allowlist staticPeers)"
    by (auto simp: es2 es3 createPubSub_def failsWith_def split: prod.split sum.split option.split)
qed (auto simp: startMDNS_def startBackground_def logged_def failsWith_def)

lemma NewClient_fails:
  "Name config \<noteq> [] \<Longrightarrow> failsWith (closedDown False) (NewClient uni pl fs isConn testMode st now config)"
  by (auto simp: NewClient_def startHost_fails quiet_resolveAllowlist quiet_buildHostOptions
      failWith_def failsWith_def [of _ "(_, _)"] intro!: fails_quiet split: prod.split option.split)

section \<open>A start that succeeds\<close>

lemma andThen_Inr:
  "andThen m f = (Inr y, es, ls) \<longleftrightarrow>
     (\<exists>x es1 ls1 es2 ls2. m = (Inr x, es1, ls1) \<and> f x = (Inr y, es2, ls2) \<and> es = es1 @ es2 \<and> ls = ls1 @ ls2)"
  by (cases m rule: stage_cases; cases "f (projr (fst m))" rule: stage_cases) auto

lemma logged_Inr: "logged x l = (Inr y, es, ls) \<longleftrightarrow> y = x \<and> es = [] \<and> ls = l"
  by (auto simp: logged_def)

lemma failWith_Inr: "failWith err e \<noteq> (Inr y, es, ls)"
  by (simp add: failWith_def)

lemma quiet_Inr: "quiet m \<Longrightarrow> m = (Inr x, es, ls) \<Longrightarrow> es = []"
  by (simp add: quiet_def)

fun isNAT :: "('key, 'ma, 'mgr, 'net) hostOption \<Rightarrow> bool" where
  "isNAT NATPortMap = True"
| "isNAT EnableNATService = True"
| "isNAT EnableHolePunching = True"
| "isNAT _ = False"

fun isGater :: "('key, 'ma, 'mgr, 'net) hostOption \<Rightarrow> bool" where
  "isGater (ConnectionGater nets) = True"
| "isGater _ = False"

fun isDial :: "('key, 'ma, 'mgr, 'net) effect \<Rightarrow> bool" where
  "isDial (Dial kind ps) = True"
| "isDial (DialCached ds) = True"
| "isDial _ = False"

lemma gater_options:
  assumes "gaterOptions pl config = (Inr opts, es, ls)"
  shows "list_all (\<lambda>x. \<not> isNAT x) opts \<and> list_ex isGater opts = (\<not> AllowPrivateIPs config)"
  using assms by (auto simp: gaterOptions_def andThen_Inr logged_Inr split: if_splits)

lemma announce_options:
  assumes "announceOptions pl config = (Inr opts, es, ls)"
  shows "list_all (\<lambda>x. \<not> isNAT x \<and> \<not> isGater x) opts"
  using assms by (auto simp: announceOptions_def andThen_Inr logged_Inr split: if_splits)

lemma built_options:
  assumes "buildHostOptions pl config key = (Inr opts, es, ls)"
  shows "list_all (\<lambda>x. \<not> isNAT x) opts \<and> list_ex isGater opts = (\<not> AllowPrivateIPs config)"
proof -
  obtain g a es1 ls1 es2 ls2 mc xc gp mgrs where
    ga: "gaterOptions pl config = (Inr g, es1, ls1)" "announceOptions pl config = (Inr a, es2, ls2)"
    and opts: "opts = [Identity key, TCPTransport, ConnectionManager mc xc gp] @ g @ a @ map ResourceManager mgrs"
  proof -
    obtain mc xc gp where cm: "connManagerSettings config = (mc, xc, gp)" by (rule prod_cases3)
    show ?thesis
      using assms that by (cases "resourceManagerOptions (plRcmgr pl) (ResourceLimitsCfg config) xc")
        (auto simp: cm buildHostOptions_def andThen_Inr logged_Inr failWith_Inr split: option.splits)
  qed
  show ?thesis
    using gater_options [OF ga(1)] announce_options [OF ga(2)] by (auto simp: opts list_all_iff list_ex_iff)
qed

lemma created_host:
  assumes "createHost pl hostOpts config relayPeers = (Inr h, es, ls)" and "list_all (\<lambda>x. \<not> isNAT x) hostOpts"
  shows "\<exists>opts. es = [NewHost opts] \<and> list_ex isGater opts = list_ex isGater hostOpts
    \<and> filter isNAT opts = (if EnableNAT config then [NATPortMap, EnableNATService, EnableHolePunching] else [])"
proof -
  have "filter isNAT hostOpts = []" using assms(2) by (auto simp: list_all_iff filter_empty_conv)
  then show ?thesis using assms(1)
    by (auto simp: createHost_def natOptions_def Let_def split: sum.splits if_splits)
qed

lemma init_dht:
  assumes "initDHT pl config bootstrapPeers = (Inr hasDHT, es, ls)"
  shows "hasDHT = (DHTMode config \<noteq> ''off'')
    \<and> es = (if DHTMode config = ''off'' then [] else [NewDHT (fst (dhtOptions config bootstrapPeers))])"
  using assms by (auto simp: initDHT_def setupDHT_def logged_Inr split: if_splits prod.splits option.splits)

text \<open>The handlers and goroutines of a running client.\<close>

definition background ::
  "'key config \<Rightarrow> 'ma addrInfo list \<Rightarrow> 'ma addrInfo list \<Rightarrow> ('key, 'ma, 'mgr, 'net) effect list" where
  "background config bootstrapPeers staticPeers =
     [SetStreamHandler peerAddressRequestProtocol, SetStreamHandler peerAddressRequestProtocolV2,
      GoMaintain bootstrapPeerKind bootstrapPeers]
     @ (if staticPeers = [] then [] else [GoMaintain staticPeerKind staticPeers])
     @ (if DHTMode config = ''off'' then [GoAttemptDirect] else [GoWaitForDHT, GoDiscover True])"

lemma started_host:
  assumes "startHost pl fs isConn config st now streamTimeout allowlist staticPeers bootstrapPeers relayPeers hostOpts
      = (Inr c, es, ls)" and "list_all (\<lambda>x. \<not> isNAT x) hostOpts"
  shows "\<exists>opts dials psOpts.
      es = NewHost opts # (if DHTMode config = ''off'' then [] else [NewDHT (fst (dhtOptions config bootstrapPeers))])
        @ dials @ NewGossipSub psOpts # (if EnableMDNS config then [MdnsStart] else [])
        @ background config bootstrapPeers staticPeers
    \<and> list_all isDial dials
    \<and> list_ex isGater opts = list_ex isGater hostOpts
    \<and> filter isNAT opts = (if EnableNAT config then [NATPortMap, EnableNATService, EnableHolePunching] else [])
    \<and> ciHasDHT c = (DHTMode config \<noteq> ''off'') \<and> ciHasMDNS c = EnableMDNS config"
proof -
  obtain h es1 ls1 hasDHT es2 ls2 u es3 ls3 psOpts es4 ls4 hasMDNS es5 ls5 es6 ls6 where
    host: "createHost pl hostOpts config relayPeers = (Inr h, es1, ls1)"
    and dht: "initDHT pl config bootstrapPeers = (Inr hasDHT, es2, ls2)"
    and dial: "dialInitialPeers pl fs isConn config now bootstrapPeers staticPeers = (Inr u, es3, ls3)"
    and ps: "createPubSub pl config st allowlist staticPeers = (Inr psOpts, es4, ls4)"
    and mdns: "startMDNS pl config = (Inr hasMDNS, es5, ls5)"
    and bg: "startBackground bootstrapPeers staticPeers hasDHT = (Inr (), es6, ls6)"
    and es: "es = es1 @ es2 @ es3 @ es4 @ es5 @ es6" and c: "ciHasDHT c = hasDHT" "ciHasMDNS c = hasMDNS"
    using assms(1) unfolding startHost_def andThen_Inr logged_Inr by auto
  note dht' = init_dht [OF dht]
  have "list_all isDial es3"
    using dial by (auto simp: dialInitialPeers_def Let_def split: prod.splits if_splits)
  moreover have "es4 = [NewGossipSub psOpts]"
    using ps by (auto simp: createPubSub_def split: prod.splits sum.splits option.splits)
  moreover have "es5 = (if EnableMDNS config then [MdnsStart] else []) \<and> hasMDNS = EnableMDNS config"
    using mdns by (auto simp: startMDNS_def logged_Inr split: if_splits)
  moreover have "es6 = background config bootstrapPeers staticPeers"
    using bg dht' by (auto simp: startBackground_def background_def)
  ultimately show ?thesis
    using created_host [OF host assms(2)] dht' unfolding es c by (elim exE conjE) (intro exI conjI, auto)
qed

text \<open>A start is the stages before the host, then \<open>startHost\<close>.\<close>

lemma NewClient_Inr:
  assumes "NewClient uni pl fs isConn testMode st now config = (Inr c, es, ls)"
  shows "\<exists>timeout allowlist hostOpts key es0 ls0 ls1.
      PrivateKey config = Some key
    \<and> fst (resolveAllowlist pl config key now) = Inr allowlist
    \<and> buildHostOptions pl config key = (Inr hostOpts, es0, ls0)
    \<and> startHost pl fs isConn config st now timeout allowlist (fst (parsePeerMultiaddrs (plNet pl) (StaticPeers config)))
        (fst (fst (getBootstrapAndRelayPeers (plNet pl) config testMode)))
        (snd (fst (getBootstrapAndRelayPeers (plNet pl) config testMode))) hostOpts = (Inr c, es, ls1)"
proof -
  obtain timeout nameLogs where t: "peerAddressExchangeSettings uni config = (timeout, nameLogs)" by force
  obtain static staticLogs where sp: "parsePeerMultiaddrs (plNet pl) (StaticPeers config) = (static, staticLogs)" by force
  obtain boot relay peerLogs where b: "getBootstrapAndRelayPeers (plNet pl) config testMode = ((boot, relay), peerLogs)"
    by (metis prod.exhaust)
  obtain key allowlist hostOpts es1 ls1 es2 ls2 es3 ls3 where
    key: "PrivateKey config = Some key"
    and al: "resolveAllowlist pl config key now = (Inr allowlist, es1, ls1)"
    and ho: "buildHostOptions pl config key = (Inr hostOpts, es2, ls2)"
    and sh: "startHost pl fs isConn config st now timeout allowlist static boot relay hostOpts = (Inr c, es3, ls3)"
    and es: "es = es1 @ es2 @ es3"
    using assms by (auto simp: NewClient_def t sp b andThen_Inr logged_Inr failWith_Inr split: if_splits option.splits)
  have "es = es3"
    using es quiet_Inr [OF quiet_resolveAllowlist al] quiet_Inr [OF quiet_buildHostOptions ho] by simp
  moreover have "fst (resolveAllowlist pl config key now) = Inr allowlist" by (simp add: al)
  ultimately show ?thesis using key ho sh unfolding sp b fst_conv snd_conv by blast
qed

text \<open>The pubsub instance a start creates: with the validator exactly when the allowlist restricts.\<close>

lemma validator_installed:
  assumes "createPubSub pl config st allowlist staticPeers = (Inr psOpts, es, ls)"
  shows "WithDefaultValidator True \<in> set psOpts \<longleftrightarrow> enabled (Some allowlist)"
proof -
  obtain err st' logs where "buildPubSubOptions (plNet pl) config st (Some allowlist) staticPeers = ((err, st'), logs)"
    by (metis prod.exhaust)
  then have b: "buildPubSubOptions (plNet pl) config st (Some allowlist) staticPeers = ((Inr psOpts, st'), logs)"
    using assms by (cases err) (auto simp: createPubSub_def split: option.splits)
  have s: "WithDefaultValidator True \<notin> set (fst (scoreOptions (plNet pl) config staticPeers a th))" for a th
    by (simp add: scoreOptions_def Let_def split: prod.split)
  then show ?thesis
    using b by (auto simp: buildPubSubOptions_def exchangeOptions_def validatorOptions_def case_prod_beta Let_def
        split: sum.splits option.splits prod.splits if_splits)
qed

lemma startHost_pubsub:
  assumes "startHost pl fs isConn config st now streamTimeout allowlist staticPeers bootstrapPeers relayPeers hostOpts
      = (Inr c, es, ls)"
  shows "ciAllowlist c = allowlist \<and> NewGossipSub (ciPubSub c) \<in> set es
    \<and> (WithDefaultValidator True \<in> set (ciPubSub c) \<longleftrightarrow> enabled (Some allowlist))"
proof -
  obtain psOpts es4 ls4 where ps: "createPubSub pl config st allowlist staticPeers = (Inr psOpts, es4, ls4)"
    and c: "ciAllowlist c = allowlist" "ciPubSub c = psOpts" "set es4 \<subseteq> set es"
    using assms unfolding startHost_def andThen_Inr logged_Inr by force
  then have "NewGossipSub psOpts \<in> set es4"
    by (auto simp: createPubSub_def split: prod.splits sum.splits option.splits)
  then show ?thesis using validator_installed [OF ps] c by auto
qed

text \<open>The cached peers are dialed during the start.\<close>

lemma startHost_dials:
  assumes "startHost pl fs isConn config st now streamTimeout allowlist staticPeers bootstrapPeers relayPeers hostOpts
      = (Inr c, es, ls)" and "fst (loadAndConnectCachedPeers (plNet pl) isConn config fs now) = dials" and "dials \<noteq> []"
  shows "DialCached dials \<in> set es"
proof -
  obtain es3 ls3 where "dialInitialPeers pl fs isConn config now bootstrapPeers staticPeers = (Inr (), es3, ls3)"
    and "set es3 \<subseteq> set es"
    using assms(1) unfolding startHost_def andThen_Inr logged_Inr by force
  then show ?thesis using assms(2,3) by (auto simp: dialInitialPeers_def Let_def split: prod.splits)
qed

lemma resolved_allowlist:
  "fst (resolveAllowlist pl config key now) = Inr allowlist \<Longrightarrow> plIDFromPrivateKey pl key = Inr selfID \<Longrightarrow>
     fst (newPeerAllowlist (plNet pl) config selfID now) = Inr allowlist"
  by (auto simp: resolveAllowlist_def logged_def split: sum.splits prod.splits)

section \<open>What is left open\<close>

text \<open>Whether the host, the DHT and the mDNS service are open after some effects.\<close>

fun stillOpen :: "bool \<times> bool \<times> bool \<Rightarrow> ('key, 'ma, 'mgr, 'net) effect list \<Rightarrow> bool \<times> bool \<times> bool" where
  "stillOpen op [] = op"
| "stillOpen (h, d, m) (NewHost opts # es) = stillOpen (True, d, m) es"
| "stillOpen (h, d, m) (HostClose # es) = stillOpen (False, d, m) es"
| "stillOpen (h, d, m) (NewDHT opts # es) = stillOpen (h, True, m) es"
| "stillOpen (h, d, m) (DHTClose # es) = stillOpen (h, False, m) es"
| "stillOpen (h, d, m) (MdnsStart # es) = stillOpen (h, d, True) es"
| "stillOpen (h, d, m) (MdnsClose # es) = stillOpen (h, d, False) es"
| "stillOpen op (e # es) = stillOpen op es"

lemma stillOpen_append: "stillOpen op (xs @ ys) = stillOpen (stillOpen op xs) ys"
  by (induction op xs rule: stillOpen.induct) auto

lemma stillOpen_dials: "list_all isDial es \<Longrightarrow> stillOpen op es = op"
proof (induction es)
  case (Cons e es)
  then show ?case by (cases e; cases op) auto
qed simp

lemma stillOpen_topics: "stillOpen op (map TopicClose ks) = op"
  by (induction ks) (cases op; simp)+

text \<open>What a client's own handlers and loops are.\<close>

fun isRunning :: "('key, 'ma, 'mgr, 'net) effect \<Rightarrow> bool" where
  "isRunning (SetStreamHandler p) = True"
| "isRunning (GoMaintain kind ps) = True"
| "isRunning GoWaitForDHT = True"
| "isRunning (GoDiscover b) = True"
| "isRunning GoAttemptDirect = True"
| "isRunning e = False"

fun isNewDHT :: "('key, 'ma, 'mgr, 'net) effect \<Rightarrow> bool" where
  "isNewDHT (NewDHT opts) = True"
| "isNewDHT e = False"

lemma isNewDHT_iff: "list_ex isNewDHT es \<longleftrightarrow> (\<exists>opts. NewDHT opts \<in> set es)"
proof -
  have "isNewDHT e \<longleftrightarrow> (\<exists>opts. e = NewDHT opts)" for e by (cases e) simp_all
  then show ?thesis by (auto simp: list_ex_iff)
qed

fun isDHTClose :: "('key, 'ma, 'mgr, 'net) effect \<Rightarrow> bool" where
  "isDHTClose DHTClose = True"
| "isDHTClose _ = False"

lemma no_close_andThen:
  "filter isDHTClose (fst (snd m)) = [] \<Longrightarrow> (\<And>x. filter isDHTClose (fst (snd (f x))) = []) \<Longrightarrow>
     filter isDHTClose (fst (snd (andThen m f))) = []"
  by (cases m rule: stage_cases) auto

lemma no_close_quiet: "quiet m \<Longrightarrow> filter isDHTClose (fst (snd m)) = []"
  by (auto simp: quiet_def)

lemma no_close_stages:
  "filter isDHTClose (fst (snd (createHost pl hostOpts config relayPeers))) = []"
  "filter isDHTClose (fst (snd (initDHT pl config bootstrapPeers))) = []"
  "filter isDHTClose (fst (snd (dialInitialPeers pl fs isConn config now bootstrapPeers staticPeers))) = []"
  "filter isDHTClose (fst (snd (createPubSub pl config st allowlist staticPeers))) = []"
  "filter isDHTClose (fst (snd (startMDNS pl config))) = []"
  "filter isDHTClose (fst (snd (startBackground bootstrapPeers staticPeers hasDHT))) = []"
  by (auto simp: createHost_def initDHT_def setupDHT_def dialInitialPeers_def createPubSub_def startMDNS_def
      startBackground_def logged_def Let_def split: prod.split sum.split option.split)

lemma no_close_NewClient: "filter isDHTClose (fst (snd (NewClient uni pl fs isConn testMode st now config))) = []"
  by (auto simp: NewClient_def startHost_def no_close_stages no_close_quiet quiet_resolveAllowlist quiet_buildHostOptions
      failWith_def logged_def intro!: no_close_andThen split: prod.split option.split)

lemma closedDown_facts:
  "closedDown h es \<Longrightarrow> filter isDHTClose es = [] \<Longrightarrow>
     es \<noteq> [] \<and> last es = Cancel \<and> \<not> list_ex isRunning es \<and> stillOpen (h, d, False) es = (False, d \<or> list_ex isNewDHT es, False)"
  by (induction h es arbitrary: d rule: closedDown.induct) (auto split: if_splits)

lemma failed_start:
  assumes "NewClient uni pl fs isConn testMode st now config = (Inl err, es, ls)" and "Name config \<noteq> []"
  shows "es \<noteq> [] \<and> last es = Cancel \<and> \<not> list_ex isRunning es
    \<and> stillOpen (False, False, False) es = (False, list_ex isNewDHT es, False)"
proof -
  have "closedDown False es"
    using NewClient_fails [OF assms(2), of uni pl fs isConn testMode st now] assms(1) by (simp add: failsWith_def)
  moreover have "filter isDHTClose es = []"
    using no_close_NewClient [of uni pl fs isConn testMode st now config] assms(1) by simp
  ultimately show ?thesis using closedDown_facts [of False es False] by simp
qed

section \<open>Properties\<close>


text \<open>C32. A client that has started runs what its configuration asks for and no more: the two protocol
  handlers, the reconnect loops, the DHT loops or, with the DHT off, the address scan; private
  addresses are gated and NAT and mDNS left alone unless enabled; and \<open>Close\<close> releases the host, the
  DHT and the mDNS service it holds.\<close>

theorem started_client:
  assumes "NewClient uni pl fs isConn testMode st now config = (Inr c, es, ls)"
    and "bootstrap = fst (fst (getBootstrapAndRelayPeers (plNet pl) config testMode))"
    and "static = fst (parsePeerMultiaddrs (plNet pl) (StaticPeers config))"
  shows "\<exists>hostOpts dials psOpts.
      es = NewHost hostOpts # (if DHTMode config = ''off'' then [] else [NewDHT (fst (dhtOptions config bootstrap))])
        @ dials @ NewGossipSub psOpts # (if EnableMDNS config then [MdnsStart] else [])
        @ background config bootstrap static
    \<and> list_all isDial dials
    \<and> list_ex isGater hostOpts = (\<not> AllowPrivateIPs config)
    \<and> filter isNAT hostOpts = (if EnableNAT config then [NATPortMap, EnableNATService, EnableHolePunching] else [])
    \<and> stillOpen (False, False, False) (es @ closeServices c ks) = (False, False, False)"
proof -
  obtain timeout allowlist opts key es0 ls0 ls1 where
    ho: "buildHostOptions pl config key = (Inr opts, es0, ls0)"
    and sh: "startHost pl fs isConn config st now timeout allowlist static bootstrap
        (snd (fst (getBootstrapAndRelayPeers (plNet pl) config testMode))) opts = (Inr c, es, ls1)"
    using NewClient_Inr [OF assms(1)] unfolding assms(2,3) by blast
  note built = built_options [OF ho]
  obtain hostOpts dials psOpts where r:
    "es = NewHost hostOpts # (if DHTMode config = ''off'' then [] else [NewDHT (fst (dhtOptions config bootstrap))])
        @ dials @ NewGossipSub psOpts # (if EnableMDNS config then [MdnsStart] else [])
        @ background config bootstrap static"
    "list_all isDial dials" "list_ex isGater hostOpts = (\<not> AllowPrivateIPs config)"
    "filter isNAT hostOpts = (if EnableNAT config then [NATPortMap, EnableNATService, EnableHolePunching] else [])"
    "ciHasDHT c = (DHTMode config \<noteq> ''off'')" "ciHasMDNS c = EnableMDNS config"
    using started_host [OF sh conjunct1 [OF built]] built by auto
  have "stillOpen (False, False, False) (es @ closeServices c ks) = (False, False, False)"
    using r(2) unfolding r(1)
    by (simp add: stillOpen_append stillOpen_dials closeServices_def stillOpen_topics r(5,6) background_def)
  then show ?thesis using r by blast
qed

text \<open>C40. A start that fails after the DHT was created leaves the DHT running: no failure path closes it.\<close>

theorem failed_start_leaks_dht:
  assumes "NewClient uni pl fs isConn testMode st now config = (Inl err, es, ls)" and "NewDHT opts \<in> set es"
  shows "fst (stillOpen (False, False, False) es) = False \<and> fst (snd (stillOpen (False, False, False) es)) = True"
proof -
  have "Name config \<noteq> []" using assms by (auto simp: NewClient_def failWith_def)
  moreover have "list_ex isNewDHT es" using assms(2) isNewDHT_iff by blast
  ultimately show ?thesis using failed_start [OF assms(1)] by simp
qed

section \<open>A concrete platform\<close>

text \<open>For the witnesses: everything succeeds, except pubsub where \<open>ps\<close> is an error.\<close>

definition toyPlatform :: "goerror option \<Rightarrow> (unit, string, partialLimitConfig, unit, string) platform" where
  "toyPlatform ps = \<lparr>plNet = textLib, plIDFromPrivateKey = (\<lambda>k. Inr ''me''), plConnManager = (\<lambda>a b c. None), plGater = None,
     plParseCIDR = (\<lambda>s. Inr s), plBlockSubnet = (\<lambda>n. None), plRcmgr = toyRcmgr,
     plNewHost = (\<lambda>opts. Inr \<lparr>hiID = ''me'', hiAddrs = [], hiLimits = None\<rparr>), plNewDHT = (\<lambda>opts. None),
     plBootstrap = None, plGossipSub = (\<lambda>opts. ps), plMdnsStart = None\<rparr>"

definition toyConfig :: "unit config" where
  "toyConfig = zeroConfig\<lparr>Name := ''n'', PrivateKey := Some (), AllowPrivateIPs := True, AllowedPublisherIDs := [''abc'']\<rparr>"

text \<open>The node with its peer cache in the file \<open>f\<close>, and the one without a cache.\<close>

definition toyNode :: "string \<Rightarrow> unit config" where
  "toyNode f = toyConfig\<lparr>PeerCacheFile := f\<rparr>"

definition toyRun :: "goerror option \<Rightarrow> (string clientInit, (unit, string, unit, string) effect) stage" where
  "toyRun ps = NewClient (\<lambda>r. False) (toyPlatform ps) emptyFs (\<lambda>p. False) True [] 0 (toyNode [])"

lemmas toy_defs = toyNode_def toyConfig_def zeroConfig_def toyPlatform_def

lemma toy_host: "\<exists>opts ls. buildHostOptions (toyPlatform ps) (toyNode f) () = (Inr opts, [], ls)"
  by (simp add: buildHostOptions_def toy_defs gaterOptions_def announceOptions_def logged_def resourceManagerOptions_def
      buildResourceManager_def isZero_def counts_def zeroResourceLimits_def connManagerSettings_def)

lemma toy_allow: "\<exists>al ls. resolveAllowlist (toyPlatform ps) (toyNode f) () now = (Inr al, [], ls)"
  by (simp add: resolveAllowlist_def toy_defs newPeerAllowlist_def addStaticPublisherIDs_def textLib_def logged_def Let_def)

lemma toy_start:
  fixes ps :: "goerror option" and t now :: gotime and al :: peerAllowlist and opts
    and fs :: fileSystem and f :: string
  defines "r \<equiv> startHost (toyPlatform ps) fs (\<lambda>p. False) (toyNode f) [] now t al [] [] [] opts"
  shows "isl (fst r) = (ps \<noteq> None) \<and> (\<exists>dopts. NewDHT dopts \<in> set (fst (snd r)))"
  unfolding r_def
  by (cases ps) (simp_all add: startHost_def createHost_def natOptions_def initDHT_def setupDHT_def dhtOptions_def
      dialInitialPeers_def createPubSub_def buildPubSubOptions_def exchangeOptions_def
      resolvePeerScoreConfig_def startMDNS_def startBackground_def logged_def toy_defs Let_def case_prod_beta)

lemma toy_node:
  fixes ps :: "goerror option" and f :: string and fs :: fileSystem and now :: gotime
  defines "r \<equiv> NewClient (\<lambda>r. False) (toyPlatform ps) fs (\<lambda>p. False) True [] now (toyNode f)"
  shows "isl (fst r) = (ps \<noteq> None) \<and> (\<exists>dopts. NewDHT dopts \<in> set (fst (snd r)))"
proof -
  obtain opts ls1 where 1: "buildHostOptions (toyPlatform ps) (toyNode f) () = (Inr opts, [], ls1)" using toy_host by blast
  obtain al ls2 where 2: "resolveAllowlist (toyPlatform ps) (toyNode f) () now = (Inr al, [], ls2)" using toy_allow by blast
  have c: "Name (toyNode f) \<noteq> []" "PrivateKey (toyNode f) = Some ()" "StaticPeers (toyNode f) = []" by (simp_all add: toy_defs)
  show ?thesis using toy_start [of ps fs f now]
    by (simp add: r_def NewClient_def c 1 2 case_prod_beta getBootstrapAndRelayPeers_def selectBootstrapPeers_def logged_def)
qed

lemma toy_run: "isl (fst (toyRun ps)) = (ps \<noteq> None) \<and> (\<exists>dopts. NewDHT dopts \<in> set (fst (snd (toyRun ps))))"
  unfolding toyRun_def by (rule toy_node)

lemma started_client_witness:
  "\<exists>c es ls. toyRun None = (Inr c, es, ls) \<and> stillOpen (False, False, False) (es @ closeServices c [''t'']) = (False, False, False)"
proof -
  obtain c es ls where run: "toyRun None = (Inr c, es, ls)"
    using toy_run [of None] by (cases "toyRun None" rule: stage_cases) auto
  from started_client [OF run [unfolded toyRun_def] refl refl, of "[''t'']"] run show ?thesis by blast
qed


lemma failed_start_leaks_dht_witness:
  "\<exists>err es ls. toyRun (Some (ExtErr ''pubsub'')) = (Inl err, es, ls) \<and> fst (stillOpen (False, False, False) es) = False
     \<and> fst (snd (stillOpen (False, False, False) es)) = True"
proof -
  obtain err es ls where run: "toyRun (Some (ExtErr ''pubsub'')) = (Inl err, es, ls)"
    using toy_run [of "Some (ExtErr ''pubsub'')"] by (cases "toyRun (Some (ExtErr ''pubsub''))" rule: stage_cases) auto
  then obtain dopts where "NewDHT dopts \<in> set es" using toy_run [of "Some (ExtErr ''pubsub'')"] by auto
  from failed_start_leaks_dht [OF run [unfolded toyRun_def] this] run show ?thesis by blast
qed

end
