(* ===== verification/Receive.thy ===== *)
theory Receive
  imports Addrs Tracker Json
begin

text \<open>
  Sending and receiving one message (src/client.go): \<open>Publish\<close>, the body of \<open>receiveMessages\<close>,
  \<open>handleMalformedMessage\<close>, \<open>GetPeers\<close> and \<open>Connect\<close>.  The lemmas follow a message from one
  node's \<open>Publish\<close> to another's channel, and the stream of one peer's messages through the
  malformed-message threshold.
\<close>

section \<open>Publishing\<close>

text \<open>
  \<open>join\<close> is what \<open>pubsub.Join\<close> answers when the topic has no handle yet, \<open>send\<close> what the handle's
  \<open>Publish\<close> answers.  The result: the error, the topics joined now, and the bytes handed to pubsub.
\<close>

definition Publish ::
  "'key config \<Rightarrow> (string \<Rightarrow> goerror option) \<Rightarrow> (string \<Rightarrow> goerror option) \<Rightarrow> string set \<Rightarrow> string \<Rightarrow> string option
     \<Rightarrow> goerror option \<times> string set \<times> string option" where
  "Publish config join send topics topic data =
     (case (if topic \<in> topics then Inr topics
            else (case join topic of
                    Some err \<Rightarrow> Inl (FmtErrorf ''failed to join topic: %w'' [FWrap err])
                  | None \<Rightarrow> Inr (insert topic topics))) of
        Inl err \<Rightarrow> (Some err, topics, None)
      | Inr topics' \<Rightarrow>
          (case marshalEnvelope (Name config) data of
             Inl err \<Rightarrow> (Some (FmtErrorf ''failed to marshal message: %w'' [FWrap err]), topics', None)
           | Inr msgBytes \<Rightarrow> (send msgBytes, topics', Some msgBytes)))"

section \<open>Receiving\<close>

record message =
  msgTopic :: string
  msgFrom :: string
  msgFromID :: string
  msgData :: string
  msgTimestamp :: gotime

text \<open>The two lines logged about a malformed message.\<close>

definition malformedLine :: "fmtarg list \<Rightarrow> logline" where
  "malformedLine args = Debugf ''Malformed message from %s (%s) on topic %s: %v (count=%d, len=%d, preview=%q, hex=%x)'' args"

definition skippingLine :: "fmtarg list \<Rightarrow> logline" where
  "skippingLine args = Warnf ''Skipping peer %s (%s) on topic %s: %d malformed messages exceeded threshold'' args"

definition handleMalformedMessage ::
  "'ma netLib \<Rightarrow> peerTracker \<Rightarrow> peerID \<Rightarrow> string \<Rightarrow> string \<Rightarrow> goerror \<Rightarrow> peerTracker \<times> logline list" where
  "handleMalformedMessage lib pt author topicName data err =
     (let preview = (if 128 < length data then take 128 data else data) in
      case recordMalformed pt author of
        (pt', cnt, justSkipped) \<Rightarrow>
          (pt', malformedLine [FStr (getName pt' author), FStr (idString lib author), FStr topicName, FErr err,
                  FInt (int cnt), FInt (int (length data)), FStr preview, FStr data]
                # (if justSkipped then
                     [skippingLine [FStr (getName pt' author), FStr (idString lib author), FStr topicName, FInt (int cnt)]]
                   else [])))"

text \<open>
  One iteration of the loop of \<open>receiveMessages\<close>: what \<open>sub.Next\<close> returns, and whether the iteration
  returns, continues, or goes on to send a message on the channel.
\<close>

datatype nextResult =
    NextMessage peerID string
  | NextError goerror

datatype recvAction =
    RecvReturn
  | RecvContinue
  | RecvSend message

text \<open>
  \<open>errCancelled\<close> is pubsub's \<open>ErrSubscriptionCancelled\<close>, \<open>cancelled\<close> whether the client's context is
  done, \<open>now\<close> the clock of \<open>recordMessageFrom\<close> and \<open>sent\<close> that of the message.
\<close>

definition receiveStep ::
  "(rune \<Rightarrow> bool) \<Rightarrow> 'ma netLib \<Rightarrow> goerror \<Rightarrow> peerID \<Rightarrow> string \<Rightarrow> bool \<Rightarrow> peerTracker \<Rightarrow> nextResult \<Rightarrow> gotime \<Rightarrow> gotime
     \<Rightarrow> peerTracker \<times> recvAction \<times> logline list" where
  "receiveStep uni lib errCancelled self topicName cancelled pt nxt now sent =
     (case nxt of
        NextError err \<Rightarrow>
          if cancelled \<or> errorsIs err errCancelled then (pt, RecvReturn, [])
          else (pt, RecvContinue, [Errorf ''Error reading message: %v'' [FErr err]])
      | NextMessage author data \<Rightarrow>
          if author = self then (pt, RecvContinue, [])
          else if shouldSkipMalformed pt author then (pt, RecvContinue, [])
          else
            (case unmarshalEnvelope data of
               Inl err \<Rightarrow>
                 (case handleMalformedMessage lib pt author topicName data err of
                    (pt', logs) \<Rightarrow> (pt', RecvContinue, logs))
             | Inr m \<Rightarrow>
                 (case updateName uni pt author (envName m) of
                    (pt', name) \<Rightarrow>
                      (recordMessageFrom pt' author now,
                       RecvSend \<lparr>msgTopic = topicName, msgFrom = name, msgFromID = idString lib author,
                                 msgData = envData m, msgTimestamp = sent\<rparr>, []))))"

section \<open>Peers and connections\<close>

record peerInfo =
  piID :: string
  piName :: string
  piAddrs :: "string list"

text \<open>\<open>ks\<close> is the order of the range over the tracker's topic peers.\<close>

definition GetPeers :: "'ma netLib \<Rightarrow> peerTracker \<Rightarrow> (peerID \<Rightarrow> 'ma list) \<Rightarrow> peerID list \<Rightarrow> peerInfo list" where
  "GetPeers lib pt conns ks =
     map (\<lambda>p. \<lparr>piID = idString lib p, piName = getName pt p, piAddrs = map (maString lib) (conns p)\<rparr>)
       (getAllTopicPeers pt ks)"

definition GetID :: "'ma netLib \<Rightarrow> peerID \<Rightarrow> string" where
  "GetID lib self = idString lib self"

definition Connect ::
  "'ma netLib \<Rightarrow> peerID \<Rightarrow> ('ma addrInfo \<Rightarrow> goerror option) \<Rightarrow> string \<Rightarrow> goerror option \<times> logline list" where
  "Connect lib self dial peerMultiaddr =
     (case newMultiaddr lib peerMultiaddr of
        Inl err \<Rightarrow> (Some (FmtErrorf ''invalid multiaddr %s: %w'' [FStr peerMultiaddr, FWrap err]), [])
      | Inr maddr \<Rightarrow>
          (case addrInfoFromP2pAddr lib maddr of
             Inl err \<Rightarrow> (Some (FmtErrorf ''invalid peer address %s: %w'' [FStr peerMultiaddr, FWrap err]), [])
           | Inr info \<Rightarrow>
               if aiID info = self then (None, [])
               else
                 (case dial info of
                    Some err \<Rightarrow> (Some (FmtErrorf ''failed to connect to peer %s: %w'' [FStr (idString lib (aiID info)), FWrap err]), [])
                  | None \<Rightarrow> (None, [Infof ''Connected to static peer: %s'' [FStr (idString lib (aiID info))]]))))"

section \<open>Histories of one reader\<close>

text \<open>Messages in the order \<open>Next\<close> returns them, with the two clock readings of each iteration.\<close>

type_synonym arrival = "peerID \<times> string \<times> gotime \<times> gotime"

fun receiveRun ::
  "(rune \<Rightarrow> bool) \<Rightarrow> 'ma netLib \<Rightarrow> goerror \<Rightarrow> peerID \<Rightarrow> string \<Rightarrow> peerTracker \<Rightarrow> arrival list
     \<Rightarrow> (peerID \<times> recvAction \<times> logline list) list" where
  "receiveRun uni lib errCancelled self topicName pt [] = []"
| "receiveRun uni lib errCancelled self topicName pt ((a, data, now, sent) # rest) =
     (case receiveStep uni lib errCancelled self topicName False pt (NextMessage a data) now sent of
        (pt', action, logs) \<Rightarrow> (a, action, logs) # receiveRun uni lib errCancelled self topicName pt' rest)"

text \<open>What reaches the channel from \<open>p\<close>, and the warnings its messages cause.\<close>

fun deliveredFrom :: "peerID \<Rightarrow> (peerID \<times> recvAction \<times> logline list) list \<Rightarrow> (string \<times> string) list" where
  "deliveredFrom p [] = []"
| "deliveredFrom p ((a, action, logs) # rest) =
     (case action of
        RecvSend m \<Rightarrow> if a = p then (msgFrom m, msgData m) # deliveredFrom p rest else deliveredFrom p rest
      | _ \<Rightarrow> deliveredFrom p rest)"

definition warningsFrom :: "peerID \<Rightarrow> (peerID \<times> recvAction \<times> logline list) list \<Rightarrow> nat" where
  "warningsFrom p outs = length (filter isWarn (concat (map (\<lambda>(a, action, logs). if a = p then logs else []) outs)))"

text \<open>
  The reference: a peer's well-formed messages up to its fifth malformed one, \<open>k\<close> being the
  malformed ones so far.
\<close>

fun acceptable :: "peerID \<Rightarrow> nat \<Rightarrow> arrival list \<Rightarrow> envelope list" where
  "acceptable p k [] = []"
| "acceptable p k ((a, data, now, sent) # rest) =
     (if a \<noteq> p then acceptable p k rest
      else if malformedThreshold \<le> k then []
      else (case unmarshalEnvelope data of
              Inl err \<Rightarrow> acceptable p (Suc k) rest
            | Inr m \<Rightarrow> m # acceptable p k rest))"

fun malformedBy :: "peerID \<Rightarrow> arrival list \<Rightarrow> nat" where
  "malformedBy p [] = 0"
| "malformedBy p ((a, data, now, sent) # rest) =
     (if a = p then (case unmarshalEnvelope data of Inl err \<Rightarrow> 1 | Inr m \<Rightarrow> 0) else 0) + malformedBy p rest"

lemma acceptable_saturated: "malformedThreshold \<le> k \<Longrightarrow> acceptable p k msgs = []"
  by (induction p k msgs rule: acceptable.induct) auto

lemma warningsFrom_simps [simp]:
  "warningsFrom p [] = 0"
  "warningsFrom p ((a, action, logs) # outs) = (if a = p then length (filter isWarn logs) else 0) + warningsFrom p outs"
  by (simp_all add: warningsFrom_def)

definition settled :: "peerTracker \<Rightarrow> bool" where
  "settled pt \<longleftrightarrow> (\<forall>p. shouldSkipMalformed pt p = (malformedThreshold \<le> malformedCount pt p))"

lemma line_levels: "isWarn (malformedLine args) = False" "isWarn (skippingLine args) = True"
  by (simp_all add: malformedLine_def skippingLine_def)

lemma handle_facts:
  assumes "settled pt" and "handleMalformedMessage lib pt a topicName data err = (pt', logs)"
  shows "settled pt'" and "malformedCount pt' q = malformedCount pt q + (if q = a then 1 else 0)"
    and "length (filter isWarn logs) = (if malformedCount pt a + 1 = malformedThreshold then 1 else 0)"
proof -
  obtain pt1 cnt js where rec: "recordMalformed pt a = (pt1, cnt, js)" by (rule prod_cases3)
  have "\<exists>X Y. handleMalformedMessage lib pt a topicName data err =
      (pt1, malformedLine X # (if js then [skippingLine Y] else []))"
    unfolding handleMalformedMessage_def rec Let_def prod.case by blast
  then have h: "pt' = pt1" "length (filter isWarn logs) = (if js then 1 else 0)"
    using assms(2) by (auto simp: line_levels)
  have pt': "pt' = fst (recordMalformed pt a)" by (simp add: h rec)
  then show "malformedCount pt' q = malformedCount pt q + (if q = a then 1 else 0)" by simp
  show "settled pt'" using assms(1) by (auto simp: settled_def pt')
  have "snd (snd (recordMalformed pt a)) \<longleftrightarrow> malformedThreshold \<le> malformedCount pt a + 1 \<and> \<not> shouldSkipMalformed pt a"
    by (auto simp: tracker_defs)
  then have "js \<longleftrightarrow> malformedCount pt a + 1 = malformedThreshold"
    using assms(1) [unfolded settled_def, rule_format, of a] by (simp add: rec) linarith
  then show "length (filter isWarn logs) = (if malformedCount pt a + 1 = malformedThreshold then 1 else 0)"
    by (simp add: h)
qed

lemma settled_frame:
  "settled (recordMessageFrom (fst (updateName uni pt a n)) b t) = settled pt"
  "malformedCount (recordMessageFrom (fst (updateName uni pt a n)) b t) = malformedCount pt"
  by (simp_all add: settled_def)

lemma receiveRun_facts:
  "settled pt \<Longrightarrow> p \<noteq> self \<Longrightarrow>
     deliveredFrom p (receiveRun uni lib errCancelled self topicName pt msgs) =
       map (\<lambda>m. (sanitizePeerName uni (envName m), envData m)) (acceptable p (malformedCount pt p) msgs)
     \<and> warningsFrom p (receiveRun uni lib errCancelled self topicName pt msgs) =
       (if malformedCount pt p < malformedThreshold \<and> malformedThreshold \<le> malformedCount pt p + malformedBy p msgs then 1 else 0)"
proof (induction msgs arbitrary: pt)
  case Nil
  then show ?case by simp
next
  case (Cons msg msgs)
  obtain a data now sent where msg: "msg = (a, data, now, sent)" by (metis prod_cases4)
  show ?case
  proof (cases "a = self \<or> shouldSkipMalformed pt a")
    case True
    then have step: "receiveStep uni lib errCancelled self topicName False pt (NextMessage a data) now sent = (pt, RecvContinue, [])"
      by (auto simp: receiveStep_def)
    then show ?thesis
      using Cons True by (auto simp: msg settled_def acceptable_saturated split: sum.splits)
  next
    case False
    then have below: "\<not> malformedThreshold \<le> malformedCount pt a"
      using Cons.prems(1) by (simp add: settled_def)
    show ?thesis
    proof (cases "unmarshalEnvelope data")
      case (Inl err)
      obtain pt' logs where h: "handleMalformedMessage lib pt a topicName data err = (pt', logs)" by force
      have "receiveStep uni lib errCancelled self topicName False pt (NextMessage a data) now sent = (pt', RecvContinue, logs)"
        using False Inl h by (simp add: receiveStep_def)
      then show ?thesis
        using Cons.IH [OF handle_facts(1) [OF Cons.prems(1) h] Cons.prems(2)] Inl below
        by (simp add: msg handle_facts(2,3) [OF Cons.prems(1) h])
    next
      case (Inr m)
      let ?pt = "recordMessageFrom (fst (updateName uni pt a (envName m))) a now"
      have "receiveStep uni lib errCancelled self topicName False pt (NextMessage a data) now sent =
          (?pt, RecvSend \<lparr>msgTopic = topicName, msgFrom = sanitizePeerName uni (envName m), msgFromID = idString lib a,
             msgData = envData m, msgTimestamp = sent\<rparr>, [])"
        using False Inr by (simp add: receiveStep_def updateName_def Let_def)
      then show ?thesis
        using Cons.IH [of ?pt] Cons.prems Inr below by (cases "a = p") (simp_all add: msg settled_frame)
    qed
  qed
qed

lemma receive_envelope:
  assumes "marshalEnvelope name data = Inr raw" and "author \<noteq> self" and "\<not> shouldSkipMalformed pt author"
  shows "receiveStep uni lib errCancelled self topicName cancelled pt (NextMessage author raw) now sent =
    (recordMessageFrom (fst (updateName uni pt author (toValidUTF8 name))) author now,
     RecvSend \<lparr>msgTopic = topicName, msgFrom = sanitizePeerName uni (toValidUTF8 name), msgFromID = idString lib author,
       msgData = (case data of None \<Rightarrow> [] | Some bs \<Rightarrow> bs), msgTimestamp = sent\<rparr>, [])"
  using assms envelope_roundtrip [OF assms(1)]
  by (simp add: receiveStep_def updateName_def Let_def)

lemma clean_toValidUTF8: "cleanName uni s \<Longrightarrow> toValidUTF8 s = s"
  by (simp add: cleanName_def toValidUTF8_def)

section \<open>Properties\<close>

text \<open>C8. What one client publishes another delivers: the bytes handed to pubsub, received from another
  peer that is not being skipped, become one message with the same data, the publisher's ID and its configured name
  as JSON carries it (valid UTF-8) with everything \<open>sanitizePeerName\<close> strips removed; the tracker keeps the same
  name for the peer and the clock as when it was last seen, and a clean name arrives as it was configured.\<close>

theorem publish_receive:
  assumes "Publish config join send topics topic data = (err, topics', Some raw)"
    and "author \<noteq> self" and "\<not> shouldSkipMalformed pt author"
  shows "\<exists>pt'. receiveStep uni lib errCancelled self topicName cancelled pt (NextMessage author raw) now sent =
      (pt', RecvSend \<lparr>msgTopic = topicName, msgFrom = sanitizePeerName uni (toValidUTF8 (Name config)), msgFromID = idString lib author,
         msgData = (case data of None \<Rightarrow> [] | Some bs \<Rightarrow> bs), msgTimestamp = sent\<rparr>, [])
    \<and> getName pt' author = sanitizePeerName uni (toValidUTF8 (Name config)) \<and> lastSeen pt' author = Some now
    \<and> (cleanName uni (Name config) \<longrightarrow> sanitizePeerName uni (toValidUTF8 (Name config)) = Name config)"
proof -
  have "marshalEnvelope (Name config) data = Inr raw"
    using assms(1) by (auto simp: Publish_def split: if_splits option.splits sum.splits)
  from receive_envelope [OF this assms(2,3), of uni lib errCancelled topicName cancelled now sent] show ?thesis
    by (simp add: clean_toValidUTF8 sanitize_fixed getName_def)
       (simp add: updateName_def recordMessageFrom_def Let_def)
qed

lemma sanitize_newline: "sanitizePeerName (\<lambda>r. False) (toValidUTF8 [CHR ''a'', CHR 0x0A]) = ''a''"
proof -
  have "toValidUTF8 [CHR ''a'', CHR 0x0A] = [CHR ''a'', CHR 0x0A]" by (rule toValidUTF8_ascii) simp
  moreover have "runes [CHR ''a'', CHR 0x0A] = [97, 10]" "(char_of (97 :: nat) :: char) = CHR ''a''"
    by (simp add: runes.simps decodeRune.simps, code_simp)
  ultimately show ?thesis
    by (simp add: sanitize_alt printableRunes_def maxPeerNameLen_def isPrint_def encodeRune_def encodeScalar_def validRune_def)
qed

text \<open>A node whose name ends in a newline is delivered without it.\<close>

lemma publish_receive_witness:
  "\<exists>raw pt'. Publish ((zeroConfig :: unit config)\<lparr>Name := [CHR ''a'', CHR 0x0A]\<rparr>) (\<lambda>t. None) (\<lambda>b. None) {} ''t'' (Some ''hi'')
       = (None, {''t''}, Some raw)
     \<and> receiveStep (\<lambda>r. False) textLib (ExtErr ''cancelled'') ''me'' ''t'' False newPeerTracker (NextMessage ''you'' raw) 1 2 =
       (pt', RecvSend \<lparr>msgTopic = ''t'', msgFrom = ''a'', msgFromID = ''you'', msgData = ''hi'', msgTimestamp = 2\<rparr>, [])
     \<and> getName pt' ''you'' = ''a''"
proof -
  have new: "\<not> shouldSkipMalformed newPeerTracker ''you''" by (simp add: tracker_defs)
  obtain raw where raw: "Publish ((zeroConfig :: unit config)\<lparr>Name := [CHR ''a'', CHR 0x0A]\<rparr>) (\<lambda>t. None) (\<lambda>b. None) {} ''t'' (Some ''hi'')
       = (None, {''t''}, Some raw)"
    by (simp add: Publish_def marshalEnvelope_def)
  from publish_receive [OF raw _ new, of "''me''" "\<lambda>r. False" textLib "ExtErr ''cancelled''" "''t''" False 1 2] raw
  show ?thesis by (auto simp: sanitize_newline textLib_def)
qed

text \<open>C7. A reader delivers from each other peer exactly its well-formed messages before its fifth
  malformed one, in order, under sanitized names, and warns about the peer once, at that fifth
  message, however the messages of different peers are mixed.\<close>

theorem malformed_cutoff:
  assumes "p \<noteq> self"
  shows "deliveredFrom p (receiveRun uni lib errCancelled self topicName newPeerTracker msgs) =
       map (\<lambda>m. (sanitizePeerName uni (envName m), envData m)) (acceptable p 0 msgs)
     \<and> warningsFrom p (receiveRun uni lib errCancelled self topicName newPeerTracker msgs) =
       (if 5 \<le> malformedBy p msgs then 1 else 0)"
proof -
  have "settled newPeerTracker" "malformedCount newPeerTracker p = 0"
    by (simp_all add: settled_def tracker_defs malformedThreshold_def)
  then show ?thesis
    using receiveRun_facts [of newPeerTracker p self uni lib errCancelled topicName msgs] assms
    by (simp add: malformedThreshold_def)
qed

lemma malformed_cutoff_witness:
  "warningsFrom ''p'' (receiveRun (\<lambda>r. False) textLib (ExtErr ''cancelled'') ''me'' ''t'' newPeerTracker
     (replicate 6 (''p'', [], 0, 0))) = 1"
proof -
  have "unmarshalEnvelope [] = Inl (jsonSyntaxError [])"
    by (simp add: unmarshalEnvelope_def jsonParse_def parseValue.simps eval_nat_numeral)
  then have "5 \<le> malformedBy ''p'' (replicate 6 (''p'', [], 0, 0))" by (simp add: eval_nat_numeral)
  then show ?thesis
    using malformed_cutoff [of "''p''" "''me''" "\<lambda>r. False" textLib "ExtErr ''cancelled''" "''t''" "replicate 6 (''p'', [], 0, 0)"]
    by simp
qed

end
