(* ===== verification/Lifecycle.thy ===== *)
theory Lifecycle
  imports Receive "HOL-Library.Multiset"
begin

text \<open>
  The life of a client's subscriptions (src/client.go): \<open>Subscribe\<close> and the goroutine it starts,
  the loop of \<open>receiveMessages\<close>, and \<open>Close\<close> with its background teardown, as a transition system
  whose steps are the atomic actions of each goroutine: a critical section, a channel operation,
  one return of \<open>sub.Next\<close>.  Any number of subscribers, consumers and closers interleave.

  The invariant gives the ownership of the message channels (only the reader closes its channel,
  once, and never sends on it afterwards), the meaning of the wait group, and the order of the
  teardown; a measure that every step of a reader decreases gives that a cancelled client drains.
\<close>

section \<open>State\<close>

text \<open>
  Where a reader goroutine is: the next thing it does.  Between \<open>PNext\<close> and \<open>PSend\<close> it holds a message
  of another peer and works through \<open>receiveMessages\<close>, one critical section of the tracker at a time.
\<close>

datatype rpc =
    PLookup
  | PJoin
  | PStore
  | PSubscribe
  | PStoreSub
  | PNext
  | PCheck peerID string
  | PBad peerID string goerror
  | PLogBad peerID string goerror nat bool
  | PLogSkip peerID nat
  | PName peerID envelope
  | PRecord peerID string string
  | PSend message
  | PClose
  | PDone
  | PExit

text \<open>
  A reader with its topic, its subscription's buffer \<open>rdIn\<close> and its message channel: the buffered
  messages \<open>rdOut\<close> (capacity 100) and whether it is closed.  The rest is history: \<open>rdTaken\<close> what \<open>Next\<close>
  has returned, \<open>rdPassed\<close> the messages made of it with their authors, \<open>rdSent\<close> what was sent on the
  channel and \<open>rdGot\<close> what the consumer received.
\<close>

record goReader =
  rdTopic :: string
  rdPc :: rpc
  rdIn :: "(peerID \<times> string) list"
  rdOut :: "message list"
  rdClosed :: bool
  rdSubCancelled :: bool
  rdTaken :: "(peerID \<times> string) list"
  rdPassed :: "(peerID \<times> message) list"
  rdSent :: "message list"
  rdGot :: "message list"

definition channelCapacity :: nat where "channelCapacity = 100"

definition newReader :: "string \<Rightarrow> goReader" where
  "newReader topic = \<lparr>rdTopic = topic, rdPc = PLookup, rdIn = [], rdOut = [], rdClosed = False,
     rdSubCancelled = False, rdTaken = [], rdPassed = [], rdSent = [], rdGot = []\<rparr>"

text \<open>A call of \<open>Close\<close>: what it, or the background goroutine it starts, does next.\<close>

datatype cpc =
    KClosed
  | KCancel
  | KSubs
  | KWait
  | KTopics
  | KTeardown
  | KDone

text \<open>
  \<open>syTopics\<close> are the keys of \<open>c.topics\<close>, \<open>syJoined\<close> the topics pubsub has a handle for, \<open>sySubs\<close> the reader
  whose subscription \<open>c.subs\<close> holds; \<open>syTimedOut\<close> records that a closer stopped waiting for readers,
  \<open>syTorn\<close> that the host is closed, and \<open>syPanic\<close> that the runtime panicked.  \<open>syLog\<close> are the lines
  logged about malformed messages, each with the peer it is about.
\<close>

record sys =
  readers :: "goReader list"
  syClosed :: bool
  syCtx :: bool
  syWg :: int
  syTopics :: "string set"
  syJoined :: "string set"
  sySubs :: "string \<rightharpoonup> nat"
  syPt :: peerTracker
  syLog :: "(peerID \<times> logline) list"
  closers :: "cpc list"
  syTimedOut :: bool
  syTorn :: bool
  syPanic :: bool

definition sysInit :: "sys \<Rightarrow> bool" where
  "sysInit s \<longleftrightarrow> readers s = [] \<and> \<not> syClosed s \<and> \<not> syCtx s \<and> syWg s = 0 \<and> syTopics s = {} \<and> syJoined s = {}
     \<and> sySubs s = Map.empty \<and> syPt s = newPeerTracker \<and> syLog s = [] \<and> closers s = [] \<and> \<not> syTimedOut s \<and> \<not> syTorn s \<and> \<not> syPanic s"

section \<open>Operations\<close>

text \<open>
  The critical section of \<open>Subscribe\<close>: after \<open>Close\<close> the channel is closed at once and no goroutine is
  started.
\<close>

definition Subscribe :: "string \<Rightarrow> sys \<Rightarrow> sys" where
  "Subscribe topic s =
     (if syClosed s
      then s\<lparr>readers := readers s @ [newReader topic\<lparr>rdClosed := True, rdPc := PExit\<rparr>]\<rparr>
      else s\<lparr>syWg := syWg s + 1, readers := readers s @ [newReader topic]\<rparr>)"

definition updReader :: "nat \<Rightarrow> (goReader \<Rightarrow> goReader) \<Rightarrow> sys \<Rightarrow> sys" where
  "updReader i f s = s\<lparr>readers := (readers s)[i := f (readers s ! i)]\<rparr>"

abbreviation goto :: "rpc \<Rightarrow> goReader \<Rightarrow> goReader" where
  "goto pc r \<equiv> r\<lparr>rdPc := pc\<rparr>"

text \<open>Sending on a closed channel, closing one twice, and a negative wait group panic.\<close>

definition sendOn :: "nat \<Rightarrow> message \<Rightarrow> sys \<Rightarrow> sys" where
  "sendOn i m s =
     (if rdClosed (readers s ! i) then s\<lparr>syPanic := True\<rparr>
      else updReader i (\<lambda>r. r\<lparr>rdOut := rdOut r @ [m], rdSent := rdSent r @ [m], rdPc := PNext\<rparr>) s)"

definition closeChan :: "nat \<Rightarrow> sys \<Rightarrow> sys" where
  "closeChan i s =
     (if rdClosed (readers s ! i) then s\<lparr>syPanic := True\<rparr>
      else updReader i (\<lambda>r. r\<lparr>rdClosed := True, rdPc := PDone\<rparr>) s)"

definition wgDone :: "nat \<Rightarrow> sys \<Rightarrow> sys" where
  "wgDone i s =
     (if syWg s \<le> 0 then s\<lparr>syPanic := True\<rparr> else (updReader i (goto PExit) s)\<lparr>syWg := syWg s - 1\<rparr>)"

text \<open>
  What the reader does with a message \<open>sub.Next\<close> returned, at each point: the point it goes to, the
  tracker, and the lines it logs.  \<open>now\<close> is the clock of \<open>recordMessageFrom\<close>, \<open>sent\<close> that of the message.
\<close>

fun receiveAct ::
  "(rune \<Rightarrow> bool) \<Rightarrow> 'ma netLib \<Rightarrow> string \<Rightarrow> gotime \<Rightarrow> gotime \<Rightarrow> rpc \<Rightarrow> peerTracker
     \<Rightarrow> rpc \<times> peerTracker \<times> (peerID \<times> logline) list" where
  "receiveAct uni lib topic now sent (PCheck a data) pt =
     (if shouldSkipMalformed pt a then PNext
      else (case unmarshalEnvelope data of Inl err \<Rightarrow> PBad a data err | Inr m \<Rightarrow> PName a m), pt, [])"
| "receiveAct uni lib topic now sent (PBad a data err) pt =
     (case recordMalformed pt a of (pt', cnt, justSkipped) \<Rightarrow> (PLogBad a data err cnt justSkipped, pt', []))"
| "receiveAct uni lib topic now sent (PLogBad a data err cnt justSkipped) pt =
     (if justSkipped then PLogSkip a cnt else PNext, pt,
      [(a, malformedLine [FStr (getName pt a), FStr (idString lib a), FStr topic, FErr err, FInt (int cnt),
             FInt (int (length data)), FStr (if 128 < length data then take 128 data else data), FStr data])])"
| "receiveAct uni lib topic now sent (PLogSkip a cnt) pt =
     (PNext, pt, [(a, skippingLine [FStr (getName pt a), FStr (idString lib a), FStr topic, FInt (int cnt)])])"
| "receiveAct uni lib topic now sent (PName a m) pt =
     (case updateName uni pt a (envName m) of (pt', name) \<Rightarrow> (PRecord a name (envData m), pt', []))"
| "receiveAct uni lib topic now sent (PRecord a name data) pt =
     (PSend \<lparr>msgTopic = topic, msgFrom = name, msgFromID = idString lib a, msgData = data, msgTimestamp = sent\<rparr>,
      recordMessageFrom pt a now, [])"
| "receiveAct uni lib topic now sent pc pt = (pc, pt, [])"

fun receiving :: "rpc \<Rightarrow> bool" where
  "receiving (PCheck a data) = True"
| "receiving (PBad a data err) = True"
| "receiving (PLogBad a data err cnt justSkipped) = True"
| "receiving (PLogSkip a cnt) = True"
| "receiving (PName a m) = True"
| "receiving (PRecord a name data) = True"
| "receiving pc = False"

text \<open>The message a reader is about to offer to its channel, for the history.\<close>

fun passing :: "rpc \<Rightarrow> rpc \<Rightarrow> (peerID \<times> message) list" where
  "passing (PRecord a name data) (PSend m) = [(a, m)]"
| "passing pc pc' = []"

text \<open>How far a reader is from its exit, when nothing more arrives.\<close>

fun rank :: "rpc \<Rightarrow> nat" where
  "rank PLookup = 8"
| "rank PJoin = 7"
| "rank PStore = 6"
| "rank PSubscribe = 5"
| "rank PStoreSub = 4"
| "rank PNext = 3"
| "rank (PCheck a data) = 7"
| "rank (PBad a data err) = 6"
| "rank (PLogBad a data err cnt justSkipped) = 5"
| "rank (PLogSkip a cnt) = 4"
| "rank (PName a m) = 6"
| "rank (PRecord a name data) = 5"
| "rank (PSend m) = 4"
| "rank PClose = 2"
| "rank PDone = 1"
| "rank PExit = 0"

definition takeNext :: "peerID \<Rightarrow> nat \<Rightarrow> peerID \<times> string \<Rightarrow> sys \<Rightarrow> sys" where
  "takeNext self i m s =
     updReader i (\<lambda>r. r\<lparr>rdIn := tl (rdIn r), rdTaken := rdTaken r @ [m],
       rdPc := (if fst m = self then PNext else PCheck (fst m) (snd m))\<rparr>) s"

definition takeMessage :: "(rune \<Rightarrow> bool) \<Rightarrow> 'ma netLib \<Rightarrow> gotime \<Rightarrow> gotime \<Rightarrow> nat \<Rightarrow> sys \<Rightarrow> sys" where
  "takeMessage uni lib now sent i s =
     (case receiveAct uni lib (rdTopic (readers s ! i)) now sent (rdPc (readers s ! i)) (syPt s) of
        (pc', pt', lines) \<Rightarrow>
          (updReader i (\<lambda>r. r\<lparr>rdPc := pc', rdPassed := rdPassed r @ passing (rdPc r) pc'\<rparr>) s)
            \<lparr>syPt := pt', syLog := syLog s @ lines\<rparr>)"

text \<open>The cleanup loop of \<open>Close\<close> over \<open>c.subs\<close>.\<close>

definition cancelSubs :: "sys \<Rightarrow> sys" where
  "cancelSubs s = s\<lparr>readers := map (\<lambda>(i, r). if i \<in> ran (sySubs s) then r\<lparr>rdSubCancelled := True\<rparr> else r)
     (enumerate 0 (readers s))\<rparr>"

text \<open>
  What \<open>Close\<close> and its background goroutine do at each point.  At \<open>KTopics\<close> they close the topic handles
  and at \<open>KTeardown\<close> mDNS, the DHT and the host, of which only the host matters here.
\<close>

fun closeAction :: "cpc \<Rightarrow> sys \<Rightarrow> sys" where
  "closeAction KClosed s = s\<lparr>syClosed := True\<rparr>"
| "closeAction KCancel s = s\<lparr>syCtx := True\<rparr>"
| "closeAction KSubs s = cancelSubs s"
| "closeAction KWait s = s"
| "closeAction KTopics s = s"
| "closeAction KTeardown s = s\<lparr>syTorn := True\<rparr>"
| "closeAction KDone s = s"

section \<open>Steps\<close>

datatype actor =
    ByReader nat
  | ByCloser nat
  | ByCaller
  | ByConsumer nat
  | ByPubsub nat

text \<open>The subscription exists, so pubsub may hand it messages.\<close>

fun inLoop :: "rpc \<Rightarrow> bool" where
  "inLoop PStoreSub = True"
| "inLoop PNext = True"
| "inLoop (PSend m) = True"
| "inLoop pc = receiving pc"

abbreviation readerAt :: "sys \<Rightarrow> nat \<Rightarrow> rpc \<Rightarrow> bool" where
  "readerAt s i pc \<equiv> i < length (readers s) \<and> rdPc (readers s ! i) = pc"

abbreviation closerAt :: "sys \<Rightarrow> nat \<Rightarrow> cpc \<Rightarrow> bool" where
  "closerAt s k pc \<equiv> k < length (closers s) \<and> closers s ! k = pc"

inductive sysStep ::
  "(rune \<Rightarrow> bool) \<Rightarrow> 'ma netLib \<Rightarrow> peerID \<Rightarrow> actor \<Rightarrow> sys \<Rightarrow> sys \<Rightarrow> bool"
  for uni lib self where
  subscribe: "sysStep uni lib self ByCaller s (Subscribe topic s)"
| lookup: "readerAt s i PLookup \<Longrightarrow>
    sysStep uni lib self (ByReader i) s
      (updReader i (goto (if rdTopic (readers s ! i) \<in> syTopics s then PSubscribe else PJoin)) s)"
| join: "readerAt s i PJoin \<Longrightarrow> rdTopic (readers s ! i) \<notin> syJoined s \<Longrightarrow>
    sysStep uni lib self (ByReader i) s
      ((updReader i (goto PStore) s)\<lparr>syJoined := insert (rdTopic (readers s ! i)) (syJoined s)\<rparr>)"
| join_fails: "readerAt s i PJoin \<Longrightarrow>
    sysStep uni lib self (ByReader i) s (updReader i (goto PClose) s)"
| store: "readerAt s i PStore \<Longrightarrow>
    sysStep uni lib self (ByReader i) s
      ((updReader i (goto PSubscribe) s)\<lparr>syTopics := insert (rdTopic (readers s ! i)) (syTopics s)\<rparr>)"
| subscribed: "readerAt s i PSubscribe \<Longrightarrow>
    sysStep uni lib self (ByReader i) s (updReader i (goto PStoreSub) s)"
| subscribe_fails: "readerAt s i PSubscribe \<Longrightarrow>
    sysStep uni lib self (ByReader i) s (updReader i (goto PClose) s)"
| store_sub: "readerAt s i PStoreSub \<Longrightarrow>
    sysStep uni lib self (ByReader i) s
      ((updReader i (goto PNext) s)\<lparr>sySubs := (sySubs s)(rdTopic (readers s ! i) \<mapsto> i)\<rparr>)"
| next_message: "readerAt s i PNext \<Longrightarrow> rdIn (readers s ! i) = m # ms \<Longrightarrow>
    sysStep uni lib self (ByReader i) s (takeNext self i m s)"
| receive: "i < length (readers s) \<Longrightarrow> receiving (rdPc (readers s ! i)) \<Longrightarrow>
    sysStep uni lib self (ByReader i) s (takeMessage uni lib now sent i s)"
| next_error: "readerAt s i PNext \<Longrightarrow> syCtx s \<or> rdSubCancelled (readers s ! i) \<Longrightarrow>
    sysStep uni lib self (ByReader i) s (updReader i (goto PClose) s)"
| send: "readerAt s i (PSend m) \<Longrightarrow> length (rdOut (readers s ! i)) < channelCapacity \<or> rdClosed (readers s ! i) \<Longrightarrow>
    sysStep uni lib self (ByReader i) s (sendOn i m s)"
| send_abort: "readerAt s i (PSend m) \<Longrightarrow> syCtx s \<Longrightarrow>
    sysStep uni lib self (ByReader i) s (updReader i (goto PClose) s)"
| close_chan: "readerAt s i PClose \<Longrightarrow>
    sysStep uni lib self (ByReader i) s (closeChan i s)"
| wg_done: "readerAt s i PDone \<Longrightarrow>
    sysStep uni lib self (ByReader i) s (wgDone i s)"
| consume: "i < length (readers s) \<Longrightarrow> rdOut (readers s ! i) = m # ms \<Longrightarrow>
    sysStep uni lib self (ByConsumer i) s
      (updReader i (\<lambda>r. r\<lparr>rdOut := ms, rdGot := rdGot r @ [m]\<rparr>) s)"
| arrive: "i < length (readers s) \<Longrightarrow> inLoop (rdPc (readers s ! i)) \<Longrightarrow>
    sysStep uni lib self (ByPubsub i) s (updReader i (\<lambda>r. r\<lparr>rdIn := rdIn r @ [m]\<rparr>) s)"
| publish_joins: "topic \<notin> syJoined s \<Longrightarrow>
    sysStep uni lib self ByCaller s (s\<lparr>syJoined := insert topic (syJoined s)\<rparr>)"
| publish_stores: "topic \<in> syJoined s \<Longrightarrow>
    sysStep uni lib self ByCaller s (s\<lparr>syTopics := insert topic (syTopics s)\<rparr>)"
| close_call: "sysStep uni lib self ByCaller s (s\<lparr>closers := closers s @ [KClosed]\<rparr>)"
| set_closed: "closerAt s k KClosed \<Longrightarrow>
    sysStep uni lib self (ByCloser k) s ((closeAction KClosed s)\<lparr>closers := (closers s)[k := KCancel]\<rparr>)"
| cancel: "closerAt s k KCancel \<Longrightarrow>
    sysStep uni lib self (ByCloser k) s ((closeAction KCancel s)\<lparr>closers := (closers s)[k := KSubs]\<rparr>)"
| cancel_subs: "closerAt s k KSubs \<Longrightarrow>
    sysStep uni lib self (ByCloser k) s ((closeAction KSubs s)\<lparr>closers := (closers s)[k := KWait]\<rparr>)"
| waited: "closerAt s k KWait \<Longrightarrow> syWg s = 0 \<Longrightarrow>
    sysStep uni lib self (ByCloser k) s ((closeAction KWait s)\<lparr>closers := (closers s)[k := KTopics]\<rparr>)"
| wait_timeout: "closerAt s k KWait \<Longrightarrow>
    sysStep uni lib self (ByCloser k) s (s\<lparr>syTimedOut := True, closers := (closers s)[k := KTopics]\<rparr>)"
| close_topics: "closerAt s k KTopics \<Longrightarrow>
    sysStep uni lib self (ByCloser k) s ((closeAction KTopics s)\<lparr>closers := (closers s)[k := KTeardown]\<rparr>)"
| teardown: "closerAt s k KTeardown \<Longrightarrow>
    sysStep uni lib self (ByCloser k) s ((closeAction KTeardown s)\<lparr>closers := (closers s)[k := KDone]\<rparr>)"

section \<open>The invariant\<close>

definition readerOK :: "goReader \<Rightarrow> bool" where
  "readerOK r \<longleftrightarrow> rdClosed r = (rdPc r \<in> {PDone, PExit}) \<and> rdSent r = rdGot r @ rdOut r
     \<and> length (rdOut r) \<le> channelCapacity"

definition exited :: "goReader \<Rightarrow> bool" where
  "exited r \<longleftrightarrow> rdPc r = PExit"

definition liveReaders :: "sys \<Rightarrow> nat" where
  "liveReaders s = length (filter (\<lambda>r. \<not> exited r) (readers s))"

definition closerOK :: "sys \<Rightarrow> cpc \<Rightarrow> bool" where
  "closerOK s pc \<longleftrightarrow> (pc \<noteq> KClosed \<longrightarrow> syClosed s) \<and> (pc \<notin> {KClosed, KCancel} \<longrightarrow> syCtx s)
     \<and> (pc \<in> {KTopics, KTeardown, KDone} \<longrightarrow> syTimedOut s \<or> syWg s = 0)"

definition sys_inv :: "sys \<Rightarrow> bool" where
  "sys_inv s \<longleftrightarrow> list_all readerOK (readers s) \<and> syWg s = int (liveReaders s) \<and> list_all (closerOK s) (closers s)
     \<and> (syCtx s \<longrightarrow> syClosed s) \<and> (syTorn s \<longrightarrow> syCtx s \<and> (syTimedOut s \<or> syWg s = 0)) \<and> \<not> syPanic s"

lemma list_all_update: "list_all P xs \<Longrightarrow> P y \<Longrightarrow> list_all P (xs[i := y])"
  using set_update_subset_insert [of xs i y] by (auto simp: list_all_iff)

lemma length_filter_update:
  "i < length xs \<Longrightarrow> length (filter P (xs[i := y])) + (if P (xs ! i) then 1 else 0)
     = length (filter P xs) + (if P y then 1 else 0)"
proof (induction xs arbitrary: i)
  case (Cons x xs)
  then show ?case by (cases i) auto
qed simp

text \<open>Only these components matter to the invariant.\<close>

lemma sys_inv_cong:
  assumes "readers t = readers s" "syWg t = syWg s" "closers t = closers s" "syClosed t = syClosed s"
    "syCtx t = syCtx s" "syTorn t = syTorn s" "syTimedOut t = syTimedOut s" "syPanic t = syPanic s"
  shows "sys_inv t = sys_inv s"
proof -
  have "closerOK t = closerOK s" by (rule ext) (simp add: closerOK_def assms)
  then show ?thesis by (simp add: sys_inv_def liveReaders_def assms)
qed

lemma updReader_simps [simp]:
  "syWg (updReader i f s) = syWg s" "closers (updReader i f s) = closers s"
  "syClosed (updReader i f s) = syClosed s" "syCtx (updReader i f s) = syCtx s"
  "syTorn (updReader i f s) = syTorn s" "syTimedOut (updReader i f s) = syTimedOut s"
  "syPanic (updReader i f s) = syPanic s" "syTopics (updReader i f s) = syTopics s"
  "syJoined (updReader i f s) = syJoined s" "sySubs (updReader i f s) = sySubs s"
  "readers (updReader i f s) = (readers s)[i := f (readers s ! i)]"
  by (simp_all add: updReader_def)

lemma inv_reader: "sys_inv s \<Longrightarrow> i < length (readers s) \<Longrightarrow> readerOK (readers s ! i)"
  by (simp add: sys_inv_def list_all_length)

lemma inv_update:
  assumes "sys_inv s" and "i < length (readers s)" and "readerOK (f (readers s ! i))"
    and "exited (f (readers s ! i)) = exited (readers s ! i)"
  shows "sys_inv (updReader i f s)"
proof -
  have "closerOK (updReader i f s) = closerOK s" by (rule ext) (simp add: closerOK_def)
  moreover have "liveReaders (updReader i f s) = liveReaders s"
    using length_filter_update [OF assms(2), of "\<lambda>r. \<not> exited r" "f (readers s ! i)"] assms(4)
    by (auto simp: liveReaders_def split: if_splits)
  ultimately show ?thesis using assms(1,3)
    by (auto simp: sys_inv_def list_all_update)
qed

lemma inv_goto:
  assumes "sys_inv s" and "readerAt s i pc" and "pc \<notin> {PDone, PExit}" and "pc' \<notin> {PDone, PExit}"
  shows "sys_inv (updReader i (goto pc') s)"
  using assms inv_reader [OF assms(1), of i]
  by (intro inv_update) (auto simp: readerOK_def exited_def)

lemma inv_closer:
  assumes "sys_inv s" and "closerOK s pc"
  shows "sys_inv (s\<lparr>closers := (closers s)[k := pc]\<rparr>)"
proof -
  have "closerOK (s\<lparr>closers := (closers s)[k := pc]\<rparr>) = closerOK s" by (rule ext) (simp add: closerOK_def)
  then show ?thesis using assms by (auto simp: sys_inv_def liveReaders_def list_all_update)
qed

lemma closerOK_mono:
  assumes "syClosed s \<longrightarrow> syClosed t" and "syCtx s \<longrightarrow> syCtx t" and "syTimedOut s \<or> syWg s = 0 \<longrightarrow> syTimedOut t \<or> syWg t = 0"
  shows "closerOK s pc \<Longrightarrow> closerOK t pc"
  using assms by (auto simp: closerOK_def)

lemma subscribe_inv:
  assumes "sys_inv s"
  shows "sys_inv (Subscribe topic s)"
proof (cases "syClosed s")
  case True
  then have "closerOK (Subscribe topic s) = closerOK s" by (intro ext) (simp add: closerOK_def Subscribe_def)
  then show ?thesis using assms True
    by (auto simp: sys_inv_def Subscribe_def liveReaders_def readerOK_def newReader_def exited_def channelCapacity_def)
next
  case False
  have "list_all (closerOK s) (closers s)" using assms by (simp add: sys_inv_def)
  then have "list_all (closerOK (Subscribe topic s)) (closers s)"
    by (rule list.pred_mono_strong) (use False in \<open>auto simp: closerOK_def\<close>)
  then show ?thesis using assms False
    by (auto simp: sys_inv_def Subscribe_def liveReaders_def readerOK_def newReader_def exited_def channelCapacity_def)
qed

lemma sendOn_inv:
  assumes "sys_inv s" and "readerAt s i (PSend m)" and "length (rdOut (readers s ! i)) < channelCapacity \<or> rdClosed (readers s ! i)"
  shows "sys_inv (sendOn i m s)"
  using assms inv_reader [OF assms(1), of i] unfolding sendOn_def
  by (auto simp: readerOK_def exited_def intro!: inv_update)

lemma closeChan_inv:
  assumes "sys_inv s" and "readerAt s i PClose"
  shows "sys_inv (closeChan i s)"
  using assms inv_reader [OF assms(1), of i] unfolding closeChan_def
  by (auto simp: readerOK_def exited_def intro!: inv_update)

lemma wgDone_inv:
  assumes "sys_inv s" and "readerAt s i PDone"
  shows "sys_inv (wgDone i s)"
proof -
  let ?t = "(updReader i (goto PExit) s)\<lparr>syWg := syWg s - 1\<rparr>"
  have ok: "readerOK (goto PExit (readers s ! i))"
    using assms inv_reader [OF assms(1), of i] by (simp add: readerOK_def)
  have live: "liveReaders s = Suc (liveReaders ?t)"
    using length_filter_update [of i "readers s" "\<lambda>r. \<not> exited r" "goto PExit (readers s ! i)"] assms(2)
    by (simp add: liveReaders_def exited_def)
  then have wg: "0 < syWg s" using assms(1) by (simp add: sys_inv_def)
  have "list_all (closerOK ?t) (closers s)"
    using assms(1) wg by (auto simp: sys_inv_def list_all_iff closerOK_def)
  then have "sys_inv ?t" using assms(1) ok live wg
    by (auto simp: sys_inv_def list_all_update)
  then show ?thesis using wg by (simp add: wgDone_def)
qed

lemma receiveAct_cases:
  assumes "receiveAct uni lib topic now sent pc pt = (pc', pt', lines)" and "receiving pc"
  shows "pc' = PNext \<or> receiving pc' \<or> (\<exists>m. pc' = PSend m)" and "rank pc' < rank pc"
  using assms by (cases pc; auto split: if_splits sum.splits prod.splits)+

text \<open>A step changes the tracker by at most one of its operations.\<close>

lemma receiveAct_op:
  assumes "receiveAct uni lib topic now sent pc pt = (pc', pt', lines)"
  shows "pt' = pt \<or> (\<exists>op. pt' = trackerStep uni pt op)"
proof (cases pc)
  case (PBad a data err)
  then have "pt' = trackerStep uni pt (RecordMalformed a)" using assms by (auto split: prod.splits)
  then show ?thesis by blast
next
  case (PName a m)
  then have "pt' = trackerStep uni pt (UpdateName a (envName m))" using assms by (auto split: prod.splits)
  then show ?thesis by blast
next
  case (PRecord a name data)
  then have "pt' = trackerStep uni pt (RecordMessageFrom a now)" using assms by auto
  then show ?thesis by blast
qed (use assms in auto)

lemma receiveAct_tracker:
  "receiveAct uni lib topic now sent pc pt = (pc', pt', lines) \<Longrightarrow> tracker_inv uni pt \<Longrightarrow> tracker_inv uni pt'"
  using receiveAct_op tracker_step_inv by metis

lemma receiving_open: "receiving pc \<Longrightarrow> pc \<notin> {PDone, PExit}"
  by (cases pc) simp_all

lemma takeNext_inv:
  "sys_inv s \<Longrightarrow> readerAt s i PNext \<Longrightarrow> sys_inv (takeNext self i m s)"
  unfolding takeNext_def using inv_reader [of s i]
  by (intro inv_update) (auto simp: readerOK_def exited_def)

lemma takeMessage_inv:
  assumes "sys_inv s" and "i < length (readers s)" and "receiving (rdPc (readers s ! i))"
  shows "sys_inv (takeMessage uni lib now sent i s)"
proof -
  obtain pc' pt' lines where r: "receiveAct uni lib (rdTopic (readers s ! i)) now sent (rdPc (readers s ! i)) (syPt s)
      = (pc', pt', lines)" by (rule prod_cases3)
  have "pc' \<notin> {PDone, PExit}" "rdPc (readers s ! i) \<notin> {PDone, PExit}"
    using receiveAct_cases(1) [OF r assms(3)] receiving_open assms(3) by auto
  then have "sys_inv (updReader i (\<lambda>r. r\<lparr>rdPc := pc', rdPassed := rdPassed r @ passing (rdPc r) pc'\<rparr>) s)"
    using assms(1,2) inv_reader [OF assms(1,2)] by (intro inv_update) (auto simp: readerOK_def exited_def)
  then show ?thesis unfolding takeMessage_def r prod.case by (subst sys_inv_cong) simp_all
qed

lemma cancelSubs_reader:
  "i < length (readers s) \<Longrightarrow> readers (cancelSubs s) ! i =
     (if i \<in> ran (sySubs s) then (readers s ! i)\<lparr>rdSubCancelled := True\<rparr> else readers s ! i)"
  by (simp add: cancelSubs_def nth_enumerate_eq)

lemma live_exited: "liveReaders s = length (filter Not (map exited (readers s)))"
  by (simp add: liveReaders_def filter_map comp_def)

lemma cancelSubs_inv:
  assumes "sys_inv s"
  shows "sys_inv (cancelSubs s)"
proof -
  have len: "length (readers (cancelSubs s)) = length (readers s)" by (simp add: cancelSubs_def)
  have "map exited (readers (cancelSubs s)) = map exited (readers s)"
    by (rule nth_equalityI) (simp_all add: len cancelSubs_reader exited_def)
  then have live: "liveReaders (cancelSubs s) = liveReaders s" by (simp add: live_exited)
  have "readerOK (readers (cancelSubs s) ! i)" if "i < length (readers s)" for i
    using inv_reader [OF assms that] that by (simp add: cancelSubs_reader readerOK_def)
  then have ok: "list_all readerOK (readers (cancelSubs s))" by (simp add: list_all_length len)
  have rest: "syWg (cancelSubs s) = syWg s" "closers (cancelSubs s) = closers s" "syClosed (cancelSubs s) = syClosed s"
    "syCtx (cancelSubs s) = syCtx s" "syTorn (cancelSubs s) = syTorn s" "syTimedOut (cancelSubs s) = syTimedOut s"
    "syPanic (cancelSubs s) = syPanic s"
    by (simp_all add: cancelSubs_def)
  have "closerOK (cancelSubs s) = closerOK s" by (rule ext) (simp add: closerOK_def rest)
  then show ?thesis using assms unfolding sys_inv_def rest live by (auto simp: ok)
qed

text \<open>A closer's step: its guard implies what the next point of the program requires.\<close>

lemma inv_closer_flags:
  assumes "sys_inv s" and "closerOK t pc"
    and "readers t = readers s" "syWg t = syWg s" "syPanic t = syPanic s" "closers t = closers s"
    and "syClosed s \<longrightarrow> syClosed t" "syCtx s \<longrightarrow> syCtx t" "syTimedOut s \<longrightarrow> syTimedOut t"
    and "syCtx t \<longrightarrow> syClosed t" "syTorn t \<longrightarrow> syCtx t \<and> (syTimedOut t \<or> syWg t = 0)"
  shows "sys_inv (t\<lparr>closers := (closers t)[k := pc]\<rparr>)"
proof (rule inv_closer)
  have "list_all (closerOK t) (closers t)"
    using assms(1) unfolding assms(6) sys_inv_def
    by (elim conjE list.pred_mono_strong closerOK_mono [rotated -1]) (use assms in auto)
  then show "sys_inv t" using assms by (auto simp: sys_inv_def liveReaders_def)
qed (rule assms(2))

lemma inv_closerAt: "sys_inv s \<Longrightarrow> closerAt s k pc \<Longrightarrow> closerOK s pc"
  by (auto simp: sys_inv_def list_all_length)

lemma sysStep_inv:
  assumes "sys_inv s" and "sysStep uni lib self a s t"
  shows "sys_inv t"
  using assms(2)
proof cases
  case (subscribe topic)
  then show ?thesis using assms(1) by (simp add: subscribe_inv)
next
  case (join i)
  have "sys_inv (updReader i (goto PStore) s)" using assms(1) join(3) by (rule inv_goto) simp_all
  then show ?thesis unfolding join by (subst sys_inv_cong) simp_all
next
  case (store i)
  have "sys_inv (updReader i (goto PSubscribe) s)" using assms(1) store(3) by (rule inv_goto) simp_all
  then show ?thesis unfolding store by (subst sys_inv_cong) simp_all
next
  case (store_sub i)
  have "sys_inv (updReader i (goto PNext) s)" using assms(1) store_sub(3) by (rule inv_goto) simp_all
  then show ?thesis unfolding store_sub by (subst sys_inv_cong) simp_all
next
  case (next_message i m ms)
  then show ?thesis using assms(1) by (simp add: takeNext_inv)
next
  case (receive i now sent)
  then show ?thesis using assms(1) by (simp add: takeMessage_inv)
next
  case (consume i m ms)
  then show ?thesis using assms(1) inv_reader [OF assms(1), of i]
    by (auto simp: readerOK_def exited_def intro!: inv_update)
next
  case (arrive i m)
  then show ?thesis using assms(1) inv_reader [OF assms(1), of i]
    by (auto simp: readerOK_def exited_def intro!: inv_update)
next
  case (publish_joins topic)
  then show ?thesis using assms(1) by (subst sys_inv_cong [of _ s]) simp_all
next
  case (publish_stores topic)
  then show ?thesis using assms(1) by (subst sys_inv_cong [of _ s]) simp_all
next
  case close_call
  have "closerOK (s\<lparr>closers := closers s @ [KClosed]\<rparr>) = closerOK s" by (rule ext) (simp add: closerOK_def)
  then show ?thesis using assms(1) unfolding close_call by (auto simp: sys_inv_def liveReaders_def closerOK_def)
next
  case (set_closed k)
  then show ?thesis using assms(1) inv_closer_flags [of s "s\<lparr>syClosed := True\<rparr>" KCancel k]
    by (auto simp: closerOK_def sys_inv_def)
next
  case (cancel k)
  then show ?thesis using assms(1) inv_closerAt [OF assms(1), of k KCancel] inv_closer_flags [of s "s\<lparr>syCtx := True\<rparr>" KSubs k]
    by (auto simp: closerOK_def sys_inv_def)
next
  case (cancel_subs k)
  have "closerOK (cancelSubs s) KWait"
    using inv_closerAt [OF assms(1) cancel_subs(3)] by (simp add: closerOK_def cancelSubs_def)
  then have "sys_inv ((cancelSubs s)\<lparr>closers := (closers (cancelSubs s))[k := KWait]\<rparr>)"
    by (intro inv_closer cancelSubs_inv assms(1))
  then show ?thesis unfolding cancel_subs by (simp add: cancelSubs_def)
next
  case (waited k)
  then show ?thesis using assms(1) inv_closerAt [OF assms(1), of k KWait] inv_closer [of s KTopics k]
    by (auto simp: closerOK_def)
next
  case (wait_timeout k)
  then show ?thesis using assms(1) inv_closerAt [OF assms(1), of k KWait] inv_closer_flags [of s "s\<lparr>syTimedOut := True\<rparr>" KTopics k]
    by (auto simp: closerOK_def sys_inv_def)
next
  case (close_topics k)
  then show ?thesis using assms(1) inv_closerAt [OF assms(1), of k KTopics] inv_closer [of s KTeardown k]
    by (auto simp: closerOK_def)
next
  case (teardown k)
  then show ?thesis using assms(1) inv_closerAt [OF assms(1), of k KTeardown] inv_closer_flags [of s "s\<lparr>syTorn := True\<rparr>" KDone k]
    by (auto simp: closerOK_def sys_inv_def)
qed (use assms(1) in \<open>auto intro!: inv_goto sendOn_inv closeChan_inv wgDone_inv\<close>)

lemma sysInit_inv: "sysInit s \<Longrightarrow> sys_inv s"
  by (simp add: sysInit_def sys_inv_def liveReaders_def)

definition sysNext :: "(rune \<Rightarrow> bool) \<Rightarrow> 'ma netLib \<Rightarrow> peerID \<Rightarrow> sys \<Rightarrow> sys \<Rightarrow> bool" where
  "sysNext uni lib self s t \<longleftrightarrow> (\<exists>a. sysStep uni lib self a s t)"

interpretation client: invariant_system sysInit "sysNext uni lib self" sys_inv
  for uni lib self
  by unfold_locales (auto simp: sysNext_def intro: sysInit_inv sysStep_inv)

section \<open>Draining\<close>

definition readerMove :: "(rune \<Rightarrow> bool) \<Rightarrow> 'ma netLib \<Rightarrow> peerID \<Rightarrow> sys \<Rightarrow> sys \<Rightarrow> bool" where
  "readerMove uni lib self s t \<longleftrightarrow> (\<exists>i. sysStep uni lib self (ByReader i) s t)"

definition weight :: "goReader \<Rightarrow> nat" where
  "weight r = rank (rdPc r) + 5 * length (rdIn r)"

text \<open>The work left to the readers: every one of their steps consumes some.\<close>

definition work :: "sys \<Rightarrow> nat" where
  "work s = sum_list (map weight (readers s))"

lemma sum_list_replace:
  "i < length xs \<Longrightarrow> sum_list (map f (xs[i := y])) + f (xs ! i) = sum_list (map f xs) + (f y :: nat)"
proof (induction xs arbitrary: i)
  case (Cons x xs)
  then show ?case by (cases i) auto
qed simp

lemma work_update:
  assumes "i < length (readers s)" and "weight (f (readers s ! i)) < weight (readers s ! i)"
  shows "work (updReader i f s) < work s"
  using sum_list_replace [OF assms(1), of weight "f (readers s ! i)"] assms(2) by (simp add: work_def)

lemma work_frame [simp]:
  "work (s\<lparr>syJoined := x\<rparr>) = work s" "work (s\<lparr>syTopics := y\<rparr>) = work s" "work (s\<lparr>sySubs := z\<rparr>) = work s"
  "work (s\<lparr>syPt := pt\<rparr>) = work s" "work (s\<lparr>syPt := pt, syLog := ls\<rparr>) = work s" "work (s\<lparr>syWg := n\<rparr>) = work s"
  by (simp_all add: work_def)

lemma takeNext_work:
  assumes "readerAt s i PNext" and "rdIn (readers s ! i) = m # ms"
  shows "work (takeNext self i m s) < work s \<and> syCtx (takeNext self i m s) = syCtx s"
proof
  show "work (takeNext self i m s) < work s"
    unfolding takeNext_def using assms by (intro work_update) (auto simp: weight_def)
qed (simp add: takeNext_def)

lemma takeMessage_work:
  assumes "i < length (readers s)" and "receiving (rdPc (readers s ! i))"
  shows "work (takeMessage uni lib now sent i s) < work s \<and> syCtx (takeMessage uni lib now sent i s) = syCtx s"
proof -
  obtain pc' pt' lines where r: "receiveAct uni lib (rdTopic (readers s ! i)) now sent (rdPc (readers s ! i)) (syPt s)
      = (pc', pt', lines)" by (rule prod_cases3)
  have "work (updReader i (\<lambda>r. r\<lparr>rdPc := pc', rdPassed := rdPassed r @ passing (rdPc r) pc'\<rparr>) s) < work s"
    using receiveAct_cases(2) [OF r assms(2)] assms(1) by (intro work_update) (simp_all add: weight_def)
  then show ?thesis by (simp add: takeMessage_def r)
qed

lemma wgDone_work:
  assumes "sys_inv s" and "readerAt s i PDone"
  shows "work (wgDone i s) < work s \<and> syCtx (wgDone i s) = syCtx s"
proof -
  have "\<not> exited (readers s ! i)" using assms(2) by (simp add: exited_def)
  then have "readers s ! i \<in> set (filter (\<lambda>r. \<not> exited r) (readers s))" using assms(2) by simp
  then have "0 < liveReaders s" unfolding liveReaders_def by (rule length_pos_if_in_set)
  then have "0 < syWg s" using assms(1) by (simp add: sys_inv_def)
  moreover have "work (updReader i (goto PExit) s) < work s"
    using assms(2) by (intro work_update) (auto simp: weight_def)
  ultimately show ?thesis by (simp add: wgDone_def)
qed

lemma readerMove_work:
  assumes "sys_inv s" and "readerMove uni lib self s t"
  shows "work t < work s \<and> syCtx t = syCtx s"
proof -
  obtain i where "sysStep uni lib self (ByReader i) s t"
    using assms(2) by (auto simp: readerMove_def)
  then show ?thesis
  proof cases
    case (next_message m ms)
    then show ?thesis using takeNext_work [of i s m ms] by simp
  next
    case (receive now sent)
    then show ?thesis using takeMessage_work [of i s] by simp
  next
    case (send m)
    then have "\<not> rdClosed (readers s ! i)" using inv_reader [OF assms(1), of i] by (auto simp: readerOK_def)
    then show ?thesis using send by (simp add: sendOn_def) (intro work_update, auto simp: weight_def)
  next
    case close_chan
    then have "\<not> rdClosed (readers s ! i)" using inv_reader [OF assms(1), of i] by (auto simp: readerOK_def)
    then show ?thesis using close_chan by (simp add: closeChan_def) (intro work_update, auto simp: weight_def)
  next
    case wg_done
    then show ?thesis using wgDone_work [OF assms(1), of i] by simp
  qed (auto intro!: work_update simp: weight_def)
qed

lemma readerMoves_work:
  "sys_inv s \<Longrightarrow> (readerMove uni lib self ^^ k) s t \<Longrightarrow>
     sys_inv t \<and> k + work t \<le> work s \<and> syCtx t = syCtx s"
proof (induction k arbitrary: t)
  case (Suc k)
  then obtain u where u: "(readerMove uni lib self ^^ k) s u" "readerMove uni lib self u t"
    by auto
  then have "sys_inv u" "k + work u \<le> work s" "syCtx u = syCtx s" using Suc by auto
  moreover have "sys_inv t" using \<open>sys_inv u\<close> u(2) sysStep_inv by (auto simp: readerMove_def)
  ultimately show ?case using readerMove_work [OF \<open>sys_inv u\<close> u(2)] by simp
qed simp

text \<open>With the context cancelled no reader is ever stuck.\<close>

lemma reader_progress:
  assumes "syCtx s" and "i < length (readers s)" and "\<not> exited (readers s ! i)"
  shows "\<exists>t. sysStep uni lib self (ByReader i) s t"
proof (cases "receiving (rdPc (readers s ! i))")
  case True
  then show ?thesis using receive assms(2) by blast
next
  case False
  show ?thesis
  proof (cases "rdPc (readers s ! i)")
    case (PSend m)
    then show ?thesis using assms by (blast intro: send_abort)
  next
    case PExit
    then show ?thesis using assms(3) by (simp add: exited_def)
  qed (use assms False in \<open>simp_all, (blast intro: lookup join_fails store subscribe_fails store_sub next_error close_chan wg_done)+\<close>)
qed

lemma stuck_drained:
  assumes "sys_inv s" and "syCtx s" and "\<not> (\<exists>u. readerMove uni lib self s u)"
  shows "list_all rdClosed (readers s) \<and> syWg s = 0"
proof -
  have ex: "exited (readers s ! i)" if "i < length (readers s)" for i
    using reader_progress [OF assms(2) that, of uni lib self] assms(3) by (auto simp: readerMove_def)
  then have "filter (\<lambda>r. \<not> exited r) (readers s) = []" by (auto simp: filter_empty_conv in_set_conv_nth)
  then have "syWg s = 0" using assms(1) by (simp add: sys_inv_def liveReaders_def)
  moreover have "rdClosed (readers s ! i)" if "i < length (readers s)" for i
    using inv_reader [OF assms(1) that] ex [OF that] by (simp add: readerOK_def exited_def)
  ultimately show ?thesis by (simp add: list_all_length)
qed

section \<open>Properties\<close>

text \<open>C1. Under every interleaving of subscribers, readers, consumers and closers, a message channel is
  closed exactly once, by its own reader after its last send: no send on a closed channel, no
  double close and no negative wait group is reachable, and a reader about to send or to close
  finds its channel open.\<close>

theorem channels_owned:
  assumes "reach sysInit (sysNext uni lib self) s"
  shows "\<not> syPanic s \<and> list_all (\<lambda>r. rdClosed r = (rdPc r \<in> {PDone, PExit})) (readers s)
    \<and> syWg s = int (length (filter (\<lambda>r. rdPc r \<noteq> PExit) (readers s)))"
proof -
  have inv: "sys_inv s" by (rule client.reach_inv [OF assms])
  then have "list_all (\<lambda>r. rdClosed r = (rdPc r \<in> {PDone, PExit})) (readers s)"
    by (auto simp: sys_inv_def readerOK_def list_all_iff)
  then show ?thesis using inv by (simp add: sys_inv_def liveReaders_def exited_def)
qed

definition freshSys :: sys where
  "freshSys = \<lparr>readers = [], syClosed = False, syCtx = False, syWg = 0, syTopics = {}, syJoined = {}, sySubs = Map.empty,
     syPt = newPeerTracker, syLog = [], closers = [], syTimedOut = False, syTorn = False, syPanic = False\<rparr>"

lemma reach_fresh: "reach sysInit (sysNext uni lib self) freshSys"
  by (rule reach_init) (simp add: sysInit_def freshSys_def)

lemma reach_by: "reach sysInit (sysNext uni lib self) s \<Longrightarrow> sysStep uni lib self a s t \<Longrightarrow>
    reach sysInit (sysNext uni lib self) t"
  by (erule reach_step) (auto simp: sysNext_def)

text \<open>A client with one subscription that is then closed, up to the cancellation of its context.\<close>

definition closingSys :: sys where
  "closingSys = (Subscribe ''t'' freshSys)\<lparr>syClosed := True, syCtx := True, closers := [KSubs]\<rparr>"

lemma reach_closing: "reach sysInit (sysNext uni lib self) closingSys"
proof -
  let ?s1 = "Subscribe ''t'' freshSys"
  have "reach sysInit (sysNext uni lib self) ?s1"
    by (rule reach_by [OF reach_fresh subscribe])
  from reach_by [OF this close_call]
  have "reach sysInit (sysNext uni lib self) (?s1\<lparr>closers := closers ?s1 @ [KClosed]\<rparr>)" .
  from reach_by [OF this set_closed [of 0]]
  have "reach sysInit (sysNext uni lib self) (?s1\<lparr>syClosed := True, closers := [KCancel]\<rparr>)"
    by (simp add: Subscribe_def freshSys_def)
  from reach_by [OF this cancel [of 0]] show ?thesis
    by (simp add: Subscribe_def freshSys_def closingSys_def)
qed

lemma channels_owned_witness:
  "syWg closingSys = int (length (filter (\<lambda>r. rdPc r \<noteq> PExit) (readers closingSys))) \<and> \<not> syPanic closingSys"
  using channels_owned [OF reach_closing] by simp

text \<open>C6. The host is torn down only after \<open>Close\<close> has marked the client closed and cancelled its context, and after
  every subscription channel is closed and every reader has left the wait group, unless a closer gave up waiting for them; and from
  then on no reader is started: a later \<open>Subscribe\<close> returns a closed channel and leaves the wait group alone.\<close>

theorem teardown_order:
  assumes "reach sysInit (sysNext uni lib self) s" and "syTorn s"
  shows "syClosed s \<and> syCtx s \<and> (syTimedOut s \<or> list_all rdClosed (readers s) \<and> syWg s = 0)
    \<and> readers (Subscribe topic s) = readers s @ [newReader topic\<lparr>rdClosed := True, rdPc := PExit\<rparr>]
    \<and> syWg (Subscribe topic s) = syWg s"
proof -
  have inv: "sys_inv s" by (rule client.reach_inv [OF assms(1)])
  then have flags: "syClosed s" "syCtx s" "syTimedOut s \<or> syWg s = 0" using assms(2) by (auto simp: sys_inv_def)
  have "list_all rdClosed (readers s)" if "syWg s = 0"
  proof -
    have "filter (\<lambda>r. \<not> exited r) (readers s) = []" using inv that by (simp add: sys_inv_def liveReaders_def)
    then show ?thesis using inv by (auto simp: sys_inv_def list_all_iff filter_empty_conv exited_def readerOK_def)
  qed
  then show ?thesis using flags by (auto simp: Subscribe_def)
qed

lemma teardown_order_witness:
  "syWg (Subscribe ''t'' (freshSys\<lparr>syClosed := True, syCtx := True, syTorn := True, closers := [KDone]\<rparr>)) = 0"
proof -
  let ?R = "reach sysInit (sysNext (\<lambda>r. True) textLib ''me'')"
  have "?R (freshSys\<lparr>closers := [KClosed]\<rparr>)"
    using reach_by [OF reach_fresh close_call, of "\<lambda>r. True" textLib "''me''"] by (simp add: freshSys_def)
  from reach_by [OF this set_closed [of 0]] have "?R (freshSys\<lparr>syClosed := True, closers := [KCancel]\<rparr>)"
    by simp
  from reach_by [OF this cancel [of 0]] have "?R (freshSys\<lparr>syClosed := True, syCtx := True, closers := [KSubs]\<rparr>)"
    by simp
  from reach_by [OF this cancel_subs [of 0]] have "?R (freshSys\<lparr>syClosed := True, syCtx := True, closers := [KWait]\<rparr>)"
    by (simp add: cancelSubs_def freshSys_def)
  from reach_by [OF this waited [of 0]] have "?R (freshSys\<lparr>syClosed := True, syCtx := True, closers := [KTopics]\<rparr>)"
    by (simp add: freshSys_def)
  from reach_by [OF this close_topics [of 0]] have "?R (freshSys\<lparr>syClosed := True, syCtx := True, closers := [KTeardown]\<rparr>)"
    by simp
  from reach_by [OF this teardown [of 0]]
  have "?R (freshSys\<lparr>syClosed := True, syCtx := True, syTorn := True, closers := [KDone]\<rparr>)" by simp
  from teardown_order [OF this] show ?thesis by (simp add: freshSys_def)
qed

text \<open>A channel is a FIFO of at most 100 messages: what the consumer has received and what is still
  buffered is what the reader sent, in order, nothing lost or duplicated, even after the close.\<close>

lemma channel_fifo:
  assumes "reach sysInit (sysNext uni lib self) s"
  shows "list_all (\<lambda>r. rdSent r = rdGot r @ rdOut r \<and> length (rdOut r) \<le> 100) (readers s)"
  using client.reach_inv [OF assms]
  by (auto simp: sys_inv_def readerOK_def list_all_iff channelCapacity_def)

lemma channel_fifo_witness:
  "list_all (\<lambda>r. rdSent r = rdGot r @ rdOut r \<and> length (rdOut r) \<le> 100) (readers closingSys)"
  by (rule channel_fifo [OF reach_closing])

text \<open>Once the context is cancelled the readers drain: from any reachable state they can take only
  boundedly many steps among themselves (each takes a buffered message or moves towards its
  exit), and when they can take no more every channel is closed and the wait group is zero, so
  \<open>Close\<close> does not wait for a consumer that has stopped reading.\<close>

lemma close_drains:
  assumes "reach sysInit (sysNext uni lib self) s" and "syCtx s"
    and "(readerMove uni lib self ^^ k) s t"
  shows "k \<le> work s \<and> ((\<exists>u. readerMove uni lib self t u) \<or> list_all rdClosed (readers t) \<and> syWg t = 0)"
proof -
  have "sys_inv t" "k + work t \<le> work s" "syCtx t"
    using readerMoves_work [OF client.reach_inv [OF assms(1)] assms(3)] assms(2) by simp_all
  then show ?thesis using stuck_drained [of t uni lib self] by auto
qed

lemma close_drains_witness:
  "(\<exists>u. readerMove (\<lambda>r. True) textLib ''me'' closingSys u) \<or> list_all rdClosed (readers closingSys) \<and> syWg closingSys = 0"
  using close_drains [OF reach_closing, where k = 0 and uni = "\<lambda>r. True" and lib = textLib and self = "''me''"]
  by (simp add: closingSys_def)

text \<open>C38. Two concurrent \<open>Subscribe\<close> calls for one topic can both miss it in \<open>c.topics\<close>; pubsub then joins it
  for the first only, and the second can do nothing but fail and close its channel, although
  the client is open and the topic is joined.\<close>

definition raceState :: sys where
  "raceState = freshSys\<lparr>readers := [newReader ''t''\<lparr>rdPc := PSubscribe\<rparr>, newReader ''t''\<lparr>rdPc := PJoin\<rparr>], syWg := 2,
     syTopics := {''t''}, syJoined := {''t''}\<rparr>"

lemma race_reachable: "reach sysInit (sysNext uni lib self) raceState"
proof -
  let ?R = "reach sysInit (sysNext uni lib self)"
  note defs = Subscribe_def freshSys_def newReader_def updReader_def
  let ?s = "\<lambda>p q. freshSys\<lparr>readers := [newReader ''t''\<lparr>rdPc := p\<rparr>, newReader ''t''\<lparr>rdPc := q\<rparr>], syWg := 2\<rparr>"
  have "?R (Subscribe ''t'' (Subscribe ''t'' freshSys))"
    by (rule reach_by [OF reach_by [OF reach_fresh subscribe] subscribe])
  then have "?R (?s PLookup PLookup)" by (simp add: defs)
  from reach_by [OF this lookup [of 0]] have "?R (?s PJoin PLookup)" by (simp add: defs)
  from reach_by [OF this lookup [of 1]] have "?R (?s PJoin PJoin)" by (simp add: defs)
  from reach_by [OF this join [of 0]] have "?R ((?s PStore PJoin)\<lparr>syJoined := {''t''}\<rparr>)" by (simp add: defs)
  from reach_by [OF this store [of 0]] show ?thesis by (simp add: defs raceState_def)
qed

theorem concurrent_subscribe_race:
  "reach sysInit (sysNext uni lib self) raceState \<and> \<not> syClosed raceState \<and> \<not> syCtx raceState
   \<and> syTopics raceState = {''t''}
   \<and> {t. sysStep uni lib self (ByReader 1) raceState t} = {updReader 1 (goto PClose) raceState}"
proof (intro conjI)
  show "{t. sysStep uni lib self (ByReader 1) raceState t} = {updReader 1 (goto PClose) raceState}"
  proof (intro equalityI subsetI)
    fix t assume "t \<in> {t. sysStep uni lib self (ByReader 1) raceState t}"
    then have "sysStep uni lib self (ByReader 1) raceState t" by simp
    then show "t \<in> {updReader 1 (goto PClose) raceState}"
      by cases (simp_all add: raceState_def newReader_def)
  next
    fix t assume "t \<in> {updReader 1 (goto PClose) raceState}"
    moreover have "sysStep uni lib self (ByReader 1) raceState (updReader 1 (goto PClose) raceState)"
      by (rule join_fails) (simp add: raceState_def newReader_def)
    ultimately show "t \<in> {t. sysStep uni lib self (ByReader 1) raceState t}" by simp
  qed
qed (simp_all add: race_reachable, simp_all add: raceState_def freshSys_def)

end
