(* ===== verification/Receivers.thy ===== *)
theory Receivers
  imports Lifecycle
begin

text \<open>
  The readers of a client together (src/client.go): each works through \<open>receiveMessages\<close> one critical
  section of the peer tracker at a time, so the verdicts on a peer depend on how they interleave.
  Undisturbed, the steps of a message are one turn of \<open>receiveStep\<close>.  However they interleave, a flood of malformed
  messages causes one warning and a bounded number of lines per peer, and no message of a peer that is not
  being skipped is lost.
\<close>

section \<open>One message, undisturbed\<close>

text \<open>A step of a reader alone: its point, the tracker, and the lines so far.\<close>

definition turn ::
  "(rune \<Rightarrow> bool) \<Rightarrow> 'ma netLib \<Rightarrow> string \<Rightarrow> gotime \<Rightarrow> gotime \<Rightarrow> rpc \<times> peerTracker \<times> (peerID \<times> logline) list
     \<Rightarrow> rpc \<times> peerTracker \<times> (peerID \<times> logline) list" where
  "turn uni lib topic now sent st =
     (case st of (pc, pt, ls) \<Rightarrow>
        (case receiveAct uni lib topic now sent pc pt of (pc', pt', ls') \<Rightarrow> (pc', pt', ls @ ls')))"

definition pointOf :: "recvAction \<Rightarrow> rpc" where
  "pointOf action = (case action of RecvReturn \<Rightarrow> PClose | RecvContinue \<Rightarrow> PNext | RecvSend m \<Rightarrow> PSend m)"

lemma turns: "(turn uni lib topic now sent ^^ 4) st =
    turn uni lib topic now sent (turn uni lib topic now sent (turn uni lib topic now sent (turn uni lib topic now sent st)))"
  by (simp add: eval_nat_numeral)

lemma turn_stop: "\<not> receiving pc \<Longrightarrow> turn uni lib topic now sent (pc, pt, ls) = (pc, pt, ls)"
  by (cases pc) (simp_all add: turn_def)

lemma receive_undisturbed:
  assumes "receiveStep uni lib errCancelled self topic cancelled pt (NextMessage a data) now sent = (pt', action, logs)"
  shows "(turn uni lib topic now sent ^^ 4) (if a = self then PNext else PCheck a data, pt, []) =
    (pointOf action, pt', map (Pair a) logs)"
proof -
  consider "a = self \<or> shouldSkipMalformed pt a" | err where "a \<noteq> self" "\<not> shouldSkipMalformed pt a" "unmarshalEnvelope data = Inl err"
    | m where "a \<noteq> self" "\<not> shouldSkipMalformed pt a" "unmarshalEnvelope data = Inr m"
    by (cases "unmarshalEnvelope data") auto
  then show ?thesis
  proof cases
    case 1
    then have "pt' = pt" "action = RecvContinue" "logs = []" using assms by (auto simp: receiveStep_def split: if_splits)
    then show ?thesis using 1 by (auto simp: turns turn_stop pointOf_def) (simp_all add: turn_def)
  next
    case (2 err)
    obtain pt1 cnt js where rec: "recordMalformed pt a = (pt1, cnt, js)" by (rule prod_cases3)
    then show ?thesis using assms 2
      by (cases js) (auto simp: receiveStep_def handleMalformedMessage_def turns turn_def pointOf_def Let_def)
  next
    case (3 m)
    then show ?thesis using assms
      by (auto simp: receiveStep_def updateName_def turns turn_def pointOf_def Let_def)
  qed
qed

section \<open>Floods of malformed messages\<close>

lemma updReader_tracker [simp]: "syPt (updReader i f s) = syPt s" "syLog (updReader i f s) = syLog s"
  by (simp_all add: updReader_def)

text \<open>Per reader: is it about to record a malformed message of \<open>p\<close>, to log its line, to warn about \<open>p\<close>?\<close>

fun badAbout :: "peerID \<Rightarrow> rpc \<Rightarrow> nat" where
  "badAbout p (PBad a data err) = (if a = p then 1 else 0)"
| "badAbout p pc = 0"

fun lineAbout :: "peerID \<Rightarrow> rpc \<Rightarrow> nat" where
  "lineAbout p (PLogBad a data err cnt js) = (if a = p then 1 else 0)"
| "lineAbout p pc = 0"

fun warnAbout :: "peerID \<Rightarrow> rpc \<Rightarrow> nat" where
  "warnAbout p (PLogBad a data err cnt js) = (if a = p \<and> js then 1 else 0)"
| "warnAbout p (PLogSkip a cnt) = (if a = p then 1 else 0)"
| "warnAbout p pc = 0"

definition total :: "(rpc \<Rightarrow> nat) \<Rightarrow> sys \<Rightarrow> nat" where
  "total f s = sum_list (map (\<lambda>r. f (rdPc r)) (readers s))"

lemma total_update:
  "i < length (readers s) \<Longrightarrow> total f (updReader i g s) + f (rdPc (readers s ! i)) = total f s + f (rdPc (g (readers s ! i)))"
  unfolding total_def using sum_list_replace [of i "readers s" "\<lambda>r. f (rdPc r)" "g (readers s ! i)"] by simp

lemma total_frame [simp]:
  "total f (s\<lparr>syPt := pt, syLog := ls\<rparr>) = total f s" "total f (s\<lparr>syJoined := a\<rparr>) = total f s"
  "total f (s\<lparr>syTopics := b\<rparr>) = total f s" "total f (s\<lparr>sySubs := c\<rparr>) = total f s" "total f (s\<lparr>closers := d\<rparr>) = total f s"
  "total f (s\<lparr>syClosed := e\<rparr>) = total f s" "total f (s\<lparr>syCtx := e\<rparr>) = total f s" "total f (s\<lparr>syWg := n\<rparr>) = total f s"
  "total f (s\<lparr>syTimedOut := e\<rparr>) = total f s" "total f (s\<lparr>syTorn := e\<rparr>) = total f s" "total f (s\<lparr>syPanic := e\<rparr>) = total f s"
  by (simp_all add: total_def)

lemma total_le:
  assumes "\<And>pc. f pc \<le> 1"
  shows "total f s \<le> length (readers s)"
proof -
  have "sum_list (map (\<lambda>r. f (rdPc r)) rs) \<le> length rs" for rs :: "goReader list"
  proof (induction rs)
    case (Cons r rs)
    then show ?case using assms [of "rdPc r"] by simp
  qed simp
  then show ?thesis by (simp add: total_def)
qed

lemma badAbout_le: "badAbout p pc \<le> 1"
  by (cases pc) simp_all

definition debugLines :: "peerID \<Rightarrow> (peerID \<times> logline) list \<Rightarrow> nat" where
  "debugLines p ls = length (filter (\<lambda>x. fst x = p \<and> \<not> isWarn (snd x)) ls)"

definition warnLines :: "peerID \<Rightarrow> (peerID \<times> logline) list \<Rightarrow> nat" where
  "warnLines p ls = length (filter (\<lambda>x. fst x = p \<and> isWarn (snd x)) ls)"

lemma lines_simps [simp]:
  "debugLines p [] = 0" "warnLines p [] = 0"
  "debugLines p (xs @ ys) = debugLines p xs + debugLines p ys" "warnLines p (xs @ ys) = warnLines p xs + warnLines p ys"
  "debugLines p [(a, malformedLine args)] = (if a = p then 1 else 0)" "warnLines p [(a, malformedLine args)] = 0"
  "debugLines p [(a, skippingLine args)] = 0" "warnLines p [(a, skippingLine args)] = (if a = p then 1 else 0)"
  by (simp_all add: debugLines_def warnLines_def line_levels)

definition flood_inv :: "(rune \<Rightarrow> bool) \<Rightarrow> sys \<Rightarrow> bool" where
  "flood_inv uni s \<longleftrightarrow> tracker_inv uni (syPt s) \<and> (\<forall>p.
     malformedCount (syPt s) p + total (badAbout p) s \<le> 4 + length (readers s)
     \<and> debugLines p (syLog s) + total (lineAbout p) s = malformedCount (syPt s) p
     \<and> warnLines p (syLog s) + total (warnAbout p) s = (if 5 \<le> malformedCount (syPt s) p then 1 else 0))"

definition silent :: "rpc \<Rightarrow> bool" where
  "silent pc \<longleftrightarrow> (\<forall>p. badAbout p pc = 0 \<and> lineAbout p pc = 0 \<and> warnAbout p pc = 0)"

lemma silent_points [simp]:
  "silent PLookup" "silent PJoin" "silent PStore" "silent PSubscribe" "silent PStoreSub" "silent PNext" "silent (PSend m)"
  "silent PClose" "silent PDone" "silent PExit" "silent (PCheck a data)" "silent (PName a e)" "silent (PRecord a n data)"
  by (simp_all add: silent_def)

lemma flood_frame:
  assumes "flood_inv uni s" and "syPt t = syPt s" and "syLog t = syLog s" and "length (readers s) \<le> length (readers t)"
    and "\<And>p. total (badAbout p) t = total (badAbout p) s" and "\<And>p. total (lineAbout p) t = total (lineAbout p) s"
    and "\<And>p. total (warnAbout p) t = total (warnAbout p) s"
  shows "flood_inv uni t"
  using assms unfolding flood_inv_def by (auto intro: le_trans)

lemma flood_silent:
  assumes "flood_inv uni s" and "i < length (readers s)" and "silent (rdPc (readers s ! i))" and "silent (rdPc (g (readers s ! i)))"
  shows "flood_inv uni (updReader i g s)"
proof (rule flood_frame [OF assms(1)])
  show "total (badAbout p) (updReader i g s) = total (badAbout p) s" "total (lineAbout p) (updReader i g s) = total (lineAbout p) s"
    "total (warnAbout p) (updReader i g s) = total (warnAbout p) s" for p
    using total_update [OF assms(2), of "badAbout p" g] total_update [OF assms(2), of "lineAbout p" g]
      total_update [OF assms(2), of "warnAbout p" g] assms(3,4) by (simp_all add: silent_def)
qed (simp_all add: updReader_def)

text \<open>What one step of \<open>receiveMessages\<close> does to the counts.\<close>

definition skipped :: "peerTracker \<Rightarrow> peerID \<Rightarrow> nat" where
  "skipped pt p = (if 5 \<le> malformedCount pt p then 1 else 0)"

lemma receiveAct_counts:
  assumes "receiveAct uni lib topic now sent pc pt = (pc', pt', lines)" and "receiving pc" and "tracker_inv uni pt"
  shows "(malformedCount pt' p + badAbout p pc' \<le> malformedCount pt p + badAbout p pc \<or> malformedCount pt' p \<le> 4)
    \<and> debugLines p lines + lineAbout p pc' + malformedCount pt p = malformedCount pt' p + lineAbout p pc
    \<and> warnLines p lines + warnAbout p pc' + skipped pt p = skipped pt' p + warnAbout p pc"
proof (cases pc)
  case (PBad a data err)
  obtain pt1 cnt js where r: "recordMalformed pt a = (pt1, cnt, js)" by (rule prod_cases3)
  have "malformedCount pt1 p = malformedCount pt p + (if p = a then 1 else 0)" "js = (malformedCount pt a + 1 = 5)"
    using malformedCount_recordMalformed [of pt a p] justSkipped_iff [OF assms(3), of a]
    by (simp_all add: r malformedThreshold_def)
  then show ?thesis using assms(1) r PBad by (auto simp: skipped_def)
next
  case (PCheck a data)
  have "shouldSkipMalformed pt a \<or> malformedCount pt a \<le> 4"
    using assms(3) by (auto simp: tracker_inv_def malformedThreshold_def)
  then show ?thesis using assms(1) PCheck by (auto split: if_splits sum.splits)
next
  case (PName a m)
  then show ?thesis using assms(1) by (auto simp: skipped_def updateName_def Let_def malformedCount_def)
next
  case (PRecord a name data)
  then show ?thesis using assms(1) by (auto simp: skipped_def)
qed (use assms in auto)

lemma flood_receive:
  assumes "flood_inv uni s" and "i < length (readers s)" and "receiving (rdPc (readers s ! i))"
  shows "flood_inv uni (takeMessage uni lib now sent i s)"
proof -
  let ?pc = "rdPc (readers s ! i)"
  obtain pc' pt' lines where r: "receiveAct uni lib (rdTopic (readers s ! i)) now sent ?pc (syPt s)
      = (pc', pt', lines)" by (rule prod_cases3)
  let ?u = "updReader i (\<lambda>r. r\<lparr>rdPc := pc', rdPassed := rdPassed r @ passing (rdPc r) pc'\<rparr>) s"
  have t: "takeMessage uni lib now sent i s = ?u\<lparr>syPt := pt', syLog := syLog s @ lines\<rparr>" by (simp add: takeMessage_def r)
  have inv: "tracker_inv uni (syPt s)" using assms(1) by (simp add: flood_inv_def)
  have old: "malformedCount (syPt s) p + total (badAbout p) s \<le> 4 + length (readers s)"
    "debugLines p (syLog s) + total (lineAbout p) s = malformedCount (syPt s) p"
    "warnLines p (syLog s) + total (warnAbout p) s = skipped (syPt s) p" for p
    using assms(1) by (simp_all add: flood_inv_def skipped_def)
  note counts = receiveAct_counts [OF r assms(3) inv]
  have moved: "total (badAbout p) ?u + badAbout p ?pc = total (badAbout p) s + badAbout p pc'"
    "total (lineAbout p) ?u + lineAbout p ?pc = total (lineAbout p) s + lineAbout p pc'"
    "total (warnAbout p) ?u + warnAbout p ?pc = total (warnAbout p) s + warnAbout p pc'" for p
    using total_update [OF assms(2), of _ "\<lambda>r. r\<lparr>rdPc := pc', rdPassed := rdPassed r @ passing (rdPc r) pc'\<rparr>"] by simp_all
  have le: "total (badAbout p) ?u \<le> length (readers s)" for p
    using total_le [of "badAbout p" ?u] badAbout_le by (simp add: updReader_def)
  have "malformedCount pt' p + total (badAbout p) ?u \<le> 4 + length (readers s)
     \<and> debugLines p (syLog s @ lines) + total (lineAbout p) ?u = malformedCount pt' p
     \<and> warnLines p (syLog s @ lines) + total (warnAbout p) ?u = skipped pt' p" for p
    using old [of p] counts [of p] moved [of p] le [of p] unfolding lines_simps by (intro conjI) linarith+
  then show ?thesis using receiveAct_tracker [OF r inv] unfolding t flood_inv_def by (simp add: skipped_def updReader_def)
qed

lemma flood_same [simp]:
  "flood_inv uni (s\<lparr>syJoined := a\<rparr>) = flood_inv uni s" "flood_inv uni (s\<lparr>syTopics := b\<rparr>) = flood_inv uni s"
  "flood_inv uni (s\<lparr>sySubs := c\<rparr>) = flood_inv uni s" "flood_inv uni (s\<lparr>closers := d\<rparr>) = flood_inv uni s"
  "flood_inv uni (s\<lparr>syClosed := e\<rparr>) = flood_inv uni s" "flood_inv uni (s\<lparr>syCtx := e\<rparr>) = flood_inv uni s"
  "flood_inv uni (s\<lparr>syWg := n\<rparr>) = flood_inv uni s" "flood_inv uni (s\<lparr>syTimedOut := e\<rparr>) = flood_inv uni s"
  "flood_inv uni (s\<lparr>syTorn := e\<rparr>) = flood_inv uni s" "flood_inv uni (s\<lparr>syPanic := e\<rparr>) = flood_inv uni s"
  by (simp_all add: flood_inv_def)

lemma flood_subscribe: "flood_inv uni s \<Longrightarrow> flood_inv uni (Subscribe topic s)"
  by (rule flood_frame [of uni s]) (simp_all add: Subscribe_def total_def newReader_def)

lemma flood_cancelSubs:
  assumes "flood_inv uni s"
  shows "flood_inv uni (cancelSubs s)"
proof (rule flood_frame [OF assms])
  have len: "length (readers (cancelSubs s)) = length (readers s)" by (simp add: cancelSubs_def)
  then show "length (readers s) \<le> length (readers (cancelSubs s))" by simp
  have "map (\<lambda>r. f (rdPc r)) (readers (cancelSubs s)) = map (\<lambda>r. f (rdPc r)) (readers s)" for f :: "rpc \<Rightarrow> nat"
    by (rule nth_equalityI) (simp_all add: len cancelSubs_reader)
  then have "total f (cancelSubs s) = total f s" for f by (simp add: total_def)
  then show "total (badAbout p) (cancelSubs s) = total (badAbout p) s" "total (lineAbout p) (cancelSubs s) = total (lineAbout p) s"
    "total (warnAbout p) (cancelSubs s) = total (warnAbout p) s" for p by simp_all
qed (simp_all add: cancelSubs_def)

lemma flood_step:
  assumes "flood_inv uni s" and "sysStep uni lib self a s t"
  shows "flood_inv uni t"
  using assms(2)
proof cases
  case (next_message i m ms)
  then show ?thesis using assms(1) by (simp add: takeNext_def flood_silent)
next
  case (receive i now sent)
  then show ?thesis using assms(1) by (simp add: flood_receive)
next
  case (send i m)
  then show ?thesis using assms(1) by (simp add: sendOn_def flood_silent)
next
  case (close_chan i)
  then show ?thesis using assms(1) by (simp add: closeChan_def flood_silent)
next
  case (wg_done i)
  then show ?thesis using assms(1) by (simp add: wgDone_def flood_silent)
next
  case (consume i m ms)
  have "total f (updReader i (\<lambda>r. r\<lparr>rdOut := ms, rdGot := rdGot r @ [m]\<rparr>) s) = total f s" for f
    using total_update [of i s f "\<lambda>r. r\<lparr>rdOut := ms, rdGot := rdGot r @ [m]\<rparr>"] consume by simp
  then show ?thesis using assms(1) unfolding consume by (intro flood_frame [OF assms(1)]) simp_all
next
  case (arrive i m)
  have "total f (updReader i (\<lambda>r. r\<lparr>rdIn := rdIn r @ [m]\<rparr>) s) = total f s" for f
    using total_update [of i s f "\<lambda>r. r\<lparr>rdIn := rdIn r @ [m]\<rparr>"] arrive by simp
  then show ?thesis using assms(1) unfolding arrive by (intro flood_frame [OF assms(1)]) simp_all
qed (use assms(1) in \<open>simp_all add: flood_silent flood_subscribe flood_cancelSubs\<close>)

interpretation flood: invariant_system sysInit "sysNext uni lib self" "flood_inv uni" for uni lib self
proof unfold_locales
  show "sysInit s \<Longrightarrow> flood_inv uni s" for s
    by (simp add: sysInit_def flood_inv_def total_def) (simp add: tracker_defs)
  show "flood_inv uni s \<Longrightarrow> sysNext uni lib self s t \<Longrightarrow> flood_inv uni t" for s t
    unfolding sysNext_def using flood_step by blast
qed

section \<open>Nothing a peer in good standing sends is lost\<close>

text \<open>The payloads of the well-formed messages of \<open>p\<close> among those \<open>Next\<close> returned.\<close>

fun wellFormed :: "peerID \<Rightarrow> (peerID \<times> string) list \<Rightarrow> string list" where
  "wellFormed p [] = []"
| "wellFormed p ((a, data) # rest) =
     (case unmarshalEnvelope data of
        Inl err \<Rightarrow> wellFormed p rest
      | Inr m \<Rightarrow> if a = p then envData m # wellFormed p rest else wellFormed p rest)"

lemma wellFormed_append: "wellFormed p (xs @ ys) = wellFormed p xs @ wellFormed p ys"
  by (induction p xs rule: wellFormed.induct) (auto split: sum.splits)

definition passedFrom :: "peerID \<Rightarrow> (peerID \<times> message) list \<Rightarrow> string list" where
  "passedFrom p ps = map (\<lambda>x. msgData (snd x)) (filter (\<lambda>x. fst x = p) ps)"

lemma passedFrom_simps [simp]:
  "passedFrom p [] = []" "passedFrom p (xs @ ys) = passedFrom p xs @ passedFrom p ys"
  "passedFrom p [(a, m)] = (if a = p then [msgData m] else [])"
  by (simp_all add: passedFrom_def)

text \<open>What a reader holds of \<open>p\<close> on the way to its channel, and what it is about to send.\<close>

fun inHand :: "peerID \<Rightarrow> rpc \<Rightarrow> string list" where
  "inHand p (PCheck a data) = wellFormed p [(a, data)]"
| "inHand p (PName a m) = (if a = p then [envData m] else [])"
| "inHand p (PRecord a name data) = (if a = p then [data] else [])"
| "inHand p pc = []"

fun offered :: "rpc \<Rightarrow> message list" where
  "offered (PSend m) = [m]"
| "offered pc = []"

text \<open>
  A reader that has not left its loop has offered all it passed on; and has passed on all the
  well-formed messages of each peer other than this node that is not being skipped.
\<close>

definition keeps :: "peerID \<Rightarrow> peerTracker \<Rightarrow> goReader \<Rightarrow> bool" where
  "keeps self pt r \<longleftrightarrow>
     (rdPc r \<notin> {PClose, PDone, PExit} \<longrightarrow> map snd (rdPassed r) = rdSent r @ offered (rdPc r))
     \<and> (\<forall>p. p \<noteq> self \<longrightarrow> malformedCount pt p < malformedThreshold \<longrightarrow>
          passedFrom p (rdPassed r) @ inHand p (rdPc r) = wellFormed p (rdTaken r))"

definition keep_inv :: "(rune \<Rightarrow> bool) \<Rightarrow> peerID \<Rightarrow> sys \<Rightarrow> bool" where
  "keep_inv uni self s \<longleftrightarrow> tracker_inv uni (syPt s) \<and> list_all (keeps self (syPt s)) (readers s)"

lemma count_mono:
  assumes "receiveAct uni lib topic now sent pc pt = (pc', pt', lines)"
  shows "malformedCount pt p \<le> malformedCount pt' p"
proof -
  have "malformedCount pt p \<le> malformedCount (trackerStep uni pt op) p" for op by (simp add: malformedCount_step)
  then show ?thesis using receiveAct_op [OF assms] by fastforce
qed

lemma keeps_mono: "keeps self pt r \<Longrightarrow> (\<And>p. malformedCount pt p \<le> malformedCount pt' p) \<Longrightarrow> keeps self pt' r"
  unfolding keeps_def by (meson le_less_trans)

lemma receiveAct_hand:
  assumes "receiveAct uni lib topic now sent pc pt = (pc', pt', lines)" and "receiving pc" and "tracker_inv uni pt"
  shows "map snd (passing pc pc') = offered pc' \<and> offered pc = []"
    and "malformedCount pt p < malformedThreshold \<Longrightarrow> passedFrom p (passing pc pc') @ inHand p pc' = inHand p pc"
proof -
  show "map snd (passing pc pc') = offered pc' \<and> offered pc = []"
    using assms(1,2) by (cases pc) (auto split: if_splits sum.splits prod.splits)
  assume "malformedCount pt p < malformedThreshold"
  then have "\<not> shouldSkipMalformed pt p" using assms(3) by (simp add: tracker_inv_def)
  then show "passedFrom p (passing pc pc') @ inHand p pc' = inHand p pc"
    using assms(1,2) by (cases pc) (auto split: if_splits sum.splits prod.splits)
qed

lemma receiveAct_keeps:
  assumes "receiveAct uni lib topic now sent (rdPc r) pt = (pc', pt', lines)" and "receiving (rdPc r)"
    and "tracker_inv uni pt" and "keeps self pt r"
  shows "keeps self pt' (r\<lparr>rdPc := pc', rdPassed := rdPassed r @ passing (rdPc r) pc'\<rparr>)"
proof -
  note hand = receiveAct_hand [OF assms(1-3)]
  have running: "rdPc r \<notin> {PClose, PDone, PExit}" using assms(2) by (cases "rdPc r") simp_all
  have "passedFrom p (rdPassed r) @ passedFrom p (passing (rdPc r) pc') @ inHand p pc' = wellFormed p (rdTaken r)"
    if "p \<noteq> self" "malformedCount pt' p < malformedThreshold" for p
  proof -
    have "malformedCount pt p < malformedThreshold" using that(2) count_mono [OF assms(1), of p] by linarith
    then show ?thesis using hand(2) assms(4) that(1) by (simp add: keeps_def)
  qed
  then show ?thesis using hand(1) assms(4) running by (simp add: keeps_def)
qed

lemma keep_update:
  "keep_inv uni self s \<Longrightarrow> keeps self (syPt s) (g (readers s ! i)) \<Longrightarrow> keep_inv uni self (updReader i g s)"
  by (simp add: keep_inv_def list_all_update updReader_def)

lemma keep_reader: "keep_inv uni self s \<Longrightarrow> i < length (readers s) \<Longrightarrow> keeps self (syPt s) (readers s ! i)"
  by (simp add: keep_inv_def list_all_length)

lemma keep_same [simp]:
  "keep_inv uni self (s\<lparr>syJoined := a\<rparr>) = keep_inv uni self s" "keep_inv uni self (s\<lparr>syTopics := b\<rparr>) = keep_inv uni self s"
  "keep_inv uni self (s\<lparr>sySubs := c\<rparr>) = keep_inv uni self s" "keep_inv uni self (s\<lparr>closers := d\<rparr>) = keep_inv uni self s"
  "keep_inv uni self (s\<lparr>syClosed := e\<rparr>) = keep_inv uni self s" "keep_inv uni self (s\<lparr>syCtx := e\<rparr>) = keep_inv uni self s"
  "keep_inv uni self (s\<lparr>syWg := n\<rparr>) = keep_inv uni self s" "keep_inv uni self (s\<lparr>syTimedOut := e\<rparr>) = keep_inv uni self s"
  "keep_inv uni self (s\<lparr>syTorn := e\<rparr>) = keep_inv uni self s" "keep_inv uni self (s\<lparr>syPanic := e\<rparr>) = keep_inv uni self s"
  by (simp_all add: keep_inv_def)

text \<open>Going on to a point at which the reader holds nothing, from one at which it held nothing to send.\<close>

lemma keep_goto:
  assumes "keep_inv uni self s" and "readerAt s i pc" and "offered pc = [] \<or> pc' = PClose" and "\<And>p. inHand p pc = []"
    and "offered pc' = []" and "\<And>p. inHand p pc' = []" and "pc \<in> {PClose, PDone, PExit} \<longrightarrow> pc' \<in> {PClose, PDone, PExit}"
  shows "keep_inv uni self (updReader i (goto pc') s)"
  using keep_reader [OF assms(1), of i] assms(2-) by (intro keep_update assms(1)) (auto simp: keeps_def)

lemma keep_takeNext:
  assumes "keep_inv uni self s" and "readerAt s i PNext"
  shows "keep_inv uni self (takeNext self i m s)"
  unfolding takeNext_def using keep_reader [OF assms(1), of i] assms(2)
  by (intro keep_update assms(1)) (cases m, auto simp: keeps_def wellFormed_append split: sum.splits)

lemma keep_takeMessage:
  assumes "keep_inv uni self s" and "i < length (readers s)" and "receiving (rdPc (readers s ! i))"
  shows "keep_inv uni self (takeMessage uni lib now sent i s)"
proof -
  obtain pc' pt' lines where r: "receiveAct uni lib (rdTopic (readers s ! i)) now sent (rdPc (readers s ! i)) (syPt s)
      = (pc', pt', lines)" by (rule prod_cases3)
  have inv: "tracker_inv uni (syPt s)" "list_all (keeps self (syPt s)) (readers s)"
    using assms(1) by (simp_all add: keep_inv_def)
  have "list_all (keeps self pt') (readers s)"
    using inv(2) by (rule list.pred_mono_strong) (rule keeps_mono [OF _ count_mono [OF r]])
  moreover note receiveAct_keeps [OF r assms(3) inv(1) keep_reader [OF assms(1,2)]] receiveAct_tracker [OF r inv(1)]
  ultimately show ?thesis
    by (simp add: takeMessage_def r keep_inv_def list_all_update updReader_def)
qed

lemma keep_subscribe: "keep_inv uni self s \<Longrightarrow> keep_inv uni self (Subscribe topic s)"
  by (simp add: keep_inv_def Subscribe_def keeps_def newReader_def)

lemma keep_cancelSubs:
  assumes "keep_inv uni self s"
  shows "keep_inv uni self (cancelSubs s)"
proof -
  have "length (readers (cancelSubs s)) = length (readers s)" "syPt (cancelSubs s) = syPt s" by (simp_all add: cancelSubs_def)
  then show ?thesis using assms by (auto simp: keep_inv_def list_all_length cancelSubs_reader keeps_def)
qed

lemma keep_step:
  assumes "keep_inv uni self s" and "sysStep uni lib self a s t"
  shows "keep_inv uni self t"
  using assms(2)
proof cases
  case (next_message i m ms)
  then show ?thesis using assms(1) by (simp add: keep_takeNext)
next
  case (receive i now sent)
  then show ?thesis using assms(1) by (simp add: keep_takeMessage)
next
  case (send i m)
  then show ?thesis using assms(1) keep_reader [OF assms(1), of i]
    by (auto simp: sendOn_def keeps_def intro!: keep_update)
next
  case (close_chan i)
  then show ?thesis using assms(1) keep_reader [OF assms(1), of i]
    by (auto simp: closeChan_def keeps_def intro!: keep_update)
next
  case (consume i m ms)
  then show ?thesis using keep_reader [OF assms(1), of i] by (auto simp: keeps_def intro!: keep_update assms(1))
next
  case (arrive i m)
  then show ?thesis using keep_reader [OF assms(1), of i] by (auto simp: keeps_def intro!: keep_update assms(1))
qed (use assms(1) in \<open>auto simp: wgDone_def keep_subscribe keep_cancelSubs intro!: keep_goto\<close>)

interpretation keeping: invariant_system sysInit "sysNext uni lib self" "keep_inv uni self" for uni lib self
proof unfold_locales
  show "sysInit s \<Longrightarrow> keep_inv uni self s" for s by (simp add: sysInit_def keep_inv_def)
  show "keep_inv uni self s \<Longrightarrow> sysNext uni lib self s t \<Longrightarrow> keep_inv uni self t" for s t
    unfolding sysNext_def using keep_step by blast
qed

section \<open>Readers that leave early\<close>

text \<open>
  Until the context is cancelled nothing cancels a subscription, and a reader outside its loop has been handed nothing:
  it has not subscribed yet, or could not.
\<close>

definition unserved :: "goReader \<Rightarrow> bool" where
  "unserved r \<longleftrightarrow> \<not> rdSubCancelled r \<and> (inLoop (rdPc r) \<or> rdTaken r = [] \<and> rdIn r = [])"

definition early_inv :: "sys \<Rightarrow> bool" where
  "early_inv s \<longleftrightarrow> sys_inv s \<and> (syCtx s \<or> list_all unserved (readers s))"

lemma receive_inLoop:
  assumes "receiveAct uni lib topic now sent pc pt = (pc', pt', lines)" and "receiving pc"
  shows "inLoop pc'"
proof -
  have "receiving x \<Longrightarrow> inLoop x" for x by (cases x) simp_all
  then show ?thesis using receiveAct_cases(1) [OF assms] by auto
qed

lemma early_receive:
  assumes "early_inv s" and "receiving (rdPc (readers s ! i))" and "i < length (readers s)"
  shows "syCtx (takeMessage uni lib now sent i s) \<or> list_all unserved (readers (takeMessage uni lib now sent i s))"
proof -
  obtain pc' pt' lines where r: "receiveAct uni lib (rdTopic (readers s ! i)) now sent (rdPc (readers s ! i)) (syPt s)
      = (pc', pt', lines)" by (rule prod_cases3)
  show ?thesis using assms(1,3) receive_inLoop [OF r assms(2)]
    by (auto simp: early_inv_def list_all_length nth_list_update takeMessage_def r unserved_def)
qed

lemma early_closer:
  assumes "early_inv s" and "closerAt s k KSubs"
  shows "syCtx s"
  using assms by (auto simp: early_inv_def sys_inv_def list_all_length closerOK_def)

lemma early_step:
  assumes "early_inv s" and "sysStep uni lib self a s t"
  shows "early_inv t"
proof -
  have "syCtx t \<or> list_all unserved (readers t)"
    using assms(2)
  proof cases
    case (receive i now sent)
    then show ?thesis using early_receive [OF assms(1)] by simp
  next
    case (cancel_subs k)
    then show ?thesis using early_closer [OF assms(1)] by (simp add: cancelSubs_def)
  qed (use assms(1) in \<open>auto simp: early_inv_def list_all_length nth_list_update nth_append unserved_def Subscribe_def newReader_def
         takeNext_def sendOn_def closeChan_def wgDone_def\<close>)
  then show ?thesis using assms sysStep_inv by (auto simp: early_inv_def)
qed

interpretation leaving: invariant_system sysInit "sysNext uni lib self" early_inv for uni lib self
proof unfold_locales
  show "sysInit s \<Longrightarrow> early_inv s" for s using sysInit_inv by (simp add: sysInit_def early_inv_def)
  show "early_inv s \<Longrightarrow> sysNext uni lib self s t \<Longrightarrow> early_inv t" for s t
    unfolding sysNext_def using early_step by blast
qed

section \<open>Every message gets through\<close>

text \<open>A step of a reader, or of the application taking a message from a channel.\<close>

definition dataMove :: "(rune \<Rightarrow> bool) \<Rightarrow> 'ma netLib \<Rightarrow> peerID \<Rightarrow> sys \<Rightarrow> sys \<Rightarrow> bool" where
  "dataMove uni lib self s t \<longleftrightarrow>
     readerMove uni lib self s t \<or> (\<exists>i. sysStep uni lib self (ByConsumer i) s t)"

definition buffered :: "sys \<Rightarrow> nat" where
  "buffered s = sum_list (map (\<lambda>r. length (rdOut r)) (readers s))"

definition dataWork :: "sys \<Rightarrow> nat" where
  "dataWork s = 2 * work s + buffered s"

lemma buffered_frame [simp]:
  "buffered (s\<lparr>syPt := pt, syLog := ls\<rparr>) = buffered s" "buffered (s\<lparr>syJoined := a\<rparr>) = buffered s"
  "buffered (s\<lparr>syTopics := b\<rparr>) = buffered s" "buffered (s\<lparr>sySubs := c\<rparr>) = buffered s"
  "buffered (s\<lparr>syWg := n\<rparr>) = buffered s" "buffered (s\<lparr>syPanic := e\<rparr>) = buffered s"
  by (simp_all add: buffered_def)

lemma buffered_update:
  "i < length (readers s) \<Longrightarrow> buffered (updReader i g s) + length (rdOut (readers s ! i)) = buffered s + length (rdOut (g (readers s ! i)))"
  unfolding buffered_def using sum_list_replace [of i "readers s" "\<lambda>r. length (rdOut r)" "g (readers s ! i)"] by simp

lemma buffered_grow:
  "i < length (readers s) \<Longrightarrow> length (rdOut (g (readers s ! i))) \<le> length (rdOut (readers s ! i)) + 1
     \<Longrightarrow> buffered (updReader i g s) \<le> Suc (buffered s)"
  using buffered_update [of i s g] by simp

lemma reader_buffered:
  assumes "sysStep uni lib self (ByReader i) s t"
  shows "buffered t \<le> buffered s + 1"
  using assms
  by cases (auto simp: takeNext_def takeMessage_def sendOn_def closeChan_def wgDone_def split: prod.split intro!: buffered_grow)

lemma dataMove_work:
  assumes "sys_inv s" and "dataMove uni lib self s t"
  shows "dataWork t < dataWork s \<and> syCtx t = syCtx s"
proof (cases "readerMove uni lib self s t")
  case True
  then have "buffered t \<le> buffered s + 1" by (auto simp: readerMove_def dest: reader_buffered)
  then show ?thesis using readerMove_work [OF assms(1) True] by (simp add: dataWork_def)
next
  case False
  then obtain i where "sysStep uni lib self (ByConsumer i) s t" using assms(2) by (auto simp: dataMove_def)
  then show ?thesis
  proof cases
    case (consume m ms)
    let ?g = "\<lambda>r. r\<lparr>rdOut := ms, rdGot := rdGot r @ [m]\<rparr>"
    have "work (updReader i ?g s) = work s"
      using sum_list_replace [of i "readers s" weight "?g (readers s ! i)"] consume by (simp add: work_def weight_def)
    then show ?thesis using buffered_update [of i s ?g] consume by (simp add: dataWork_def)
  qed
qed

lemma dataMove_next: "dataMove uni lib self s t \<Longrightarrow> sysNext uni lib self s t"
  by (auto simp: dataMove_def readerMove_def sysNext_def)

lemma dataMoves:
  "reach sysInit (sysNext uni lib self) s \<Longrightarrow> (dataMove uni lib self ^^ k) s t \<Longrightarrow>
     reach sysInit (sysNext uni lib self) t \<and> k + dataWork t \<le> dataWork s \<and> syCtx t = syCtx s"
proof (induction k arbitrary: t)
  case (Suc k)
  then obtain u where u: "(dataMove uni lib self ^^ k) s u" "dataMove uni lib self u t" by auto
  then have "reach sysInit (sysNext uni lib self) u" "k + dataWork u \<le> dataWork s" "syCtx u = syCtx s" using Suc by auto
  moreover have "reach sysInit (sysNext uni lib self) t" by (rule reach_step [OF calculation(1) dataMove_next [OF u(2)]])
  moreover have "dataWork t < dataWork u \<and> syCtx t = syCtx u"
    by (rule dataMove_work [OF client.reach_inv u(2)]) (rule calculation(1))
  ultimately show ?case by simp
qed simp

text \<open>A reader that cannot move, when no channel has anything buffered.\<close>

lemma stuck_reader:
  assumes "sys_inv s" and "i < length (readers s)" and "rdOut (readers s ! i) = []"
    and "\<not> (\<exists>t. sysStep uni lib self (ByReader i) s t)"
  shows "rdPc (readers s ! i) = PExit \<or> rdPc (readers s ! i) = PNext \<and> rdIn (readers s ! i) = []"
proof (cases "receiving (rdPc (readers s ! i))")
  case True
  then show ?thesis using assms(2,4) receive by blast
next
  case False
  show ?thesis
  proof (cases "rdPc (readers s ! i)")
    case (PSend m)
    moreover have "length (rdOut (readers s ! i)) < channelCapacity" using assms(3) by (simp add: channelCapacity_def)
    ultimately show ?thesis using assms(2,4) send by blast
  next
    case PNext
    then show ?thesis using assms(2,4) next_message by (cases "rdIn (readers s ! i)") blast+
  qed (use assms(2,4) False in \<open>simp_all, (blast intro: lookup join_fails store subscribe_fails store_sub close_chan wg_done)+\<close>)
qed

section \<open>A run\<close>

text \<open>
  A client with one subscription in its loop; then \<open>q\<close> sends an empty message and \<open>p\<close> a well-formed one, and the
  application takes what was made of it.
\<close>

definition oneReader :: "goReader \<Rightarrow> peerTracker \<Rightarrow> (peerID \<times> logline) list \<Rightarrow> sys" where
  "oneReader r pt ls = freshSys\<lparr>readers := [r], syWg := 1, syTopics := {''t''}, syJoined := {''t''}, sySubs := [''t'' \<mapsto> 0],
     syPt := pt, syLog := ls\<rparr>"

lemmas run_defs = Subscribe_def freshSys_def newReader_def updReader_def oneReader_def

lemma reach_oneReader: "reach sysInit (sysNext uni lib self) (oneReader (newReader ''t''\<lparr>rdPc := PNext\<rparr>) newPeerTracker [])"
proof -
  let ?R = "reach sysInit (sysNext uni lib self)"
  note defs = run_defs
  let ?s = "\<lambda>p. freshSys\<lparr>readers := [newReader ''t''\<lparr>rdPc := p\<rparr>], syWg := 1\<rparr>"
  have "?R (?s PLookup)" using reach_by [OF reach_fresh subscribe, of uni lib self "''t''"] by (simp add: defs)
  from reach_by [OF this lookup [of 0]] have "?R (?s PJoin)" by (simp add: defs)
  from reach_by [OF this join [of 0]] have "?R ((?s PStore)\<lparr>syJoined := {''t''}\<rparr>)" by (simp add: defs)
  from reach_by [OF this store [of 0]] have "?R ((?s PSubscribe)\<lparr>syJoined := {''t''}, syTopics := {''t''}\<rparr>)" by (simp add: defs)
  from reach_by [OF this subscribed [of 0]] have "?R ((?s PStoreSub)\<lparr>syJoined := {''t''}, syTopics := {''t''}\<rparr>)" by (simp add: defs)
  from reach_by [OF this store_sub [of 0]] show ?thesis by (simp add: defs)
qed

definition goodBytes :: string where
  "goodBytes = (case marshalEnvelope ''a'' (Some ''hi'') of Inl err \<Rightarrow> [] | Inr bs \<Rightarrow> bs)"

lemma goodBytes_decode: "unmarshalEnvelope goodBytes = Inr \<lparr>envName = toValidUTF8 ''a'', envData = ''hi''\<rparr>"
proof -
  have "marshalEnvelope ''a'' (Some ''hi'') = Inr goodBytes" by (simp add: goodBytes_def marshalEnvelope_def)
  then show ?thesis by (simp add: envelope_roundtrip)
qed

lemma empty_decode: "unmarshalEnvelope [] = Inl (jsonSyntaxError [])"
  by (simp add: unmarshalEnvelope_def jsonParse_def parseValue.simps eval_nat_numeral)

abbreviation arrived :: "(peerID \<times> string) list" where
  "arrived \<equiv> [(''q'', []), (''p'', goodBytes)]"

definition arrivedSys :: sys where
  "arrivedSys = oneReader (newReader ''t''\<lparr>rdPc := PNext, rdIn := arrived\<rparr>) newPeerTracker []"

lemma reach_arrived: "reach sysInit (sysNext uni lib self) arrivedSys"
proof -
  from reach_by [OF reach_oneReader arrive [of 0 _ _ _ _ "(''q'', [])"], of uni lib self]
  have "reach sysInit (sysNext uni lib self) (oneReader (newReader ''t''\<lparr>rdPc := PNext, rdIn := [(''q'', [])]\<rparr>) newPeerTracker [])"
    by (simp add: run_defs)
  from reach_by [OF this arrive [of 0 _ _ _ _ "(''p'', goodBytes)"]] show ?thesis
    by (simp add: run_defs arrivedSys_def)
qed

lemma dataMove_by:
  "sysStep uni lib self (ByReader i) s t \<Longrightarrow> t = t' \<Longrightarrow> dataMove uni lib self s t'"
  "sysStep uni lib self (ByConsumer i) s t \<Longrightarrow> t = t' \<Longrightarrow> dataMove uni lib self s t'"
  by (auto simp: dataMove_def readerMove_def)

lemma oneReader_receive:
  assumes "receiveAct uni lib ''t'' now sent pc pt = (pc', pt', lines)" and "receiving pc" and "rdTopic r = ''t''"
    and "rdPassed r @ passing pc pc' = passed"
  shows "dataMove uni lib self (oneReader (r\<lparr>rdPc := pc\<rparr>) pt ls)
    (oneReader (r\<lparr>rdPc := pc', rdPassed := passed\<rparr>) pt' (ls @ lines))"
proof -
  let ?s = "oneReader (r\<lparr>rdPc := pc\<rparr>) pt ls"
  have "sysStep uni lib self (ByReader 0) ?s (takeMessage uni lib now sent 0 ?s)"
    by (rule receive) (use assms(2) in \<open>simp_all add: run_defs\<close>)
  then show ?thesis by (rule dataMove_by) (use assms(1,3,4) in \<open>cases r, simp add: takeMessage_def run_defs\<close>)
qed

lemma oneReader_next:
  assumes "a \<noteq> self" and "rdIn r = (a, data) # ms"
  shows "dataMove uni lib self (oneReader (r\<lparr>rdPc := PNext\<rparr>) pt ls)
    (oneReader (r\<lparr>rdPc := PCheck a data, rdIn := ms, rdTaken := rdTaken r @ [(a, data)]\<rparr>) pt ls)"
proof -
  let ?s = "oneReader (r\<lparr>rdPc := PNext\<rparr>) pt ls"
  have "sysStep uni lib self (ByReader 0) ?s (takeNext self 0 (a, data) ?s)"
    by (rule next_message) (use assms in \<open>simp_all add: run_defs\<close>)
  then show ?thesis by (rule dataMove_by) (use assms in \<open>cases r, simp add: takeNext_def run_defs\<close>)
qed

lemma oneReader_hand_over:
  assumes "rdOut r = []" and "\<not> rdClosed r"
  shows "(dataMove uni lib self ^^ 2) (oneReader (r\<lparr>rdPc := PSend m\<rparr>) pt ls)
    (oneReader (r\<lparr>rdPc := PNext, rdSent := rdSent r @ [m], rdGot := rdGot r @ [m]\<rparr>) pt ls)"
proof -
  let ?s = "oneReader (r\<lparr>rdPc := PSend m\<rparr>) pt ls" and ?t = "oneReader (r\<lparr>rdPc := PNext, rdOut := [m], rdSent := rdSent r @ [m]\<rparr>) pt ls"
  have "sysStep uni lib self (ByReader 0) ?s (sendOn 0 m ?s)"
    by (rule send) (use assms in \<open>simp_all add: run_defs channelCapacity_def\<close>)
  then have "dataMove uni lib self ?s ?t"
    by (rule dataMove_by) (use assms in \<open>cases r, simp add: sendOn_def run_defs\<close>)
  moreover have "sysStep uni lib self (ByConsumer 0) ?t (updReader 0 (\<lambda>r. r\<lparr>rdOut := [], rdGot := rdGot r @ [m]\<rparr>) ?t)"
    by (rule consume) (simp_all add: run_defs)
  then have "dataMove uni lib self ?t (oneReader (r\<lparr>rdPc := PNext, rdSent := rdSent r @ [m], rdGot := rdGot r @ [m]\<rparr>) pt ls)"
    by (rule dataMove_by) (use assms in \<open>cases r, simp add: run_defs\<close>)
  ultimately show ?thesis by (auto simp: eval_nat_numeral)
qed

text \<open>Where the run ends: the line about \<open>q\<close>, and the message of \<open>p\<close> with the application.\<close>

definition servedMsg :: "'ma netLib \<Rightarrow> message" where
  "servedMsg lib = \<lparr>msgTopic = ''t'', msgFrom = ''a'', msgFromID = idString lib ''p'', msgData = ''hi'', msgTimestamp = 0\<rparr>"

definition servedReader :: "'ma netLib \<Rightarrow> goReader" where
  "servedReader lib = newReader ''t''\<lparr>rdPc := PNext, rdTaken := arrived, rdPassed := [(''p'', servedMsg lib)],
     rdSent := [servedMsg lib], rdGot := [servedMsg lib]\<rparr>"

definition malformedTracker :: peerTracker where
  "malformedTracker = fst (recordMalformed newPeerTracker ''q'')"

definition malformedLog :: "'ma netLib \<Rightarrow> (peerID \<times> logline) list" where
  "malformedLog lib = [(''q'', malformedLine [FStr ''unknown'', FStr (idString lib ''q''), FStr ''t'', FErr (jsonSyntaxError []), FInt 1, FInt 0, FStr [], FStr []])]"

definition servedSys :: "'ma netLib \<Rightarrow> sys" where
  "servedSys lib = oneReader (servedReader lib)
     (recordMessageFrom (fst (updateName (\<lambda>r. True) malformedTracker ''p'' ''a'')) ''p'' 0) (malformedLog lib)"

lemma bad_turns:
  "receiveAct uni lib topic now sent (PCheck ''q'' []) newPeerTracker = (PBad ''q'' [] (jsonSyntaxError []), newPeerTracker, [])"
  "receiveAct uni lib topic now sent (PBad ''q'' [] (jsonSyntaxError [])) newPeerTracker
     = (PLogBad ''q'' [] (jsonSyntaxError []) 1 False, malformedTracker, [])"
  "receiveAct uni lib ''t'' now sent (PLogBad ''q'' [] (jsonSyntaxError []) 1 False) malformedTracker = (PNext, malformedTracker, malformedLog lib)"
  by (simp_all add: empty_decode)
     (simp_all add: tracker_defs malformedThreshold_def malformedTracker_def malformedLog_def getName_def)

lemma malformed_turns:
  "(dataMove (\<lambda>r. True) lib ''me'' ^^ 4) arrivedSys
     (oneReader (newReader ''t''\<lparr>rdPc := PNext, rdIn := [(''p'', goodBytes)], rdTaken := [(''q'', [])]\<rparr>) malformedTracker (malformedLog lib))"
proof -
  let ?m = "dataMove (\<lambda>r. True) lib ''me''"
  let ?r = "newReader ''t''\<lparr>rdIn := [(''p'', goodBytes)], rdTaken := [(''q'', [])]\<rparr>"
  have r: "rdTopic ?r = ''t''" "rdPassed ?r = []" "?r\<lparr>rdPc := pc, rdPassed := []\<rparr> = ?r\<lparr>rdPc := pc\<rparr>" for pc
    by (simp_all add: newReader_def)
  have "?m arrivedSys (oneReader (?r\<lparr>rdPc := PCheck ''q'' []\<rparr>) newPeerTracker [])"
    using oneReader_next [of "''q''" "''me''" "newReader ''t''\<lparr>rdIn := arrived\<rparr>" "[]" "[(''p'', goodBytes)]"]
    by (simp add: arrivedSys_def newReader_def)
  moreover have "?m (oneReader (?r\<lparr>rdPc := PCheck ''q'' []\<rparr>) newPeerTracker [])
      (oneReader (?r\<lparr>rdPc := PBad ''q'' [] (jsonSyntaxError [])\<rparr>) newPeerTracker [])"
    using oneReader_receive [OF bad_turns(1) _ r(1), where passed = "[]" and self = "''me''" and ls = "[]" and lib = lib] r by simp
  moreover have "?m (oneReader (?r\<lparr>rdPc := PBad ''q'' [] (jsonSyntaxError [])\<rparr>) newPeerTracker [])
      (oneReader (?r\<lparr>rdPc := PLogBad ''q'' [] (jsonSyntaxError []) 1 False\<rparr>) malformedTracker [])"
    using oneReader_receive [OF bad_turns(2) _ r(1), where passed = "[]" and self = "''me''" and ls = "[]" and lib = lib] r by simp
  moreover have "?m (oneReader (?r\<lparr>rdPc := PLogBad ''q'' [] (jsonSyntaxError []) 1 False\<rparr>) malformedTracker [])
      (oneReader (?r\<lparr>rdPc := PNext\<rparr>) malformedTracker (malformedLog lib))"
    using oneReader_receive [OF bad_turns(3) _ r(1), where passed = "[]" and self = "''me''" and ls = "[]" and lib = lib] r by simp
  ultimately show ?thesis by (auto simp: eval_nat_numeral newReader_def)
qed

lemma good_turns:
  "receiveAct uni lib topic now sent (PCheck ''p'' goodBytes) malformedTracker
     = (PName ''p'' \<lparr>envName = ''a'', envData = ''hi''\<rparr>, malformedTracker, [])"
  "receiveAct (\<lambda>r. True) lib topic now sent (PName ''p'' \<lparr>envName = ''a'', envData = ''hi''\<rparr>) malformedTracker
     = (PRecord ''p'' ''a'' ''hi'', fst (updateName (\<lambda>r. True) malformedTracker ''p'' ''a''), [])"
  "receiveAct uni lib ''t'' now 0 (PRecord ''p'' ''a'' ''hi'') pt = (PSend (servedMsg lib), recordMessageFrom pt ''p'' now, [])"
proof -
  have "char_of (97 :: nat) = CHR ''a''" by code_simp
  moreover have "runes ''a'' = [97]" by (simp add: runes.simps decodeRune.simps)
  ultimately have "toValidUTF8 ''a'' = ''a''" "cleanName (\<lambda>r. True) ''a''"
    by (simp_all add: toValidUTF8_def cleanName_def encodeRune_def encodeScalar_def validRune_def maxPeerNameLen_def isPrint_def)
  then have "toValidUTF8 ''a'' = ''a''" "sanitizePeerName (\<lambda>r. True) ''a'' = ''a''" by (simp_all add: sanitize_fixed)
  moreover have "\<not> shouldSkipMalformed malformedTracker ''p''"
    by (simp add: tracker_defs malformedThreshold_def malformedTracker_def)
  ultimately show "receiveAct uni lib topic now sent (PCheck ''p'' goodBytes) malformedTracker
     = (PName ''p'' \<lparr>envName = ''a'', envData = ''hi''\<rparr>, malformedTracker, [])"
    "receiveAct (\<lambda>r. True) lib topic now sent (PName ''p'' \<lparr>envName = ''a'', envData = ''hi''\<rparr>) malformedTracker
     = (PRecord ''p'' ''a'' ''hi'', fst (updateName (\<lambda>r. True) malformedTracker ''p'' ''a''), [])"
    by (simp_all add: goodBytes_decode updateName_def Let_def)
qed (simp add: servedMsg_def)

lemma good_turns_moves:
  "(dataMove (\<lambda>r. True) lib ''me'' ^^ 6)
     (oneReader (newReader ''t''\<lparr>rdPc := PNext, rdIn := [(''p'', goodBytes)], rdTaken := [(''q'', [])]\<rparr>) malformedTracker (malformedLog lib))
     (servedSys lib)"
proof -
  let ?m = "dataMove (\<lambda>r. True) lib ''me''"
  let ?r = "newReader ''t''\<lparr>rdTaken := arrived\<rparr>"
  let ?pt = "fst (updateName (\<lambda>r. True) malformedTracker ''p'' ''a'')"
  let ?s = "\<lambda>r pt. oneReader r pt (malformedLog lib)"
  have r: "rdTopic ?r = ''t''" "rdPassed ?r = []" "rdOut ?r = []" "\<not> rdClosed ?r" "?r\<lparr>rdPc := pc, rdPassed := []\<rparr> = ?r\<lparr>rdPc := pc\<rparr>" for pc
    by (simp_all add: newReader_def)
  have 1: "?m (?s (newReader ''t''\<lparr>rdPc := PNext, rdIn := [(''p'', goodBytes)], rdTaken := [(''q'', [])]\<rparr>) malformedTracker)
      (?s (?r\<lparr>rdPc := PCheck ''p'' goodBytes\<rparr>) malformedTracker)"
    using oneReader_next [of "''p''" "''me''" "newReader ''t''\<lparr>rdIn := [(''p'', goodBytes)], rdTaken := [(''q'', [])]\<rparr>" goodBytes "[]"]
    by (simp add: newReader_def)
  have 2: "?m (?s (?r\<lparr>rdPc := PCheck ''p'' goodBytes\<rparr>) malformedTracker)
      (?s (?r\<lparr>rdPc := PName ''p'' \<lparr>envName = ''a'', envData = ''hi''\<rparr>\<rparr>) malformedTracker)"
    using oneReader_receive [OF good_turns(1) _ r(1), where passed = "[]" and self = "''me''" and ls = "malformedLog lib" and lib = lib] r by simp
  have 3: "?m (?s (?r\<lparr>rdPc := PName ''p'' \<lparr>envName = ''a'', envData = ''hi''\<rparr>\<rparr>) malformedTracker)
      (?s (?r\<lparr>rdPc := PRecord ''p'' ''a'' ''hi''\<rparr>) ?pt)"
    using oneReader_receive [OF good_turns(2) _ r(1), where passed = "[]" and self = "''me''" and ls = "malformedLog lib" and lib = lib] r by simp
  have 4: "?m (?s (?r\<lparr>rdPc := PRecord ''p'' ''a'' ''hi''\<rparr>) ?pt)
      (?s (?r\<lparr>rdPc := PSend (servedMsg lib), rdPassed := [(''p'', servedMsg lib)]\<rparr>) (recordMessageFrom ?pt ''p'' 0))"
    using oneReader_receive [OF good_turns(3) _ r(1), where passed = "[(''p'', servedMsg lib)]" and self = "''me''" and ls = "malformedLog lib" and lib = lib] r by simp
  have 5: "(?m ^^ 2) (?s (?r\<lparr>rdPc := PSend (servedMsg lib), rdPassed := [(''p'', servedMsg lib)]\<rparr>) (recordMessageFrom ?pt ''p'' 0)) (servedSys lib)"
    using oneReader_hand_over [of "?r\<lparr>rdPassed := [(''p'', servedMsg lib)]\<rparr>" "\<lambda>r. True" lib "''me''" "servedMsg lib" "recordMessageFrom ?pt ''p'' 0" "malformedLog lib"] r
    by (simp add: servedSys_def servedReader_def newReader_def)
  have "(?m ^^ 4) (?s (newReader ''t''\<lparr>rdPc := PNext, rdIn := [(''p'', goodBytes)], rdTaken := [(''q'', [])]\<rparr>) malformedTracker)
      (?s (?r\<lparr>rdPc := PSend (servedMsg lib), rdPassed := [(''p'', servedMsg lib)]\<rparr>) (recordMessageFrom ?pt ''p'' 0))"
    using 1 2 3 4 by (auto simp: eval_nat_numeral)
  from relpowp_trans [OF this 5] show ?thesis by simp
qed

lemma served: "(dataMove (\<lambda>r. True) lib ''me'' ^^ 10) arrivedSys (servedSys lib)"
  using relpowp_trans [OF malformed_turns good_turns_moves] by simp

lemma reach_served: "reach sysInit (sysNext (\<lambda>r. True) lib ''me'') (servedSys lib)"
  using dataMoves [OF reach_arrived served, of lib] by simp

section \<open>Properties\<close>

text \<open>C11. A flood of malformed messages is contained, however the readers of all topics interleave: a peer
  causes at most four lines plus one per subscription, of which a hex dump of its message is part, and
  is warned about at most once, only when its fifth malformed message was counted.\<close>

theorem malformed_bounded:
  assumes "reach sysInit (sysNext uni lib self) s"
  shows "debugLines p (syLog s) \<le> 4 + length (readers s) \<and> warnLines p (syLog s) \<le> skipped (syPt s) p"
proof -
  have "flood_inv uni s" by (rule flood.reach_inv [OF assms])
  then have "malformedCount (syPt s) p + total (badAbout p) s \<le> 4 + length (readers s)"
    "debugLines p (syLog s) + total (lineAbout p) s = malformedCount (syPt s) p"
    "warnLines p (syLog s) + total (warnAbout p) s = skipped (syPt s) p"
    by (simp_all add: flood_inv_def skipped_def)
  then show ?thesis by linarith
qed

lemma malformed_bounded_witness:
  "debugLines ''q'' (syLog (servedSys textLib)) = 1 \<and> debugLines ''q'' (syLog (servedSys textLib)) \<le> 5"
proof -
  have "length (readers (servedSys textLib)) = 1" by (simp add: servedSys_def oneReader_def)
  then have "debugLines ''q'' (syLog (servedSys textLib)) \<le> 5"
    using malformed_bounded [of "\<lambda>r. True" textLib "''me''" "servedSys textLib" "''q''", OF reach_served] by simp
  then show ?thesis by (simp add: servedSys_def oneReader_def malformedLog_def)
qed

text \<open>C4. As long as the application takes messages from its channels, every message gets through: readers and
  application can only take boundedly many steps until something new arrives, and when they can take no more,
  every reader waits for its next message, having handed over everything it made of what arrived, in order, and
  that is all the well-formed messages of each peer that is not being skipped.  A reader that has ended, unless the
  client's context is cancelled, is one that never subscribed: nothing was ever delivered to it.\<close>

theorem readers_deliver:
  assumes "reach sysInit (sysNext uni lib self) s" and "(dataMove uni lib self ^^ k) s t"
  shows "k \<le> dataWork s \<and> ((\<exists>u. dataMove uni lib self t u) \<or>
    list_all (\<lambda>r. rdPc r = PExit \<and> (syCtx t \<or> rdTaken r = [] \<and> rdIn r = [])
      \<or> rdPc r = PNext \<and> rdIn r = [] \<and> rdGot r = map snd (rdPassed r)
      \<and> {p. p \<noteq> self \<and> malformedCount (syPt t) p < 5} \<subseteq> {p. passedFrom p (rdPassed r) = wellFormed p (rdTaken r)}) (readers t))"
proof -
  have t: "reach sysInit (sysNext uni lib self) t" "k + dataWork t \<le> dataWork s" using dataMoves [OF assms] by simp_all
  note inv = client.reach_inv [OF t(1)] and keep = keeping.reach_inv [OF t(1)] and early = leaving.reach_inv [OF t(1)]
  have "rdPc r = PExit \<and> (syCtx t \<or> rdTaken r = [] \<and> rdIn r = [])
      \<or> rdPc r = PNext \<and> rdIn r = [] \<and> rdGot r = map snd (rdPassed r)
      \<and> {p. p \<noteq> self \<and> malformedCount (syPt t) p < 5} \<subseteq> {p. passedFrom p (rdPassed r) = wellFormed p (rdTaken r)}"
    if stuck: "\<not> (\<exists>u. dataMove uni lib self t u)" and r: "r = readers t ! i" "i < length (readers t)" for r i
  proof -
    have drained: "rdOut r = []"
    proof (cases "rdOut r")
      case (Cons m ms)
      then have "\<exists>u. sysStep uni lib self (ByConsumer i) t u" using consume [of i t m ms] r by blast
      then show ?thesis using stuck by (auto simp: dataMove_def)
    qed
    then have "rdPc r = PExit \<or> rdPc r = PNext \<and> rdIn r = []"
      using stuck_reader [OF inv r(2), of uni lib self] stuck r by (auto simp: dataMove_def readerMove_def)
    moreover have "rdPc r = PExit \<longrightarrow> syCtx t \<or> rdTaken r = [] \<and> rdIn r = []"
      using early r by (auto simp: early_inv_def unserved_def list_all_length)
    moreover have "rdSent r = rdGot r @ rdOut r" using inv_reader [OF inv r(2)] r by (simp add: readerOK_def)
    ultimately show ?thesis using keep_reader [OF keep r(2)] r(1) drained by (auto simp: keeps_def malformedThreshold_def)
  qed
  then show ?thesis using t(2) by (auto simp: list_all_length)
qed

lemma readers_deliver_witness:
  "rdGot (servedReader textLib) = [servedMsg textLib] \<and> 10 \<le> dataWork arrivedSys \<and>
   ((\<exists>u. dataMove (\<lambda>r. True) textLib ''me'' (servedSys textLib) u)
   \<or> list_all (\<lambda>r. rdPc r = PExit \<and> (syCtx (servedSys textLib :: sys) \<or> rdTaken r = [] \<and> rdIn r = [])
      \<or> rdPc r = PNext \<and> rdIn r = [] \<and> rdGot r = map snd (rdPassed r)
      \<and> {p. p \<noteq> ''me'' \<and> malformedCount (syPt (servedSys textLib)) p < 5}
          \<subseteq> {p. passedFrom p (rdPassed r) = wellFormed p (rdTaken r)}) (readers (servedSys textLib)))"
  using readers_deliver [of "\<lambda>r. True" textLib "''me''" arrivedSys 10 "servedSys textLib", OF reach_arrived served]
  by (simp add: servedReader_def)

end
