(* ===== verification/Delivery.thy ===== *)
theory Delivery
  imports Receivers
begin

text \<open>
  What a caller of \<open>Subscribe\<close> may rely on (src/client.go), over the interleaved client of Lifecycle:
  each channel is a bounded FIFO that is closed once (a refinement of the abstract channel below), what is
  delivered carries the subscription's topic and a sanitized name, and \<open>Close\<close> runs to its end.
\<close>

section \<open>A Go channel\<close>

text \<open>
  The abstract channel: \<open>None\<close> before it is made, then its buffer and whether it is closed.  The histories
  \<open>acSent\<close> and \<open>acGot\<close> are what the FIFO contract is stated over.  A channel may be made
  closed: that is what \<open>Subscribe\<close> returns after \<open>Close\<close>.
\<close>

record achan =
  acBuf :: "message list"
  acClosed :: bool
  acSent :: "message list"
  acGot :: "message list"

inductive chanStep :: "nat \<Rightarrow> achan option \<Rightarrow> achan option \<Rightarrow> bool" for cap where
  chan_make: "chanStep cap None (Some \<lparr>acBuf = [], acClosed = b, acSent = [], acGot = []\<rparr>)"
| chan_send: "\<not> acClosed c \<Longrightarrow> length (acBuf c) < cap \<Longrightarrow>
    chanStep cap (Some c) (Some (c\<lparr>acBuf := acBuf c @ [m], acSent := acSent c @ [m]\<rparr>))"
| chan_receive: "acBuf c = m # ms \<Longrightarrow> chanStep cap (Some c) (Some (c\<lparr>acBuf := ms, acGot := acGot c @ [m]\<rparr>))"
| chan_close: "\<not> acClosed c \<Longrightarrow> chanStep cap (Some c) (Some (c\<lparr>acClosed := True\<rparr>))"

inductive_cases chanStep_SomeE: "chanStep cap (Some c) x"

definition fifo :: "nat \<Rightarrow> achan option \<Rightarrow> bool" where
  "fifo cap x \<longleftrightarrow> (case x of None \<Rightarrow> True | Some c \<Rightarrow> acSent c = acGot c @ acBuf c \<and> length (acBuf c) \<le> cap)"

interpretation channel: invariant_system "\<lambda>x. x = None" "chanStep cap" "fifo cap" for cap
  by unfold_locales (auto simp: fifo_def elim!: chanStep.cases)

text \<open>A closed channel stays closed and accepts nothing.\<close>

lemma closed_final:
  "(chanStep cap)\<^sup>*\<^sup>* (Some c) x \<Longrightarrow> acClosed c \<Longrightarrow> \<exists>d. x = Some d \<and> acClosed d \<and> acSent d = acSent c"
  by (induction rule: rtranclp_induct) (auto elim!: chanStep_SomeE)

section \<open>The client's channels\<close>

definition chanOf :: "goReader \<Rightarrow> achan" where
  "chanOf r = \<lparr>acBuf = rdOut r, acClosed = rdClosed r, acSent = rdSent r, acGot = rdGot r\<rparr>"

definition chanAt :: "nat \<Rightarrow> sys \<Rightarrow> achan option" where
  "chanAt i s = (if i < length (readers s) then Some (chanOf (readers s ! i)) else None)"

lemma chanOf_frame [simp]:
  "chanOf (goto pc r) = chanOf r" "chanOf (r\<lparr>rdIn := ms\<rparr>) = chanOf r"
  "chanOf (r\<lparr>rdTaken := ts\<rparr>) = chanOf r" "chanOf (r\<lparr>rdPassed := ps\<rparr>) = chanOf r"
  "chanOf (r\<lparr>rdSubCancelled := b\<rparr>) = chanOf r"
  by (simp_all add: chanOf_def)

lemma chanAt_update:
  "j < length (readers s) \<Longrightarrow>
     chanAt i (updReader j f s) = (if i = j then Some (chanOf (f (readers s ! j))) else chanAt i s)"
  by (simp add: chanAt_def)

lemma chanAt_same [simp]:
  "chanAt i (s\<lparr>syJoined := a\<rparr>) = chanAt i s" "chanAt i (s\<lparr>syTopics := b\<rparr>) = chanAt i s"
  "chanAt i (s\<lparr>sySubs := c\<rparr>) = chanAt i s" "chanAt i (s\<lparr>closers := d\<rparr>) = chanAt i s"
  "chanAt i (s\<lparr>syClosed := e\<rparr>) = chanAt i s" "chanAt i (s\<lparr>syCtx := e\<rparr>) = chanAt i s"
  "chanAt i (s\<lparr>syWg := n\<rparr>) = chanAt i s" "chanAt i (s\<lparr>syPt := pt\<rparr>) = chanAt i s"
  "chanAt i (s\<lparr>syTimedOut := e\<rparr>) = chanAt i s" "chanAt i (s\<lparr>syTorn := e\<rparr>) = chanAt i s"
  "chanAt i (s\<lparr>syPanic := e\<rparr>) = chanAt i s" "chanAt i (s\<lparr>syPt := pt, syLog := ls\<rparr>) = chanAt i s"
  by (simp_all add: chanAt_def)

lemma chanAt_keep:
  "j < length (readers s) \<Longrightarrow> chanOf (f (readers s ! j)) = chanOf (readers s ! j) \<Longrightarrow> chanAt i (updReader j f s) = chanAt i s"
  by (simp add: chanAt_update) (simp add: chanAt_def)

lemma chanAt_cancelSubs [simp]: "chanAt i (cancelSubs s) = chanAt i s"
proof -
  have "length (readers (cancelSubs s)) = length (readers s)" by (simp add: cancelSubs_def)
  then show ?thesis by (auto simp: chanAt_def cancelSubs_reader)
qed

lemma chanAt_takeMessage:
  "j < length (readers s) \<Longrightarrow> chanAt i (takeNext self j m s) = chanAt i s"
  "j < length (readers s) \<Longrightarrow> chanAt i (takeMessage uni lib now sent j s) = chanAt i s"
  by (auto simp: takeNext_def takeMessage_def chanAt_keep split: prod.split)

lemma chanAt_subscribe:
  "chanAt i (Subscribe topic s) = chanAt i s \<or> chanStep cap (chanAt i s) (chanAt i (Subscribe topic s))"
proof (cases "i = length (readers s)")
  case True
  then show ?thesis using chan_make by (auto simp: Subscribe_def newReader_def chanAt_def chanOf_def)
next
  case False
  then show ?thesis by (auto simp: Subscribe_def chanAt_def nth_append)
qed

lemma chan_move:
  assumes "j < length (readers s)" and "chanStep cap (Some (chanOf (readers s ! j))) (Some (chanOf (f (readers s ! j))))"
  shows "chanAt i (updReader j f s) = chanAt i s \<or> chanStep cap (chanAt i s) (chanAt i (updReader j f s))"
proof (cases "i = j")
  case True
  then have "chanAt i s = Some (chanOf (readers s ! j))" using assms(1) by (simp add: chanAt_def)
  then show ?thesis using assms True by (simp add: chanAt_update)
next
  case False
  then show ?thesis using assms(1) by (simp add: chanAt_update)
qed

lemma chan_step:
  assumes "sys_inv s" and "sysStep uni lib self a s t"
  shows "chanAt i t = chanAt i s \<or> chanStep channelCapacity (chanAt i s) (chanAt i t)"
  using assms(2)
proof cases
  case (subscribe topic)
  then show ?thesis by (simp add: chanAt_subscribe)
next
  case (next_message j m ms)
  then show ?thesis by (simp add: chanAt_takeMessage)
next
  case (receive j now sent)
  then show ?thesis by (simp add: chanAt_takeMessage)
next
  case (send j m)
  then have "\<not> rdClosed (readers s ! j)" using inv_reader [OF assms(1), of j] by (simp add: readerOK_def)
  then show ?thesis using send chan_send [of "chanOf (readers s ! j)" channelCapacity m]
    by (simp add: sendOn_def) (rule chan_move, simp_all add: chanOf_def)
next
  case (close_chan j)
  then have "\<not> rdClosed (readers s ! j)" using inv_reader [OF assms(1), of j] by (simp add: readerOK_def)
  then show ?thesis using close_chan chan_close [of "chanOf (readers s ! j)" channelCapacity]
    by (simp add: closeChan_def) (rule chan_move, simp_all add: chanOf_def)
next
  case (wg_done j)
  then show ?thesis by (auto simp: wgDone_def chanAt_keep)
next
  case (consume j m ms)
  then show ?thesis using chan_receive [of "chanOf (readers s ! j)" m ms channelCapacity]
    by simp (rule chan_move, simp_all add: chanOf_def)
next
  case (arrive j m)
  then show ?thesis by (auto simp: chanAt_keep)
qed (simp_all add: chanAt_keep)

interpretation channels: refinement sysInit "sysNext uni lib self" sys_inv
  "chanAt i" "\<lambda>x. x = None" "chanStep channelCapacity"
  for uni lib self i
proof unfold_locales
  show "sysInit s \<Longrightarrow> chanAt i s = None" for s by (simp add: sysInit_def chanAt_def)
  show "sys_inv s \<Longrightarrow> sysNext uni lib self s t \<Longrightarrow>
      chanAt i t = chanAt i s \<or> chanStep channelCapacity (chanAt i s) (chanAt i t)" for s t
    unfolding sysNext_def using chan_step by blast
qed

section \<open>What is delivered\<close>

text \<open>A message a reader of \<open>topic\<close> may send: its topic, a clean name, and the ID of a peer other than this node.\<close>

definition cleanMsg :: "(rune \<Rightarrow> bool) \<Rightarrow> 'ma netLib \<Rightarrow> peerID \<Rightarrow> string \<Rightarrow> message \<Rightarrow> bool" where
  "cleanMsg uni lib self topic m \<longleftrightarrow> msgTopic m = topic \<and> cleanName uni (msgFrom m)
     \<and> msgFromID m \<in> idString lib ` (- {self})"

text \<open>A message a reader holds is of another peer, and its name is clean once it is stored.\<close>

fun pcClean :: "(rune \<Rightarrow> bool) \<Rightarrow> 'ma netLib \<Rightarrow> peerID \<Rightarrow> string \<Rightarrow> rpc \<Rightarrow> bool" where
  "pcClean uni lib self topic (PCheck a data) = (a \<noteq> self)"
| "pcClean uni lib self topic (PName a m) = (a \<noteq> self)"
| "pcClean uni lib self topic (PRecord a name data) = (a \<noteq> self \<and> cleanName uni name)"
| "pcClean uni lib self topic (PSend m) = cleanMsg uni lib self topic m"
| "pcClean uni lib self topic pc = True"

definition readerClean :: "(rune \<Rightarrow> bool) \<Rightarrow> 'ma netLib \<Rightarrow> peerID \<Rightarrow> goReader \<Rightarrow> bool" where
  "readerClean uni lib self r \<longleftrightarrow> list_all (cleanMsg uni lib self (rdTopic r)) (rdSent r)
     \<and> pcClean uni lib self (rdTopic r) (rdPc r)"

definition delivery_inv :: "(rune \<Rightarrow> bool) \<Rightarrow> 'ma netLib \<Rightarrow> peerID \<Rightarrow> sys \<Rightarrow> bool" where
  "delivery_inv uni lib self s \<longleftrightarrow> tracker_inv uni (syPt s) \<and> list_all (readerClean uni lib self) (readers s)"

lemma receiveAct_clean:
  "receiveAct uni lib topic now sent pc pt = (pc', pt', lines) \<Longrightarrow> receiving pc \<Longrightarrow> pcClean uni lib self topic pc
     \<Longrightarrow> pcClean uni lib self topic pc'"
  by (cases pc) (auto simp: updateName_def Let_def sanitize_clean cleanMsg_def split: if_splits sum.splits prod.splits)

lemma clean_update:
  "delivery_inv uni lib self s \<Longrightarrow> readerClean uni lib self (f (readers s ! i)) \<Longrightarrow> delivery_inv uni lib self (updReader i f s)"
  by (simp add: delivery_inv_def list_all_update updReader_def)

lemma clean_frame [simp]:
  "delivery_inv uni lib self (s\<lparr>syJoined := a\<rparr>) = delivery_inv uni lib self s"
  "delivery_inv uni lib self (s\<lparr>syTopics := b\<rparr>) = delivery_inv uni lib self s"
  "delivery_inv uni lib self (s\<lparr>sySubs := c\<rparr>) = delivery_inv uni lib self s"
  "delivery_inv uni lib self (s\<lparr>closers := d\<rparr>) = delivery_inv uni lib self s"
  "delivery_inv uni lib self (s\<lparr>syClosed := e\<rparr>) = delivery_inv uni lib self s"
  "delivery_inv uni lib self (s\<lparr>syCtx := e\<rparr>) = delivery_inv uni lib self s"
  "delivery_inv uni lib self (s\<lparr>syWg := n\<rparr>) = delivery_inv uni lib self s"
  "delivery_inv uni lib self (s\<lparr>syTimedOut := e\<rparr>) = delivery_inv uni lib self s"
  "delivery_inv uni lib self (s\<lparr>syTorn := e\<rparr>) = delivery_inv uni lib self s"
  "delivery_inv uni lib self (s\<lparr>syPanic := e\<rparr>) = delivery_inv uni lib self s"
  by (simp_all add: delivery_inv_def)

lemma reader_clean: "delivery_inv uni lib self s \<Longrightarrow> i < length (readers s) \<Longrightarrow> readerClean uni lib self (readers s ! i)"
  by (simp add: delivery_inv_def list_all_length)

text \<open>Points at which a reader holds no message.\<close>

definition emptyHanded :: "rpc \<Rightarrow> bool" where
  "emptyHanded pc \<longleftrightarrow> \<not> receiving pc \<and> (case pc of PSend m \<Rightarrow> False | _ \<Rightarrow> True)"

lemma emptyHanded_clean: "emptyHanded pc \<Longrightarrow> pcClean uni lib self topic pc"
  by (cases pc) (simp_all add: emptyHanded_def)

lemma emptyHanded_points [simp]:
  "emptyHanded PLookup" "emptyHanded PJoin" "emptyHanded PStore" "emptyHanded PSubscribe" "emptyHanded PStoreSub"
  "emptyHanded PNext" "emptyHanded PClose" "emptyHanded PDone" "emptyHanded PExit"
  by (simp_all add: emptyHanded_def)

lemma readerClean_goto:
  "readerClean uni lib self r \<Longrightarrow> emptyHanded pc \<Longrightarrow> readerClean uni lib self (goto pc r)"
  by (simp add: readerClean_def emptyHanded_clean)

lemma readerClean_frame [simp]:
  "readerClean uni lib self (r\<lparr>rdSubCancelled := b\<rparr>) = readerClean uni lib self r"
  "readerClean uni lib self (r\<lparr>rdOut := ms, rdGot := ns\<rparr>) = readerClean uni lib self r"
  "readerClean uni lib self (r\<lparr>rdIn := xs\<rparr>) = readerClean uni lib self r"
  by (simp_all add: readerClean_def)

lemma clean_goto:
  "delivery_inv uni lib self s \<Longrightarrow> i < length (readers s) \<Longrightarrow> emptyHanded pc
     \<Longrightarrow> delivery_inv uni lib self (updReader i (goto pc) s)"
  by (rule clean_update) (simp_all add: readerClean_goto reader_clean)

lemma takeNext_clean:
  "delivery_inv uni lib self s \<Longrightarrow> i < length (readers s) \<Longrightarrow> delivery_inv uni lib self (takeNext self i m s)"
  unfolding takeNext_def using reader_clean [of uni lib self s i] by (intro clean_update) (simp_all add: readerClean_def)

lemma takeMessage_clean:
  assumes "delivery_inv uni lib self s" and "i < length (readers s)" and "receiving (rdPc (readers s ! i))"
  shows "delivery_inv uni lib self (takeMessage uni lib now sent i s)"
proof -
  obtain pc' pt' lines where r: "receiveAct uni lib (rdTopic (readers s ! i)) now sent (rdPc (readers s ! i)) (syPt s)
      = (pc', pt', lines)" by (rule prod_cases3)
  have "tracker_inv uni pt' \<and> pcClean uni lib self (rdTopic (readers s ! i)) pc'"
    using receiveAct_clean [OF r assms(3)] receiveAct_tracker [OF r] reader_clean [OF assms(1,2)] assms(1)
    by (auto simp: delivery_inv_def readerClean_def)
  then show ?thesis using assms(1) reader_clean [OF assms(1,2)] unfolding takeMessage_def r prod.case
    by (auto simp: delivery_inv_def readerClean_def updReader_def intro!: list_all_update)
qed

lemma subscribe_clean: "delivery_inv uni lib self s \<Longrightarrow> delivery_inv uni lib self (Subscribe topic s)"
  by (simp add: delivery_inv_def Subscribe_def readerClean_def newReader_def)

lemma cancelSubs_clean:
  assumes "delivery_inv uni lib self s"
  shows "delivery_inv uni lib self (cancelSubs s)"
proof -
  have "length (readers (cancelSubs s)) = length (readers s)" "syPt (cancelSubs s) = syPt s" by (simp_all add: cancelSubs_def)
  then show ?thesis using assms by (simp add: delivery_inv_def list_all_length cancelSubs_reader)
qed

lemma delivery_step:
  assumes "delivery_inv uni lib self s" and "sysStep uni lib self a s t"
  shows "delivery_inv uni lib self t"
  using assms(2)
proof cases
  case (next_message i m ms)
  then show ?thesis using assms(1) by (simp add: takeNext_clean)
next
  case (receive i now sent)
  then show ?thesis using assms(1) by (simp add: takeMessage_clean)
next
  case (send i m)
  then show ?thesis using assms(1) reader_clean [OF assms(1), of i]
    by (auto simp: sendOn_def readerClean_def intro!: clean_update)
next
  case (close_chan i)
  then show ?thesis using assms(1) reader_clean [OF assms(1), of i]
    by (auto simp: closeChan_def readerClean_def intro!: clean_update)
next
  case (consume i m ms)
  then show ?thesis using reader_clean [OF assms(1), of i] by (auto intro!: clean_update assms(1))
next
  case (arrive i m)
  then show ?thesis using reader_clean [OF assms(1), of i] by (auto intro!: clean_update assms(1))
qed (use assms(1) in \<open>auto simp: wgDone_def intro!: clean_goto subscribe_clean cancelSubs_clean\<close>)

interpretation delivery: invariant_system sysInit "sysNext uni lib self" "delivery_inv uni lib self"
  for uni lib self
proof unfold_locales
  show "sysInit s \<Longrightarrow> delivery_inv uni lib self s" for s by (simp add: sysInit_def delivery_inv_def)
  show "delivery_inv uni lib self s \<Longrightarrow> sysNext uni lib self s t \<Longrightarrow> delivery_inv uni lib self t" for s t
    unfolding sysNext_def using delivery_step by blast
qed

section \<open>Close runs to its end\<close>

text \<open>The points of \<open>Close\<close> in the order in which a call passes them.\<close>

fun cpcRank :: "cpc \<Rightarrow> nat" where
  "cpcRank KClosed = 0"
| "cpcRank KCancel = 1"
| "cpcRank KSubs = 2"
| "cpcRank KWait = 3"
| "cpcRank KTopics = 4"
| "cpcRank KTeardown = 5"
| "cpcRank KDone = 6"

lemma cpcRank_inj: "cpcRank p = cpcRank q \<Longrightarrow> p = q"
  by (cases p; cases q) simp_all

instantiation cpc :: linorder
begin

definition less_eq_cpc :: "cpc \<Rightarrow> cpc \<Rightarrow> bool" where
  "less_eq_cpc p q \<longleftrightarrow> cpcRank p \<le> cpcRank q"

definition less_cpc :: "cpc \<Rightarrow> cpc \<Rightarrow> bool" where
  "less_cpc p q \<longleftrightarrow> cpcRank p < cpcRank q"

instance
  by standard (auto simp: less_eq_cpc_def less_cpc_def dest: cpcRank_inj)

end

lemma cpc_top: "p \<le> KDone"
  by (cases p) (simp_all add: less_eq_cpc_def)

text \<open>A call of \<open>Close\<close> never goes back, whoever takes a step.\<close>

lemma closers_advance:
  assumes "sysStep uni lib self a s t" and "k < length (closers s)"
  shows "k < length (closers t) \<and> closers s ! k \<le> closers t ! k"
  using assms(1)
proof cases
  case (subscribe topic)
  then show ?thesis using assms(2) by (simp add: Subscribe_def)
next
  case (next_message i m ms)
  then show ?thesis using assms(2) by (simp add: takeNext_def)
next
  case (receive i now sent)
  then show ?thesis using assms(2) by (simp add: takeMessage_def split: prod.split)
next
  case (send i m)
  then show ?thesis using assms(2) by (simp add: sendOn_def)
next
  case (close_chan i)
  then show ?thesis using assms(2) by (simp add: closeChan_def)
next
  case (wg_done i)
  then show ?thesis using assms(2) by (simp add: wgDone_def)
next
  case close_call
  then show ?thesis using assms(2) by (simp add: nth_append)
qed (use assms(2) in \<open>auto simp: nth_list_update less_eq_cpc_def\<close>)

definition closerMove :: "(rune \<Rightarrow> bool) \<Rightarrow> 'ma netLib \<Rightarrow> peerID \<Rightarrow> sys \<Rightarrow> sys \<Rightarrow> bool" where
  "closerMove uni lib self s t \<longleftrightarrow> (\<exists>k. sysStep uni lib self (ByCloser k) s t)"

text \<open>A step of a goroutine the client itself started: a reader or a closer.\<close>

definition ownMove :: "(rune \<Rightarrow> bool) \<Rightarrow> 'ma netLib \<Rightarrow> peerID \<Rightarrow> sys \<Rightarrow> sys \<Rightarrow> bool" where
  "ownMove uni lib self s t \<longleftrightarrow>
     readerMove uni lib self s t \<or> closerMove uni lib self s t"

definition closeWork :: "sys \<Rightarrow> nat" where
  "closeWork s = sum_list (map (\<lambda>p. 6 - cpcRank p) (closers s))"

definition allWork :: "sys \<Rightarrow> nat" where
  "allWork s = work s + closeWork s"

lemma closeWork_move:
  "closerAt s k p \<Longrightarrow> p < q \<Longrightarrow> closers t = closers s \<Longrightarrow>
     closeWork (t\<lparr>closers := (closers t)[k := q]\<rparr>) < closeWork s"
  using sum_list_replace [of k "closers s" "\<lambda>p. 6 - cpcRank p" q]
  by (cases q) (auto simp: closeWork_def less_cpc_def)

lemma work_cong: "map weight (readers t) = map weight (readers s) \<Longrightarrow> work t = work s"
  by (simp add: work_def)

lemma cancelSubs_frame:
  "closers (cancelSubs s) = closers s" "work (cancelSubs s) = work s"
proof -
  have len: "length (readers (cancelSubs s)) = length (readers s)" by (simp add: cancelSubs_def)
  have "map weight (readers (cancelSubs s)) = map weight (readers s)"
    by (rule nth_equalityI) (simp_all add: len cancelSubs_reader weight_def)
  then show "work (cancelSubs s) = work s" by (rule work_cong)
qed (simp add: cancelSubs_def)

lemma closerMove_work:
  assumes "closerMove uni lib self s t"
  shows "work t = work s \<and> closeWork t < closeWork s"
proof -
  obtain k where "sysStep uni lib self (ByCloser k) s t" using assms by (auto simp: closerMove_def)
  then show ?thesis
    by cases (auto simp: work_def less_cpc_def cancelSubs_frame [unfolded work_def]
        intro!: closeWork_move [where s = s and t = s, simplified]
          closeWork_move [where s = s and t = "cancelSubs s", simplified cancelSubs_frame]
          closeWork_move [where s = s and t = "s\<lparr>syClosed := True\<rparr>", simplified]
          closeWork_move [where s = s and t = "s\<lparr>syCtx := True\<rparr>", simplified]
          closeWork_move [where s = s and t = "s\<lparr>syTimedOut := True\<rparr>", simplified]
          closeWork_move [where s = s and t = "s\<lparr>syTorn := True\<rparr>", simplified])
qed

lemma reader_closers:
  assumes "sysStep uni lib self (ByReader i) s t"
  shows "closers t = closers s"
  using assms
  by cases (auto simp: takeNext_def takeMessage_def sendOn_def closeChan_def wgDone_def split: prod.splits)

lemma ownMove_work:
  assumes "sys_inv s" and "ownMove uni lib self s t"
  shows "allWork t < allWork s"
proof (cases "closerMove uni lib self s t")
  case True
  then show ?thesis using closerMove_work [OF True] by (simp add: allWork_def)
next
  case False
  then have r: "readerMove uni lib self s t" using assms(2) by (simp add: ownMove_def)
  then have "closers t = closers s" by (auto simp: readerMove_def dest: reader_closers)
  then have "closeWork t = closeWork s" by (simp add: closeWork_def)
  then show ?thesis using readerMove_work [OF assms(1) r] by (simp add: allWork_def)
qed

lemma ownMove_next: "ownMove uni lib self s t \<Longrightarrow> sysNext uni lib self s t"
  by (auto simp: ownMove_def readerMove_def closerMove_def sysNext_def)

lemma closer_progress:
  assumes "k < length (closers s)" and "closers s ! k \<noteq> KDone"
  shows "\<exists>t. closerMove uni lib self s t"
proof -
  have "\<exists>t. sysStep uni lib self (ByCloser k) s t"
    using assms
    by (cases "closers s ! k") (blast intro: set_closed cancel cancel_subs wait_timeout close_topics teardown)+
  then show ?thesis by (auto simp: closerMove_def)
qed

text \<open>A closer that is done has closed the host.\<close>

definition torn_inv :: "sys \<Rightarrow> bool" where
  "torn_inv s \<longleftrightarrow> (KDone \<in> set (closers s) \<longrightarrow> syTorn s)"

lemma torn_step:
  assumes "torn_inv s" and "sysStep uni lib self a s t"
  shows "torn_inv t"
  using assms(2)
proof cases
  case (subscribe topic)
  then show ?thesis using assms(1) by (simp add: torn_inv_def Subscribe_def)
next
  case (next_message i m ms)
  then show ?thesis using assms(1) by (simp add: torn_inv_def takeNext_def)
next
  case (receive i now sent)
  then show ?thesis using assms(1) by (simp add: torn_inv_def takeMessage_def split: prod.split)
next
  case (send i m)
  then show ?thesis using assms(1) by (simp add: torn_inv_def sendOn_def)
next
  case (close_chan i)
  then show ?thesis using assms(1) by (simp add: torn_inv_def closeChan_def)
next
  case (wg_done i)
  then show ?thesis using assms(1) by (simp add: torn_inv_def wgDone_def)
next
  case (cancel_subs k)
  then show ?thesis using assms(1) set_update_subset_insert [of "closers s" k KWait]
    by (auto simp: torn_inv_def cancelSubs_def)
next
  case (set_closed k)
  then show ?thesis using assms(1) set_update_subset_insert [of "closers s" k KCancel] by (auto simp: torn_inv_def)
next
  case (cancel k)
  then show ?thesis using assms(1) set_update_subset_insert [of "closers s" k KSubs] by (auto simp: torn_inv_def)
next
  case (waited k)
  then show ?thesis using assms(1) set_update_subset_insert [of "closers s" k KTopics] by (auto simp: torn_inv_def)
next
  case (wait_timeout k)
  then show ?thesis using assms(1) set_update_subset_insert [of "closers s" k KTopics] by (auto simp: torn_inv_def)
next
  case (close_topics k)
  then show ?thesis using assms(1) set_update_subset_insert [of "closers s" k KTeardown] by (auto simp: torn_inv_def)
qed (use assms(1) in \<open>simp_all add: torn_inv_def\<close>)

interpretation torn: invariant_system sysInit "sysNext uni lib self" torn_inv
  for uni lib self
proof unfold_locales
  show "sysInit s \<Longrightarrow> torn_inv s" for s by (simp add: sysInit_def torn_inv_def)
  show "torn_inv s \<Longrightarrow> sysNext uni lib self s t \<Longrightarrow> torn_inv t" for s t
    unfolding sysNext_def using torn_step by blast
qed

lemma ownMoves_work:
  "sys_inv s \<Longrightarrow> (ownMove uni lib self ^^ k) s t \<Longrightarrow> sys_inv t \<and> k + allWork t \<le> allWork s"
proof (induction k arbitrary: t)
  case (Suc k)
  then obtain u where u: "(ownMove uni lib self ^^ k) s u" "ownMove uni lib self u t" by auto
  then have "sys_inv u" "k + allWork u \<le> allWork s" using Suc by auto
  moreover have "sys_inv t" by (rule client.inv_step [OF \<open>sys_inv u\<close> ownMove_next [OF u(2)]])
  ultimately show ?case using ownMove_work [OF \<open>sys_inv u\<close> u(2)] by simp
qed simp

lemma ownMoves_reach:
  "(ownMove uni lib self ^^ k) s t \<Longrightarrow> reach sysInit (sysNext uni lib self) s
     \<Longrightarrow> reach sysInit (sysNext uni lib self) t"
proof (induction k arbitrary: t)
  case (Suc k)
  then obtain u where u: "(ownMove uni lib self ^^ k) s u" "ownMove uni lib self u t" by auto
  then show ?case using Suc by (blast intro: reach_step ownMove_next)
qed simp

lemma ownMoves_closers:
  "(ownMove uni lib self ^^ k) s t \<Longrightarrow> closers s \<noteq> [] \<Longrightarrow> closers t \<noteq> []"
proof (induction k arbitrary: t)
  case (Suc k)
  then obtain u where u: "(ownMove uni lib self ^^ k) s u" "ownMove uni lib self u t" by auto
  then have "0 < length (closers u)" using Suc by simp
  moreover obtain a where "sysStep uni lib self a u t"
    using u(2) by (auto simp: ownMove_def readerMove_def closerMove_def)
  ultimately show ?case using closers_advance [of uni lib self a u t 0] by fastforce
qed simp

section \<open>Properties\<close>

text \<open>C2. \<open>Close\<close> runs to its end: once some call of it has begun, the readers and closers can take only
  boundedly many steps, whatever consumers do (no step of theirs is needed), and when none of
  them can move, every call of \<open>Close\<close> is done, the host is closed, every message channel is closed and
  no reader is left.\<close>

theorem close_completes:
  assumes "reach sysInit (sysNext uni lib self) s" and "closers s \<noteq> []"
    and "(ownMove uni lib self ^^ k) s t"
  shows "k \<le> allWork s \<and> ((\<exists>u. ownMove uni lib self t u)
     \<or> list_all (\<lambda>p. p = KDone) (closers t) \<and> syTorn t \<and> list_all rdClosed (readers t) \<and> syWg t = 0)"
proof -
  have inv: "sys_inv t" "k + allWork t \<le> allWork s" using ownMoves_work [OF client.reach_inv [OF assms(1)] assms(3)] by auto
  have "list_all (\<lambda>p. p = KDone) (closers t) \<and> syTorn t \<and> list_all rdClosed (readers t) \<and> syWg t = 0"
    if stuck: "\<not> (\<exists>u. ownMove uni lib self t u)"
  proof -
    have finished: "list_all (\<lambda>p. p = KDone) (closers t)"
      using stuck closer_progress [of _ t uni lib self] by (auto simp: list_all_length ownMove_def)
    moreover have "0 < length (closers t)" using ownMoves_closers [OF assms(3,2)] by simp
    ultimately have k0: "closerAt t 0 KDone" by (simp add: list_all_length)
    then have "syCtx t" using inv_closerAt [OF inv(1) k0] by (simp add: closerOK_def)
    moreover have "syTorn t" using torn.reach_inv [OF ownMoves_reach [OF assms(3,1)]] nth_mem [of 0 "closers t"] k0
      by (simp add: torn_inv_def)
    ultimately show ?thesis using finished stuck_drained [OF inv(1), of uni lib self] stuck
      by (auto simp: ownMove_def)
  qed
  then show ?thesis using inv(2) by auto
qed

lemma close_completes_witness:
  "(\<exists>u. ownMove (\<lambda>r. True) textLib ''me'' closingSys u) \<or> syTorn closingSys"
  using close_completes [OF reach_closing, where k = 0 and uni = "\<lambda>r. True" and lib = textLib and self = "''me''"]
  by (simp add: closingSys_def)

text \<open>C3. Every channel \<open>Subscribe\<close> returns refines a Go channel of capacity 100: whatever the client's
  goroutines do, its history is a run of the abstract channel (made, sent on while open, received from, closed
  once), and what was sent is what was received followed by what is buffered, at most 100.\<close>

theorem channels_refine:
  assumes "reach sysInit (sysNext uni lib self) s" and "(sysNext uni lib self)\<^sup>*\<^sup>* s t"
  shows "(chanStep 100)\<^sup>*\<^sup>* (chanAt i s) (chanAt i t) \<and> reach (\<lambda>x. x = None) (chanStep 100) (chanAt i s)
    \<and> fifo 100 (chanAt i s)"
proof -
  have r: "reach (\<lambda>x. x = None) (chanStep 100) (chanAt i s)"
    using channels.reach_abs [OF assms(1), of i] by (simp add: channelCapacity_def)
  then have "fifo 100 (chanAt i s)" by (rule channel.reach_inv)
  with r show ?thesis using channels.steps_abs [OF assms(2) client.reach_inv [OF assms(1)], of i]
    by (simp add: channelCapacity_def)
qed

lemma channels_refine_witness:
  "(chanStep 100)\<^sup>*\<^sup>* (chanAt 0 arrivedSys) (chanAt 0 (servedSys textLib))
   \<and> rdGot (hd (readers (servedSys textLib))) = [servedMsg textLib]"
proof -
  have "(sysNext (\<lambda>r. True) textLib ''me'')\<^sup>*\<^sup>* arrivedSys (servedSys textLib)"
    using relpowp_imp_rtranclp [OF served] by (rule rtranclp_mono [THEN predicate2D, rotated]) (auto dest: dataMove_next)
  from channels_refine [OF reach_arrived this, of 0] show ?thesis
    by (simp add: servedSys_def oneReader_def servedReader_def)
qed

text \<open>C9. Nothing a peer controls reaches a consumer unchecked: every message a channel ever carried, and
  every peer \<open>GetPeers\<close> lists at any moment, has a clean name; a message names the topic
  of its channel and a publisher other than this node.\<close>

theorem delivered_clean:
  assumes "reach sysInit (sysNext uni lib self) s"
  shows "list_all (\<lambda>r. list_all (cleanMsg uni lib self (rdTopic r)) (rdSent r)) (readers s)
    \<and> list_all (\<lambda>p. cleanName uni (piName p)) (GetPeers lib (syPt s) conns ks)"
proof -
  have inv: "delivery_inv uni lib self s" by (rule delivery.reach_inv [OF assms])
  then have "list_all (\<lambda>p. cleanName uni (piName p)) (GetPeers lib (syPt s) conns ks)"
    by (auto simp: GetPeers_def list_all_iff delivery_inv_def getName_clean)
  then show ?thesis using inv by (auto simp: delivery_inv_def readerClean_def list_all_iff)
qed

lemma delivered_clean_witness:
  "rdSent (hd (readers (servedSys textLib))) = [servedMsg textLib]
   \<and> list_all (\<lambda>r. list_all (cleanMsg (\<lambda>r. True) textLib ''me'' (rdTopic r)) (rdSent r)) (readers (servedSys textLib))
   \<and> list_all (\<lambda>p. cleanName (\<lambda>r. True) (piName p)) (GetPeers textLib (syPt (servedSys textLib)) (\<lambda>p. []) [''p''])"
  using delivered_clean [of "\<lambda>r. True" textLib "''me''" "servedSys textLib" "\<lambda>p. []" "[''p'']", OF reach_served]
  by (simp add: servedSys_def oneReader_def servedReader_def)

end
