(* ===== verification/Keys.thy ===== *)
theory Keys
  imports Json
begin

text \<open>
  Private keys as hex text (src/client.go): \<open>GeneratePrivateKey\<close>, \<open>PrivateKeyToHex\<close> and
  \<open>PrivateKeyFromHex\<close>, with encoding/hex.  Keys and their binary form belong to libp2p: \<open>keyLib\<close>
  is what the crypto library answers.
\<close>

section \<open>Hexadecimal\<close>

definition hexByte :: "char \<Rightarrow> string" where
  "hexByte c = [hexDigit (byteOf c div 16), hexDigit (byteOf c mod 16)]"

definition hexEncode :: "string \<Rightarrow> string" where
  "hexEncode s = concat (map hexByte s)"

definition hexInvalidByte :: goerror where "hexInvalidByte = ExtErr ''encoding/hex: invalid byte''"
definition hexErrLength :: goerror where "hexErrLength = NewErr ''encoding/hex: odd length hex string''"

text \<open>\<open>hex.DecodeString\<close>: the first invalid byte decides the error, then an odd length.\<close>

fun hexDecode :: "string \<Rightarrow> goerror + string" where
  "hexDecode [] = Inr []"
| "hexDecode [a] = (if hexVal a = None then Inl hexInvalidByte else Inl hexErrLength)"
| "hexDecode (a # b # rest) =
     (case (hexVal a, hexVal b) of
        (Some x, Some y) \<Rightarrow>
          (case hexDecode rest of Inl err \<Rightarrow> Inl err | Inr bs \<Rightarrow> Inr (char_of (x * 16 + y) # bs))
      | _ \<Rightarrow> Inl hexInvalidByte)"

definition peelHex :: "string \<Rightarrow> (char \<times> string) option" where
  "peelHex s =
     (case s of
        a # b # rest \<Rightarrow>
          (case (hexVal a, hexVal b) of (Some x, Some y) \<Rightarrow> Some (char_of (x * 16 + y), rest) | _ \<Rightarrow> None)
      | _ \<Rightarrow> None)"

definition hexResult :: "string \<Rightarrow> (string \<times> string) option" where
  "hexResult s = (case hexDecode s of Inl err \<Rightarrow> None | Inr bs \<Rightarrow> Some (bs, []))"

lemma hexVal_less: "hexVal c = Some v \<Longrightarrow> v < 16"
  by (auto simp: hexVal_def Let_def split: if_splits)

lemma peel_hexByte: "peelHex (hexByte c @ ys) = Some (c, ys)"
proof -
  have "byteOf c div 16 < (16 :: nat)" by (rule byte_div)
  then show ?thesis by (simp add: peelHex_def hexByte_def)
qed

lemma hexResult_peel: "s \<noteq> [] \<Longrightarrow> peelHex s = Some (c, zs) \<Longrightarrow> hexResult s = map_option (apfst ((#) c)) (hexResult zs)"
  by (cases s rule: hexDecode.cases) (auto simp: peelHex_def hexResult_def split: option.splits sum.splits)

interpretation hex: peel_codec hexByte peelHex "\<lambda>c. True" "\<lambda>s. s = []" "\<lambda>s. s" hexResult
  by unfold_locales (rule peel_hexByte, simp add: hexByte_def, simp add: hexResult_def, rule hexResult_peel)

lemma hexDecode_encode: "hexDecode (hexEncode s) = Inr s"
  using hex.dec_enc [of s "[]"] by (auto simp: hexEncode_def hexResult_def split: sum.splits)

text \<open>Decoding accepts exactly the strings of an even number of hexadecimal digits.\<close>

lemma hexDecode_accepts:
  "(case hexDecode s of Inl err \<Rightarrow> False | Inr bs \<Rightarrow> True) =
     (even (length s) \<and> list_all (\<lambda>c. hexVal c \<noteq> None) s)"
  by (induction s rule: hexDecode.induct) (auto split: option.splits sum.splits)

section \<open>Keys\<close>

record 'key keyLib =
  klGenerate :: "goerror + 'key"
  klMarshal :: "'key \<Rightarrow> goerror + string"
  klUnmarshal :: "string \<Rightarrow> goerror + 'key"

definition GeneratePrivateKey :: "'key keyLib \<Rightarrow> goerror + 'key" where
  "GeneratePrivateKey kl =
     (case klGenerate kl of
        Inl err \<Rightarrow> Inl (FmtErrorf ''failed to generate key: %w'' [FWrap err])
      | Inr priv \<Rightarrow> Inr priv)"

definition PrivateKeyToHex :: "'key keyLib \<Rightarrow> 'key \<Rightarrow> goerror + string" where
  "PrivateKeyToHex kl priv =
     (case klMarshal kl priv of
        Inl err \<Rightarrow> Inl (FmtErrorf ''failed to marshal key: %w'' [FWrap err])
      | Inr keyBytes \<Rightarrow> Inr (hexEncode keyBytes))"

definition PrivateKeyFromHex :: "'key keyLib \<Rightarrow> string \<Rightarrow> goerror + 'key" where
  "PrivateKeyFromHex kl keyHex =
     (case hexDecode keyHex of
        Inl err \<Rightarrow> Inl (FmtErrorf ''failed to decode hex key: %w'' [FWrap err])
      | Inr keyBytes \<Rightarrow>
          (case klUnmarshal kl keyBytes of
             Inl err \<Rightarrow> Inl (FmtErrorf ''failed to unmarshal private key: %w'' [FWrap err])
           | Inr priv \<Rightarrow> Inr priv))"

section \<open>Properties\<close>

text \<open>A stored key is read back: when libp2p unmarshals what it marshalled for a key, the hex text of
  the key loads as that key; and text that is not an even number of hex digits never loads.\<close>

theorem key_round_trip:
  assumes "klMarshal kl priv = Inr keyBytes" and "klUnmarshal kl keyBytes = Inr priv"
    and "odd (length junk)"
  shows "PrivateKeyToHex kl priv = Inr (hexEncode keyBytes) \<and> PrivateKeyFromHex kl (hexEncode keyBytes) = Inr priv
    \<and> isl (PrivateKeyFromHex kl junk)"
proof -
  have "isl (hexDecode junk)" using hexDecode_accepts [of junk] assms(3) by (cases "hexDecode junk") auto
  then show ?thesis using assms
    by (auto simp: PrivateKeyToHex_def PrivateKeyFromHex_def hexDecode_encode split: sum.split)
qed

lemma key_round_trip_witness:
  "PrivateKeyFromHex \<lparr>klGenerate = Inr ''k'', klMarshal = Inr, klUnmarshal = Inr\<rparr> (hexEncode ''secret'') = Inr ''secret''"
  using key_round_trip [of "\<lparr>klGenerate = Inr ''k'', klMarshal = Inr, klUnmarshal = Inr\<rparr>" "''secret''" "''secret''" "''abc''"]
  by simp

end
