(* ===== verification/Logger.thy ===== *)
theory Logger
  imports Clock Keys
begin

text \<open>
  \<open>DefaultLogger\<close> of src/config.go, which prints through the standard \<open>log\<close> package: the formatting of
  \<open>fmt\<close> for the verbs and arguments the program uses, the text of errors, and the line \<open>log.Printf\<close>
  writes.  A line is whole when it has no control character but its final newline; quoting, hex and sanitized
  names keep it whole.
\<close>

section \<open>Values as text\<close>

text \<open>\<open>time.Duration\<close>'s \<open>String\<close>: a fraction of \<open>prec\<close> digits without its trailing zeros, then the units.\<close>

definition fracOf :: "nat \<Rightarrow> nat \<Rightarrow> string" where
  "fracOf prec v = (let f = v mod 10 ^ prec in if f = 0 then [] else CHR ''.'' # stripZeros (padded prec f))"

definition unitText :: "nat \<Rightarrow> nat \<Rightarrow> string \<Rightarrow> string" where
  "unitText prec u unit = natDec (u div 10 ^ prec) @ fracOf prec u @ unit"

definition absDurText :: "nat \<Rightarrow> string" where
  "absDurText u =
     (if u = 0 then ''0s''
      else if u < 1000 then unitText 0 u ''ns''
      else if u < 1000000 then unitText 3 u [CHR 0xC2, CHR 0xB5, CHR ''s'']
      else if u < 1000000000 then unitText 6 u ''ms''
      else
        (let secs = u div 1000000000; mins = secs div 60; hours = mins div 60 in
         (if 0 < hours then natDec hours @ ''h'' else [])
         @ (if 0 < mins then natDec (mins mod 60) @ ''m'' else [])
         @ natDec (secs mod 60) @ fracOf 9 u @ ''s''))"

definition durText :: "duration \<Rightarrow> string" where
  "durText d = (if d < 0 then CHR ''-'' # absDurText (nat (- d)) else absDurText (nat d))"

section \<open>Formatting\<close>

text \<open>A string, an integer and a list of strings under a verb; a verb that does not fit is reported.\<close>

definition strText :: "(rune \<Rightarrow> bool) \<Rightarrow> string \<Rightarrow> char \<Rightarrow> string" where
  "strText uni s v =
     (if v = CHR ''s'' \<or> v = CHR ''v'' \<or> v = CHR ''w'' then s
      else if v = CHR ''q'' then quoted uni s
      else if v = CHR ''x'' then hexEncode s
      else ''%!'' @ [v] @ ''(string='' @ s @ '')'')"

definition numText :: "int \<Rightarrow> char \<Rightarrow> string" where
  "numText i v =
     (if v = CHR ''d'' \<or> v = CHR ''v'' \<or> v = CHR ''f'' then intDec i else ''%!'' @ [v] @ ''(int='' @ intDec i @ '')'')"

fun spaceSep :: "string list \<Rightarrow> string" where
  "spaceSep [] = []"
| "spaceSep [x] = x"
| "spaceSep (x # y # zs) = x @ CHR '' '' # spaceSep (y # zs)"

text \<open>
  The format: a verb is the next letter after the percent sign, what lies between are its flags, of
  which the program uses padding on the right.  An argument is given as its text under
  each verb.  No call of the program has more arguments than verbs.
\<close>

definition isVerb :: "char \<Rightarrow> bool" where
  "isVerb c \<longleftrightarrow> 97 \<le> byteOf c \<and> byteOf c \<le> (122 :: nat)"

definition padRight :: "string \<Rightarrow> string \<Rightarrow> string" where
  "padRight flags s =
     (case flags of
        c # ds \<Rightarrow> if c = CHR ''-'' then s @ replicate (natOf 0 ds - length (runes s)) (CHR '' '') else s
      | [] \<Rightarrow> s)"

function format :: "string \<Rightarrow> (char \<Rightarrow> string) list \<Rightarrow> string" where
  "format [] args = []"
| "format (c # cs) args =
     (if c \<noteq> CHR ''%'' then c # format cs args
      else
        (case dropWhile (\<lambda>c. \<not> isVerb c) cs of
           [] \<Rightarrow> ''%!(NOVERB)''
         | v # rest \<Rightarrow>
             (case args of
                [] \<Rightarrow> ''%!'' @ [v] @ ''(MISSING)'' @ format rest []
              | a # as \<Rightarrow> padRight (takeWhile (\<lambda>c. \<not> isVerb c) cs) (a v) @ format rest as)))"
  by pat_completeness auto
termination
proof (relation "measure (\<lambda>(f, args). length f)", goal_cases)
  case (3 c cs args v rest)
  then show ?case using length_dropWhile_le [of "\<lambda>c. \<not> isVerb c" cs] by simp
next
  case (4 c cs args v rest a as)
  then show ?case using length_dropWhile_le [of "\<lambda>c. \<not> isVerb c" cs] by simp
qed simp_all

text \<open>Arguments and errors: \<open>Error()\<close> of an \<open>fmt.Errorf\<close> is its formatted text.\<close>

fun argText :: "(rune \<Rightarrow> bool) \<Rightarrow> fmtarg \<Rightarrow> char \<Rightarrow> string"
  and errorText :: "(rune \<Rightarrow> bool) \<Rightarrow> goerror \<Rightarrow> string" where
  "argText uni (FStr s) v = strText uni s v"
| "argText uni (FInt i) v = numText i v"
| "argText uni (FDur d) v = (if v = CHR ''d'' then intDec d else strText uni (durText d) v)"
| "argText uni (FStrs ss) v = ''['' @ spaceSep (map (\<lambda>s. strText uni s v) ss) @ '']''"
| "argText uni (FErr e) v = strText uni (errorText uni e) v"
| "argText uni (FWrap e) v = strText uni (errorText uni e) v"
| "errorText uni (NewErr m) = m"
| "errorText uni (ExtErr m) = m"
| "errorText uni (FmtErrorf f as) = format f (map (\<lambda>a. argText uni a) as)"

section \<open>The default logger\<close>

text \<open>\<open>log.Printf\<close> under the standard flags: date, time, the message, and a newline unless it ends in one.\<close>

definition logHeader :: "int \<Rightarrow> gotime \<Rightarrow> string" where
  "logHeader zone now =
     (let secs = now div second + zone; clock = nat (secs mod daySecs) in
      case dateOf (secs div daySecs) of
        (y, m, d) \<Rightarrow>
          padded 4 (nat y) @ CHR ''/'' # padded 2 m @ CHR ''/'' # padded 2 (nat d) @ CHR '' ''
          # padded 2 (clock div 3600) @ CHR '':'' # padded 2 (clock div 60 mod 60) @ CHR '':'' # padded 2 (clock mod 60) @ '' '')"

definition logPrintf :: "(rune \<Rightarrow> bool) \<Rightarrow> int \<Rightarrow> gotime \<Rightarrow> string \<Rightarrow> fmtarg list \<Rightarrow> string" where
  "logPrintf uni zone now f as =
     (let msg = format f (map (argText uni) as) in
      logHeader zone now @ msg @ (if msg \<noteq> [] \<and> last msg = CHR 0x0A then [] else [CHR 0x0A]))"

fun DefaultLogger :: "(rune \<Rightarrow> bool) \<Rightarrow> int \<Rightarrow> gotime \<Rightarrow> logline \<Rightarrow> string" where
  "DefaultLogger uni zone now (Debugf f as) = logPrintf uni zone now (''[DEBUG] '' @ f) as"
| "DefaultLogger uni zone now (Infof f as) = logPrintf uni zone now (''[INFO] '' @ f) as"
| "DefaultLogger uni zone now (Warnf f as) = logPrintf uni zone now (''[WARN] '' @ f) as"
| "DefaultLogger uni zone now (Errorf f as) = logPrintf uni zone now (''[ERROR] '' @ f) as"

section \<open>Whole lines\<close>

lemma singleLine_padded [simp]: "singleLine (padded w n)"
  by (rule singleLine_digits) (rule digits_padded)

lemma singleLine_hexEncode [simp]: "singleLine (hexEncode s)"
proof -
  have "byteOf c div 16 < (16 :: nat)" "byteOf c mod 16 < (16 :: nat)" for c :: char
    using byteOf_less [of c] by (auto intro: less_mult_imp_div_less)
  then show ?thesis unfolding hexEncode_def by (intro singleLine_concat) (simp add: hexByte_def hexDigit_line)
qed

lemma singleLine_header [simp]: "singleLine (logHeader zone now)"
  by (simp add: logHeader_def Let_def split: prod.split)

text \<open>A line that ends in no newline of its own gets exactly one.\<close>

lemma logPrintf_line:
  assumes "singleLine (format f (map (argText uni) as))"
  shows "logPrintf uni zone now f as = (logHeader zone now @ format f (map (argText uni) as)) @ [CHR 0x0A]"
    and "singleLine (logHeader zone now @ format f (map (argText uni) as))"
proof -
  let ?m = "format f (map (argText uni) as)"
  have "?m \<noteq> [] \<Longrightarrow> last ?m \<in> set ?m" by simp
  then have "?m \<noteq> [] \<Longrightarrow> last ?m \<noteq> CHR 0x0A" using assms by (force simp: singleLine_def list_all_iff)
  then show "logPrintf uni zone now f as = (logHeader zone now @ ?m) @ [CHR 0x0A]" by (auto simp: logPrintf_def Let_def)
qed (use assms in simp)

end
