(* ===== verification/Logging.thy ===== *)
theory Logging
  imports Logger Receivers
begin

text \<open>
  What a reader's lines look like once \<open>DefaultLogger\<close> prints them: a peer chooses the data of its malformed
  messages and its own name, and neither can put a control character into the log or forge a second line.
\<close>

section \<open>The text of the two lines\<close>

lemma malformed_format:
  "format ''[DEBUG] Malformed message from %s (%s) on topic %s: %v (count=%d, len=%d, preview=%q, hex=%x)''
     [a, b, c, d, e, f, g, h] =
   ''[DEBUG] Malformed message from '' @ a (CHR ''s'') @ '' ('' @ b (CHR ''s'') @ '') on topic '' @ c (CHR ''s'') @ '': ''
   @ d (CHR ''v'') @ '' (count='' @ e (CHR ''d'') @ '', len='' @ f (CHR ''d'') @ '', preview='' @ g (CHR ''q'')
   @ '', hex='' @ h (CHR ''x'') @ '')''"
  by (simp add: isVerb_def padRight_def)

lemma skipping_format:
  "format ''[WARN] Skipping peer %s (%s) on topic %s: %d malformed messages exceeded threshold'' [a, b, c, d] =
   ''[WARN] Skipping peer '' @ a (CHR ''s'') @ '' ('' @ b (CHR ''s'') @ '') on topic '' @ c (CHR ''s'') @ '': ''
   @ d (CHR ''d'') @ '' malformed messages exceeded threshold''"
  by (simp add: isVerb_def padRight_def)

section \<open>What a reader logs\<close>

text \<open>
  An error of \<open>json.Unmarshal\<close> quotes what the peer sent: the byte the scanner stumbled over, or a number
  literal that does not fit.  Both are printed with no control character.
\<close>

definition decodeError :: "goerror \<Rightarrow> bool" where
  "decodeError e \<longleftrightarrow> (\<exists>t. e = ExtErr t \<and> singleLine t)"

lemma decodeError_line: "decodeError e \<Longrightarrow> singleLine (errorText uni e)"
  by (auto simp: decodeError_def)

fun plainNums :: "json \<Rightarrow> bool" where
  "plainNums (JNum lit) = singleLine lit"
| "plainNums (JArr vs) = list_all plainNums vs"
| "plainNums (JObj ms) = list_all (\<lambda>m. plainNums (snd m)) ms"
| "plainNums v = True"

lemma digits_line: "singleLine (fst (splitDigits s))"
  by (rule singleLine_digits) (auto simp: splitDigits_def list_all_iff dest: set_takeWhileD)

lemma numInt_line: "numInt s = Some (a, t) \<Longrightarrow> singleLine a"
  using digits_line [of s] by (cases s) (auto simp: numInt_def splitDigits_def isDigit_def split: if_splits)

lemma numFrac_line: "numFrac s = Some (a, t) \<Longrightarrow> singleLine a"
  using digits_line [of "tl s"] by (cases s) (auto simp: numFrac_def split: if_splits prod.splits)

lemma numExp_line: "numExp s = Some (a, t) \<Longrightarrow> singleLine a"
  using digits_line [of "snd (numSign (tl s))"]
  by (cases s) (fastforce simp: numExp_def numSign_def split: if_splits prod.splits list.splits)+

lemma number_line: "number s = Some (a, t) \<Longrightarrow> singleLine a"
  by (auto simp: number_def Let_def split: option.splits prod.splits list.splits if_splits
      dest!: numInt_line numFrac_line numExp_line)

lemma literal_line: "literal s = Some (v, t) \<Longrightarrow> plainNums v"
  by (auto simp: literal_def split: option.splits dest: number_line)

lemma parse_line:
  "parseValue n d s = Some (v, t) \<Longrightarrow> plainNums v"
  "parseElems n d s = Some (vs, t) \<Longrightarrow> list_all plainNums vs"
  "parseMembers n d s = Some (ms, t) \<Longrightarrow> list_all (\<lambda>m. plainNums (snd m)) ms"
proof (induction n d s and n d s and n d s arbitrary: v t and vs t and ms t
       rule: parseValue_parseElems_parseMembers.induct)
  case (2 n d s)
  then show ?case
    by (fastforce simp: parseValue.simps strLit_def split: list.splits if_splits option.splits dest!: literal_line)
next
  case (4 n d s)
  then show ?case
    by (fastforce simp: parseElems.simps split: list.splits if_splits option.splits prod.splits)
next
  case (6 n d s)
  then show ?case
    by (fastforce simp: parseMembers.simps split: list.splits if_splits option.splits prod.splits)
qed (simp_all add: parseValue.simps parseElems.simps parseMembers.simps)

lemma jsonParse_line: "jsonParse s = Some v \<Longrightarrow> plainNums v"
  by (auto simp: jsonParse_def split: option.splits if_splits dest: parse_line)

lemma syntax_error: "jsonParse raw = None \<Longrightarrow> decodeError (jsonSyntaxError raw)"
  by (auto simp: decodeError_def jsonSyntaxError_def checkValid_line split: option.split)

lemma jsonKind_line: "singleLine (jsonKind v)"
  by (cases v) simp_all

lemma type_error: "singleLine val \<Longrightarrow> singleLine target \<Longrightarrow> singleLine ty \<Longrightarrow> decodeError (jsonTypeError val target ty)"
  by (simp add: decodeError_def jsonTypeError_def)

lemma base64_error: "decodeError (base64Error n)"
  by (simp add: decodeError_def base64Error_def)

lemma byteElem_error: "plainNums v \<Longrightarrow> snd (byteElem b v) = Some e \<Longrightarrow> decodeError e"
  by (auto simp: byteElem_def intro!: type_error split: json.splits if_splits)

lemma storeBytes_error: "list_all plainNums vs \<Longrightarrow> snd (storeBytes old vs) = Some e \<Longrightarrow> decodeError e"
proof (induction old vs rule: storeBytes.induct)
  case (2 old v vs)
  let ?b = "case old of [] \<Rightarrow> CHR 0x00 | o' # os \<Rightarrow> o'"
  show ?case using 2 byteElem_error [of v ?b e]
    by (cases "byteElem ?b v", cases "snd (byteElem ?b v)") (auto split: prod.splits)
qed simp

lemma firstErr_cases: "firstErr a b = Some e \<Longrightarrow> a = Some e \<or> b = Some e"
  by (cases a) simp_all

lemma storeMember_error:
  assumes "snd (snd (storeMember st kv)) = Some e" and "plainNums (snd kv)"
  shows "snd (snd st) = Some e \<or> decodeError e"
  using assms storeBytes_error
  by (auto simp: storeMember_def intro!: type_error base64_error jsonKind_line dest!: firstErr_cases
      split: prod.splits if_splits json.splits option.splits) (metis snd_conv storeBytes_error)+

lemma storeMembers_error:
  "snd (snd (foldl storeMember st ms)) = Some e \<Longrightarrow> list_all (\<lambda>m. plainNums (snd m)) ms
     \<Longrightarrow> snd (snd st) = Some e \<or> decodeError e"
proof (induction ms arbitrary: st)
  case (Cons kv ms)
  then show ?case using storeMember_error [of st kv e] by fastforce
qed simp

lemma envelopeType_line: "singleLine envelopeType"
  by (simp add: envelopeType_def)

lemma unmarshalEnvelope_error: "unmarshalEnvelope data = Inl e \<Longrightarrow> decodeError e"
proof -
  have "storeEnvelope v = Inl e \<Longrightarrow> plainNums v \<Longrightarrow> decodeError e" for v
    using storeMembers_error [where e = e]
    by (auto simp: storeEnvelope_def intro!: type_error jsonKind_line envelopeType_line split: json.splits prod.splits option.splits)
       (metis option.distinct(1) snd_conv)+
  then show "unmarshalEnvelope data = Inl e \<Longrightarrow> decodeError e"
    by (auto simp: unmarshalEnvelope_def split: option.splits dest: syntax_error jsonParse_line)
qed

text \<open>A line of \<open>handleMalformedMessage\<close>: a clean name, an ID, a topic, and anything as data.\<close>

definition peerLine :: "(rune \<Rightarrow> bool) \<Rightarrow> 'ma netLib \<Rightarrow> string set \<Rightarrow> logline \<Rightarrow> bool" where
  "peerLine uni lib topics l \<longleftrightarrow> (\<exists>name a topic. cleanName uni name \<and> topic \<in> topics \<and>
     ((\<exists>err cnt n preview data. decodeError err \<and> l = malformedLine [FStr name, FStr (idString lib a), FStr topic,
         FErr err, FInt cnt, FInt n, FStr preview, FStr data])
      \<or> (\<exists>cnt. l = skippingLine [FStr name, FStr (idString lib a), FStr topic, FInt cnt])))"

lemma peerLine_mono: "peerLine uni lib A l \<Longrightarrow> A \<subseteq> B \<Longrightarrow> peerLine uni lib B l"
  unfolding peerLine_def by blast

lemma peerLine_whole:
  assumes "peerLine uni lib topics l" and "\<And>p. singleLine (idString lib p)" and "\<And>t. t \<in> topics \<Longrightarrow> singleLine t"
  shows "\<exists>body. DefaultLogger uni zone now l = body @ [CHR 0x0A] \<and> singleLine body"
proof -
  obtain name a topic where h: "cleanName uni name" "topic \<in> topics"
    "(\<exists>err cnt n preview data. decodeError err \<and> l = malformedLine [FStr name, FStr (idString lib a), FStr topic,
         FErr err, FInt cnt, FInt n, FStr preview, FStr data])
      \<or> (\<exists>cnt. l = skippingLine [FStr name, FStr (idString lib a), FStr topic, FInt cnt])"
    using assms(1) unfolding peerLine_def by blast
  have parts: "singleLine name" "singleLine topic" using singleLine_clean h(1,2) assms(3) by blast+
  from h(3) show ?thesis
  proof (elim disjE exE conjE)
    fix err cnt n preview data
    assume e: "decodeError err" and l: "l = malformedLine [FStr name, FStr (idString lib a), FStr topic,
        FErr err, FInt cnt, FInt n, FStr preview, FStr data]"
    let ?as = "[FStr name, FStr (idString lib a), FStr topic, FErr err, FInt cnt, FInt n, FStr preview, FStr data]"
    let ?f = "''[DEBUG] '' @ ''Malformed message from %s (%s) on topic %s: %v (count=%d, len=%d, preview=%q, hex=%x)''"
    have "singleLine (format ?f (map (argText uni) ?as))"
      using parts assms(2) decodeError_line [OF e] malformed_format by (simp add: strText_def numText_def del: format.simps)
    from logPrintf_line [OF this] show ?thesis unfolding l malformedLine_def DefaultLogger.simps by blast
  next
    fix cnt
    assume l: "l = skippingLine [FStr name, FStr (idString lib a), FStr topic, FInt cnt]"
    let ?as = "[FStr name, FStr (idString lib a), FStr topic, FInt cnt]"
    let ?f = "''[WARN] '' @ ''Skipping peer %s (%s) on topic %s: %d malformed messages exceeded threshold''"
    have "singleLine (format ?f (map (argText uni) ?as))"
      using parts assms(2) skipping_format by (simp add: strText_def numText_def del: format.simps)
    from logPrintf_line [OF this] show ?thesis unfolding l skippingLine_def DefaultLogger.simps by blast
  qed
qed

text \<open>Along the runs of a client.\<close>

fun failed :: "rpc \<Rightarrow> bool" where
  "failed (PBad a data err) = (decodeError err)"
| "failed (PLogBad a data err cnt js) = (decodeError err)"
| "failed pc = True"

abbreviation topicsOf :: "sys \<Rightarrow> string set" where
  "topicsOf s \<equiv> rdTopic ` set (readers s)"

definition log_inv :: "(rune \<Rightarrow> bool) \<Rightarrow> 'ma netLib \<Rightarrow> sys \<Rightarrow> bool" where
  "log_inv uni lib s \<longleftrightarrow> tracker_inv uni (syPt s) \<and> list_all (\<lambda>r. failed (rdPc r)) (readers s)
     \<and> list_all (\<lambda>x. peerLine uni lib (topicsOf s) (snd x)) (syLog s)"

lemma log_same [simp]:
  "log_inv uni lib (s\<lparr>syJoined := a\<rparr>) = log_inv uni lib s" "log_inv uni lib (s\<lparr>syTopics := b\<rparr>) = log_inv uni lib s"
  "log_inv uni lib (s\<lparr>sySubs := c\<rparr>) = log_inv uni lib s" "log_inv uni lib (s\<lparr>closers := d\<rparr>) = log_inv uni lib s"
  "log_inv uni lib (s\<lparr>syClosed := e\<rparr>) = log_inv uni lib s" "log_inv uni lib (s\<lparr>syCtx := e\<rparr>) = log_inv uni lib s"
  "log_inv uni lib (s\<lparr>syWg := n\<rparr>) = log_inv uni lib s" "log_inv uni lib (s\<lparr>syTimedOut := e\<rparr>) = log_inv uni lib s"
  "log_inv uni lib (s\<lparr>syTorn := e\<rparr>) = log_inv uni lib s" "log_inv uni lib (s\<lparr>syPanic := e\<rparr>) = log_inv uni lib s"
  by (simp_all add: log_inv_def)

lemma topicsOf_update:
  assumes "i < length (readers s)" and "rdTopic (f (readers s ! i)) = rdTopic (readers s ! i)"
  shows "topicsOf (updReader i f s) = topicsOf s"
proof -
  have "map rdTopic ((readers s)[i := f (readers s ! i)]) = map rdTopic (readers s)"
    using assms by (simp add: map_update list_update_same_conv)
  then show ?thesis by (metis image_set updReader_simps(11))
qed

lemma log_update:
  assumes "log_inv uni lib s" and "i < length (readers s)"
    and "rdTopic (f (readers s ! i)) = rdTopic (readers s ! i)" and "failed (rdPc (f (readers s ! i)))"
  shows "log_inv uni lib (updReader i f s)"
  using assms topicsOf_update [of i s f] by (simp add: log_inv_def list_all_update)

lemma log_reader: "log_inv uni lib s \<Longrightarrow> i < length (readers s) \<Longrightarrow> failed (rdPc (readers s ! i))"
  by (simp add: log_inv_def list_all_length)

lemma log_receive:
  assumes "log_inv uni lib s" and "i < length (readers s)"
  shows "log_inv uni lib (takeMessage uni lib now sent i s)"
proof -
  let ?r = "readers s ! i"
  obtain pc' pt' lines where r: "receiveAct uni lib (rdTopic ?r) now sent (rdPc ?r) (syPt s) = (pc', pt', lines)"
    by (rule prod_cases3)
  have inv: "tracker_inv uni (syPt s)" "failed (rdPc ?r)" "list_all (\<lambda>r. failed (rdPc r)) (readers s)"
    "list_all (\<lambda>x. peerLine uni lib (topicsOf s) (snd x)) (syLog s)"
    using assms by (simp_all add: log_inv_def list_all_length)
  have topic: "rdTopic ?r \<in> topicsOf s" using assms(2) by simp
  have "failed pc' \<and> list_all (\<lambda>x. peerLine uni lib (topicsOf s) (snd x)) lines"
  proof (cases "rdPc ?r")
    case (PLogBad a data err cnt js)
    then show ?thesis using r inv(1,2) topic getName_clean [OF inv(1), of a]
      by (fastforce simp: peerLine_def)
  next
    case (PLogSkip a cnt)
    then show ?thesis using r topic getName_clean [OF inv(1), of a] by (fastforce simp: peerLine_def)
  qed (use r inv(2) in \<open>auto dest: unmarshalEnvelope_error split: if_splits sum.splits prod.splits\<close>)
  moreover have "topicsOf (updReader i (\<lambda>r. r\<lparr>rdPc := pc', rdPassed := rdPassed r @ passing (rdPc r) pc'\<rparr>) s) = topicsOf s"
    by (rule topicsOf_update) (simp_all add: assms(2))
  ultimately show ?thesis using inv receiveAct_tracker [OF r inv(1)]
    by (simp add: takeMessage_def r log_inv_def list_all_update)
qed

lemma log_subscribe:
  assumes "log_inv uni lib s"
  shows "log_inv uni lib (Subscribe topic s)"
proof -
  have "list_all (\<lambda>x. peerLine uni lib (topicsOf (Subscribe topic s)) (snd x)) (syLog s)"
    using assms unfolding log_inv_def
    by (auto simp: Subscribe_def list_all_iff elim!: peerLine_mono)
  then show ?thesis using assms by (simp add: log_inv_def Subscribe_def newReader_def split: if_splits)
qed

lemma log_cancelSubs:
  assumes "log_inv uni lib s"
  shows "log_inv uni lib (cancelSubs s)"
proof -
  have len: "length (readers (cancelSubs s)) = length (readers s)" by (simp add: cancelSubs_def)
  then have "map rdTopic (readers (cancelSubs s)) = map rdTopic (readers s)" "map rdPc (readers (cancelSubs s)) = map rdPc (readers s)"
    by (auto simp: cancelSubs_reader intro!: nth_equalityI)
  then have "topicsOf (cancelSubs s) = topicsOf s" "rdPc ` set (readers (cancelSubs s)) = rdPc ` set (readers s)"
    by (metis image_set)+
  moreover have "syPt (cancelSubs s) = syPt s" "syLog (cancelSubs s) = syLog s" by (simp_all add: cancelSubs_def)
  ultimately show ?thesis using assms unfolding log_inv_def list.pred_set by (metis image_iff)
qed

lemma log_step:
  assumes "log_inv uni lib s" and "sysStep uni lib self a s t"
  shows "log_inv uni lib t"
  using assms(2)
proof cases
  case (receive i now sent)
  then show ?thesis using assms(1) by (simp add: log_receive)
qed (use assms(1) in \<open>simp_all add: takeNext_def sendOn_def closeChan_def wgDone_def log_update log_reader log_subscribe log_cancelSubs\<close>)

interpretation logging: invariant_system sysInit "sysNext uni lib self" "log_inv uni lib" for uni lib self
proof unfold_locales
  show "sysInit s \<Longrightarrow> log_inv uni lib s" for s by (simp add: sysInit_def log_inv_def)
  show "log_inv uni lib s \<Longrightarrow> sysNext uni lib self s t \<Longrightarrow> log_inv uni lib t" for s t
    unfolding sysNext_def using log_step by blast
qed

section \<open>Property\<close>

text \<open>C10. No peer can forge or break a log line: whatever bytes it sends as malformed messages or as its name, each
  line the default logger prints about it is one line, with no control character before its final
  newline, the text of the JSON error and the bytes it quotes included, given that printed IDs have none and the application's own topic names have none.\<close>

theorem log_lines_whole:
  assumes "reach sysInit (sysNext uni lib self) s" and "(p, l) \<in> set (syLog s)"
    and "\<And>q. singleLine (idString lib q)" and "list_all singleLine (map rdTopic (readers s))"
  shows "\<exists>body. DefaultLogger uni zone now l = body @ [CHR 0x0A] \<and> singleLine body"
proof -
  have "peerLine uni lib (topicsOf s) l"
    using logging.reach_inv [OF assms(1)] assms(2) by (fastforce simp: log_inv_def list_all_iff)
  then show ?thesis using assms(3,4) by (intro peerLine_whole) (auto simp: list_all_iff)
qed

lemma log_lines_whole_witness:
  "\<exists>body. DefaultLogger (\<lambda>r. True) 0 0 (snd (hd (syLog (servedSys (textLib\<lparr>idString := hexEncode\<rparr>))))) = body @ [CHR 0x0A] \<and> singleLine body"
proof -
  let ?lib = "textLib\<lparr>idString := hexEncode\<rparr>"
  have "(''q'', snd (hd (syLog (servedSys ?lib)))) \<in> set (syLog (servedSys ?lib))"
    by (simp add: servedSys_def oneReader_def malformedLog_def)
  moreover have "list_all singleLine (map rdTopic (readers (servedSys ?lib)))"
    by (simp add: servedSys_def oneReader_def servedReader_def newReader_def)
  ultimately show ?thesis using log_lines_whole [OF reach_served, of "''q''" _ ?lib] by simp
qed

end
