(* ===== verification/ExampleCmd.thy ===== *)
theory ExampleCmd
  imports Keys Receive CacheJson "HOL-Library.Char_ord" "HOL-Library.List_Lexorder"
begin

text \<open>
  The example program (src/cmd/example/main.go): parsing its flags, finding its key, the payloads
  it broadcasts, and the text of the peers it displays.  \<open>main\<close>
  itself is in ExampleMain; the goroutines of \<open>subscribeToTopics\<close> are those of Forward.
\<close>

section \<open>Splitting and trimming\<close>

text \<open>\<open>strings.Split\<close> with a separator of one byte.\<close>

fun splitOn :: "char \<Rightarrow> string \<Rightarrow> string list" where
  "splitOn sep [] = [[]]"
| "splitOn sep (c # cs) =
     (if c = sep then [] # splitOn sep cs
      else (case splitOn sep cs of [] \<Rightarrow> [[c]] | w # ws \<Rightarrow> (c # w) # ws))"

text \<open>
  \<open>strings.TrimSpace\<close>: the Unicode white space is ASCII white space and eighteen more runes, each removed
  as a whole from either end.
\<close>

definition spaceRunes :: "rune list" where
  "spaceRunes = [9, 10, 11, 12, 13, 32, 133, 160, 5760] @ [8192..<8203] @ [8232, 8233, 8239, 8287, 12288]"

definition spaceTexts :: "string list" where
  "spaceTexts = map encodeRune spaceRunes"

definition startsSpace :: "string \<Rightarrow> string option" where
  "startsSpace s = find (\<lambda>w. take (length w) s = w) spaceTexts"

definition endsSpace :: "string \<Rightarrow> string option" where
  "endsSpace s = find (\<lambda>w. length w \<le> length s \<and> drop (length s - length w) s = w) spaceTexts"

lemma find_space: "find P spaceTexts = Some w \<Longrightarrow> P w \<and> 0 < length w"
  by (auto simp: find_Some_iff spaceTexts_def length_encodeRune)

function trimLeft :: "string \<Rightarrow> string" where
  "trimLeft s = (case startsSpace s of None \<Rightarrow> s | Some w \<Rightarrow> trimLeft (drop (length w) s))"
  by pat_completeness auto
termination
proof (relation "measure length")
  fix s w assume "startsSpace s = Some w"
  then have "take (length w) s = w" "0 < length w" using find_space by (auto simp: startsSpace_def)
  then show "(drop (length w) s, s) \<in> measure length" by (cases s) auto
qed simp

function trimRight :: "string \<Rightarrow> string" where
  "trimRight s = (case endsSpace s of None \<Rightarrow> s | Some w \<Rightarrow> trimRight (take (length s - length w) s))"
  by pat_completeness auto
termination
proof (relation "measure length")
  fix s w assume "endsSpace s = Some w"
  then have "length w \<le> length s" "0 < length w" using find_space by (force simp: endsSpace_def)+
  then show "(take (length s - length w) s, s) \<in> measure length" unfolding in_measure length_take by linarith
qed simp

declare trimLeft.simps [simp del] trimRight.simps [simp del]

definition trimSpace :: "string \<Rightarrow> string" where
  "trimSpace s = trimRight (trimLeft s)"

section \<open>Flags and keys\<close>

definition parseTopics :: "string \<Rightarrow> string list" where
  "parseTopics topics = map trimSpace (splitOn (CHR '','') topics)"

definition parseBootstrapPeers :: "string \<Rightarrow> string list" where
  "parseBootstrapPeers bootstrap =
     (if bootstrap = [] then [] else map trimSpace (splitOn (CHR '','') bootstrap))"

text \<open>\<open>envKey\<close> is the value of the environment variable P2P_PRIVATE_KEY.\<close>

definition newline :: char where "newline = CHR 0x0A"

definition getOrGeneratePrivateKey :: "'key keyLib \<Rightarrow> string \<Rightarrow> string \<Rightarrow> (goerror + 'key) \<times> logline list" where
  "getOrGeneratePrivateKey kl keyHex0 envKey =
     (let keyHex = (if keyHex0 = [] then envKey else keyHex0) in
      if keyHex = [] then
        (case GeneratePrivateKey kl of
           Inl err \<Rightarrow> (Inl err, [])
         | Inr privKey \<Rightarrow>
             (let newKeyHex = (case PrivateKeyToHex kl privKey of Inl err \<Rightarrow> [] | Inr h \<Rightarrow> h) in
              (Inr privKey,
               [Infof (''Generated new private key: %s'' @ [newline]) [FStr newKeyHex],
                Infof ''Save this key and use it next time with --key flag or P2P_PRIVATE_KEY env var'' []])))
      else (PrivateKeyFromHex kl keyHex, []))"

section \<open>Messages and peers\<close>

text \<open>
  \<open>json.Unmarshal\<close> into an interface: a number is read as a \<open>float64\<close>, which fails when it is out of
  range.  \<open>num\<close> gives the text \<open>json.Marshal\<close> writes for the \<open>float64\<close> of a number literal.
\<close>

fun numbersFit :: "(string \<Rightarrow> string option) \<Rightarrow> json \<Rightarrow> bool" where
  "numbersFit num (JNum lit) = (num lit \<noteq> None)"
| "numbersFit num (JArr vs) = list_all (numbersFit num) vs"
| "numbersFit num (JObj ms) = list_all (\<lambda>kv. numbersFit num (snd kv)) ms"
| "numbersFit num v = True"

text \<open>
  \<open>json.MarshalIndent\<close> of the interface at depth \<open>k\<close>: an object has become a map, in which the last of
  several members of one key counts, and which is written in the order of its keys.
\<close>

definition mapTexts :: "(string \<times> string) list \<Rightarrow> string list" where
  "mapTexts ms = map (\<lambda>k. memberText (k, the (map_of (rev ms) k))) (sort (remdups (map fst ms)))"

fun valueText :: "(string \<Rightarrow> string option) \<Rightarrow> nat \<Rightarrow> json \<Rightarrow> string" where
  "valueText num k JNull = ''null''"
| "valueText num k (JBool b) = (if b then ''true'' else ''false'')"
| "valueText num k (JNum lit) = (case num lit of Some txt \<Rightarrow> txt | None \<Rightarrow> [])"
| "valueText num k (JStr raw s) = jsonQuote s"
| "valueText num k (JArr vs) = indentBlock (CHR ''['') (CHR '']'') k (map (valueText num (Suc k)) vs)"
| "valueText num k (JObj ms) =
     indentBlock (CHR ''{'') (CHR ''}'') k (mapTexts (map (\<lambda>kv. (fst kv, valueText num (Suc k) (snd kv))) ms))"

definition indentJSON :: "(string \<Rightarrow> string option) \<Rightarrow> string \<Rightarrow> string option" where
  "indentJSON num data =
     (case jsonParse data of
        None \<Rightarrow> None
      | Some v \<Rightarrow> if numbersFit num v then Some (valueText num 0 v) else None)"

definition formatMessageData :: "(string \<Rightarrow> string option) \<Rightarrow> string \<Rightarrow> bool \<Rightarrow> string" where
  "formatMessageData num data prettyJSON =
     (if \<not> prettyJSON then data
      else (case indentJSON num data of Some jsonBytes \<Rightarrow> jsonBytes | None \<Rightarrow> data))"

definition receiveLine :: "(string \<Rightarrow> string option) \<Rightarrow> bool \<Rightarrow> message \<Rightarrow> logline" where
  "receiveLine num prettyJSON msg =
     Infof (''[%-52s] %s: (%s)'' @ newline # ''%s'') [FStr (msgFromID msg), FStr (msgFrom msg), FStr (msgTopic msg),
       FStr (formatMessageData num (msgData msg) prettyJSON)]"

text \<open>An array of strings is shown one per line, and what is shown is the same array again.\<close>

lemma indent_strings:
  assumes "marshalStrings xs = Inr raw"
  shows "indentJSON num raw = Some (indentBlock (CHR ''['') (CHR '']'') 0 (map (jsonQuote \<circ> toValidUTF8) xs))"
    and "jsonParse (indentBlock (CHR ''['') (CHR '']'') 0 (map (jsonQuote \<circ> toValidUTF8) xs))
      = Some (JArr (map (quotedValue \<circ> toValidUTF8) xs))"
proof -
  have same: "valueText num (Suc 0) \<circ> quotedValue = jsonQuote \<circ> toValidUTF8"
    by (rule ext) (simp add: quotedValue_def)
  have "list_all (numbersFit num) (map quotedValue xs)" by (simp add: list_all_iff quotedValue_def)
  then show "indentJSON num raw = Some (indentBlock (CHR ''['') (CHR '']'') 0 (map (jsonQuote \<circ> toValidUTF8) xs))"
    by (simp add: indentJSON_def jsonParse_strings [OF assms] same)
  have "list_all2 (readsAs 0) (map (jsonQuote \<circ> toValidUTF8) xs) (map (quotedValue \<circ> toValidUTF8) xs)"
    by (simp add: list_all2_conv_all_nth readsAs_quote)
  moreover have "list_all startsValue (map (jsonQuote \<circ> toValidUTF8) xs)"
    by (simp add: list_all_iff startsValue_def jsonQuote_def)
  ultimately show "jsonParse (indentBlock (CHR ''['') (CHR '']'') 0 (map (jsonQuote \<circ> toValidUTF8) xs))
      = Some (JArr (map (quotedValue \<circ> toValidUTF8) xs))"
    using readsAs_array jsonParse_reads by (metis One_nat_def maxNestingDepth_def one_le_numeral)
qed

text \<open>The results of \<open>Publish\<close> for the topics in order: the topics tried, and whether none failed.\<close>

fun publishAll :: "string list \<Rightarrow> (string \<Rightarrow> goerror option) \<Rightarrow> string list \<times> bool" where
  "publishAll [] publish = ([], True)"
| "publishAll (topic # rest) publish =
     (case publish topic of
        Some err \<Rightarrow> ([topic], False)
      | None \<Rightarrow> apfst ((#) topic) (publishAll rest publish))"

definition broadcastText :: "nat \<Rightarrow> string" where
  "broadcastText counter = ''Message #'' @ natDec counter"

text \<open>
  One entry of the list per tick that comes before the context ends: what \<open>Publish\<close> answers for each
  topic at that tick.  The result has, per tick served, the text, the topics it was published to and the
  lines logged; an error ends the loop.
\<close>

fun broadcastMessages ::
  "string \<Rightarrow> string list \<Rightarrow> nat \<Rightarrow> (string \<Rightarrow> goerror option) list
    \<Rightarrow> (string \<times> string list \<times> logline list) list" where
  "broadcastMessages name topics counter [] = []"
| "broadcastMessages name topics counter (publish # ticks) =
     (let counter = counter + 1; txt = broadcastText counter in
      case publishAll topics publish of
        (tried, ok) \<Rightarrow>
          if ok then
            (txt, tried, [Infof (''[%-52s] %s: %s'' @ [newline]) [FStr ''local'', FStr name, FStr txt]])
              # broadcastMessages name topics counter ticks
          else [(txt, tried, [])])"

definition peerLines :: "peerInfo \<Rightarrow> string" where
  "peerLines p =
     ''  - '' @ piName p @ '' ['' @ piID p @ '']'' @ [newline]
       @ concat (map (\<lambda>a. ''    '' @ a @ [newline]) (piAddrs p))"

text \<open>One tick of \<open>displayPeers\<close>, with what \<open>GetPeers\<close> answers.\<close>

definition displayPeers :: "peerInfo list \<Rightarrow> logline list" where
  "displayPeers peers =
     (if 0 < length peers then
        [Infof ''%s'' [FStr ([newline] @ ''=== Connected Peers: '' @ natDec (length peers) @ '' ==='' @ [newline]
           @ concat (map peerLines peers))]]
      else [])"

section \<open>Parsing inverts joining\<close>

lemma splitOn_nonempty: "splitOn sep s \<noteq> []"
  by (induction s) (auto split: list.splits)

lemma splitOn_append: "sep \<notin> set w \<Longrightarrow> splitOn sep (w @ sep # s) = w # splitOn sep s"
  by (induction w) auto

lemma splitOn_word: "sep \<notin> set w \<Longrightarrow> splitOn sep w = [w]"
  by (induction w) auto

lemma splitOn_join:
  "ws \<noteq> [] \<Longrightarrow> list_all (\<lambda>w. CHR '','' \<notin> set w) ws \<Longrightarrow> splitOn (CHR '','') (commaSep ws) = ws"
  by (induction ws rule: commaSep.induct) (simp_all add: splitOn_append splitOn_word)

definition trimmed :: "string \<Rightarrow> bool" where
  "trimmed s \<longleftrightarrow> startsSpace s = None \<and> endsSpace s = None"

lemma trimSpace_trimmed: "trimmed s \<Longrightarrow> trimSpace s = s"
  by (simp add: trimmed_def trimSpace_def trimLeft.simps trimRight.simps)

theorem parse_topics_join:
  "ws \<noteq> [] \<Longrightarrow> list_all (\<lambda>w. CHR '','' \<notin> set w \<and> trimmed w) ws \<Longrightarrow> parseTopics (commaSep ws) = ws"
  by (simp add: parseTopics_def splitOn_join list_all_iff trimSpace_trimmed map_idI)

section \<open>Broadcasts are told apart\<close>

lemma broadcastText_inj: "inj broadcastText"
  by (rule injI) (metis broadcastText_def same_append_eq undec_natDec)

lemma broadcast_texts:
  "map fst (broadcastMessages name topics n ticks) =
     map (\<lambda>i. broadcastText (n + i + 1)) [0..<length (broadcastMessages name topics n ticks)]"
proof (induction ticks arbitrary: n)
  case (Cons publish ticks)
  have "map (\<lambda>i. broadcastText (n + i + 1)) [0..<Suc k] =
      broadcastText (n + 1) # map (\<lambda>i. broadcastText (n + 1 + i + 1)) [0..<k]" for k
    by (simp add: upt_conv_Cons map_Suc_upt [symmetric] del: upt_Suc)
  then show ?case using Cons.IH [of "n + 1"]
    by (auto simp: Let_def simp del: upt_Suc split: prod.splits)
qed simp

text \<open>The broadcaster numbers its messages from 1 without a gap, and no two of them have the same text.\<close>

lemma broadcasts_distinct: "distinct (map fst (broadcastMessages name topics 0 ticks))"
  unfolding broadcast_texts using broadcastText_inj by (auto simp: distinct_map inj_on_def inj_def)

end
