(* ===== verification/ExampleMain.thy ===== *)
theory ExampleMain
  imports ExampleCmd Setup Logger
begin

text \<open>
  \<open>main\<close> of the example program (src/cmd/example/main.go): from its flags to the calls of the library, the
  goroutines it starts and the deferred calls on every way out, as the list of what it does.  What
  \<open>NewClient\<close> and \<open>Close\<close> answer are arguments; waiting for the signal is one action.
\<close>

section \<open>Flags\<close>

record mainFlags =
  flName :: string
  flKey :: string
  flTopics :: string
  flPort :: int
  flNoBroadcast :: bool
  flPrettyJSON :: bool
  flBootstrap :: string
  flDhtMode :: string
  flPeerCache :: string

definition defaultFlags :: mainFlags where
  "defaultFlags = \<lparr>flName = [], flKey = [], flTopics = ''broadcast_p2p_poc'', flPort = 0, flNoBroadcast = False,
     flPrettyJSON = False, flBootstrap = [], flDhtMode = ''client'', flPeerCache = []\<rparr>"

definition exampleConfig :: "mainFlags \<Rightarrow> 'key \<Rightarrow> 'key config" where
  "exampleConfig fl privKey =
     zeroConfig\<lparr>Name := flName fl, LoggerSet := True, PrivateKey := Some privKey, Port := flPort fl,
       PeerCacheFile := flPeerCache fl, BootstrapPeers := parseBootstrapPeers (flBootstrap fl), DHTMode := flDhtMode fl\<rparr>"

section \<open>The main function\<close>

datatype 'key mainAct =
    MainLog logline
  | MainNewClient "'key config"
  | MainSubscribe string
  | MainGoForward string
  | MainGoReceive bool
  | MainGoBroadcast "string list" string
  | MainGoDisplay
  | MainAwaitSignal
  | MainCancel
  | MainClose

text \<open>\<open>Close\<close> of the client as its caller sees it: whether the teardown ended within the budget.\<close>

definition closeTimeout :: duration where "closeTimeout = 2 * second"

definition closeResult :: "duration \<Rightarrow> goerror option \<times> logline list" where
  "closeResult took =
     (if took < closeTimeout then (None, []) else (None, [Warnf ''Clean shutdown timed out, forcing exit'' []]))"

definition subscribeActs :: "string list \<Rightarrow> 'key mainAct list" where
  "subscribeActs topicList =
     concat (map (\<lambda>topic. [MainSubscribe topic, MainLog (Infof ''Subscribed to topic: %s'' [FStr topic]), MainGoForward topic]) topicList)"

text \<open>The calls deferred while the client exists: first its \<open>Close\<close>, then \<open>cancel\<close>.\<close>

definition deferredClose :: "goerror option \<Rightarrow> 'key mainAct list" where
  "deferredClose closeErr =
     MainClose # (case closeErr of None \<Rightarrow> [] | Some err \<Rightarrow> [MainLog (Errorf ''Failed to close client: %v'' [FErr err])]) @ [MainCancel]"

definition exampleMain ::
  "'key keyLib \<Rightarrow> ('key config \<Rightarrow> goerror option) \<Rightarrow> goerror option \<Rightarrow> string \<Rightarrow> mainFlags \<Rightarrow> 'key mainAct list" where
  "exampleMain kl newClient closeErr envKey fl =
     (if flName fl = [] then [MainLog (Errorf ''--name flag is required'' [])]
      else
        (case getOrGeneratePrivateKey kl (flKey fl) envKey of
           (Inl err, logs) \<Rightarrow> map MainLog logs @ [MainLog (Errorf ''Failed to get private key: %v'' [FErr err]), MainCancel]
         | (Inr privKey, logs) \<Rightarrow>
             map MainLog logs @ MainNewClient (exampleConfig fl privKey) #
             (case newClient (exampleConfig fl privKey) of
                Some err \<Rightarrow> [MainLog (Errorf ''Failed to create P2P client: %v'' [FErr err]), MainCancel]
              | None \<Rightarrow>
                  (let topicList = parseTopics (flTopics fl) in
                   subscribeActs topicList
                   @ [MainGoReceive (flPrettyJSON fl)]
                   @ (if \<not> flNoBroadcast fl then [MainGoBroadcast topicList (flName fl)] else [])
                   @ [MainGoDisplay, MainLog (Infof ''P2P client started. Press Ctrl+C to exit'' []), MainAwaitSignal,
                      MainLog (Infof (newline # ''Shutting down...'') []), MainCancel]
                   @ deferredClose closeErr))))"

section \<open>Ways out\<close>

lemma subscribeActs_acts: "x \<in> set (subscribeActs ts) \<Longrightarrow> x \<notin> {MainClose, MainCancel} \<and> (\<forall>cfg. x \<noteq> MainNewClient cfg)"
  by (auto simp: subscribeActs_def)

lemma deferredClose_last: "last (deferredClose closeErr) = MainCancel"
  by (simp add: deferredClose_def)

text \<open>
  A client that was created is closed on the way out and no other is; whatever the way out past the name check,
  the last thing done is to cancel the context.
\<close>

lemma example_closes:
  assumes "flName fl \<noteq> []"
  shows "last (exampleMain kl newClient closeErr envKey fl) = MainCancel
    \<and> (MainClose \<in> set (exampleMain kl newClient closeErr envKey fl) \<longleftrightarrow>
        (\<exists>cfg. MainNewClient cfg \<in> set (exampleMain kl newClient closeErr envKey fl) \<and> newClient cfg = None))"
proof -
  obtain r logs where k: "getOrGeneratePrivateKey kl (flKey fl) envKey = (r, logs)" by (rule prod.exhaust)
  show ?thesis
  proof (cases r)
    case (Inl err)
    then show ?thesis using assms k by (auto simp: exampleMain_def)
  next
    case (Inr privKey)
    then show ?thesis using assms k
      by (cases "newClient (exampleConfig fl privKey)")
        (auto simp: exampleMain_def Let_def deferredClose_last deferredClose_def dest: subscribeActs_acts)
  qed
qed

text \<open>\<open>Close\<close> never fails, however long the teardown takes, so the line about a failed close is never logged.\<close>

lemma example_close_line:
  "MainLog (Errorf ''Failed to close client: %v'' as) \<notin> set (deferredClose (fst (closeResult took)))"
  by (simp add: deferredClose_def closeResult_def)

section \<open>The key across runs\<close>

lemma generated_key:
  assumes "klGenerate kl = Inr k" and "klMarshal kl k = Inr kb"
  shows "getOrGeneratePrivateKey kl [] [] = (Inr k, [Infof (''Generated new private key: %s'' @ [newline]) [FStr (hexEncode kb)],
    Infof ''Save this key and use it next time with --key flag or P2P_PRIVATE_KEY env var'' []])"
  using assms by (simp add: getOrGeneratePrivateKey_def GeneratePrivateKey_def PrivateKeyToHex_def)

lemma given_key:
  assumes "klUnmarshal kl kb = Inr k" and "kb \<noteq> []"
  shows "getOrGeneratePrivateKey kl (hexEncode kb) envKey = (Inr k, [])"
    and "getOrGeneratePrivateKey kl [] (hexEncode kb) = (Inr k, [])"
proof -
  have "hexEncode kb \<noteq> []" using assms(2) by (cases kb) (simp_all add: hexEncode_def hexByte_def)
  then show "getOrGeneratePrivateKey kl (hexEncode kb) envKey = (Inr k, [])"
    "getOrGeneratePrivateKey kl [] (hexEncode kb) = (Inr k, [])"
    using assms(1) by (simp_all add: getOrGeneratePrivateKey_def PrivateKeyFromHex_def hexDecode_encode)
qed

lemma example_config:
  assumes "flName fl \<noteq> []" and "getOrGeneratePrivateKey kl (flKey fl) envKey = (Inr k, logs)"
  shows "MainNewClient (exampleConfig fl k) \<in> set (exampleMain kl newClient closeErr envKey fl)
    \<and> MainLog ` set logs \<subseteq> set (exampleMain kl newClient closeErr envKey fl)"
  using assms by (simp add: exampleMain_def) blast

lemma generated_line:
  "DefaultLogger uni zone now (Infof (''Generated new private key: %s'' @ [newline]) [FStr h]) =
     logHeader zone now @ ''[INFO] Generated new private key: '' @ h @ [newline]"
  by (simp add: logPrintf_def Let_def strText_def isVerb_def padRight_def newline_def)

text \<open>C33. The example program keeps its identity: a run that finds no key generates one and prints its hex
  text on a line of the log; a later run given that text by the flag, or by the environment with no
  flag, starts its client with the same key, whatever its other flags.\<close>

theorem example_key_reused:
  assumes "klGenerate kl = Inr k" and "klMarshal kl k = Inr kb" and "klUnmarshal kl kb = Inr k" and "kb \<noteq> []"
    and "flName fl \<noteq> []" and "flKey fl = []" and "flName fl' \<noteq> []"
  shows "\<exists>l. {MainLog l, MainNewClient (exampleConfig fl k)} \<subseteq> set (exampleMain kl newClient closeErr [] fl)
      \<and> DefaultLogger uni zone now l = logHeader zone now @ ''[INFO] Generated new private key: '' @ hexEncode kb @ [newline]
      \<and> MainNewClient (exampleConfig fl' k) \<in> set (exampleMain kl newClient closeErr envKey (fl'\<lparr>flKey := hexEncode kb\<rparr>))
      \<and> MainNewClient (exampleConfig fl' k) \<in> set (exampleMain kl newClient closeErr (hexEncode kb) (fl'\<lparr>flKey := []\<rparr>))"
proof -
  let ?l = "Infof (''Generated new private key: %s'' @ [newline]) [FStr (hexEncode kb)]"
  have same: "exampleConfig (fl'\<lparr>flKey := h\<rparr>) k = exampleConfig fl' k" for h by (simp add: exampleConfig_def)
  have "{MainLog ?l, MainNewClient (exampleConfig fl k)} \<subseteq> set (exampleMain kl newClient closeErr [] fl)"
    using example_config [OF assms(5), where envKey = "[]", unfolded assms(6), OF generated_key [OF assms(1,2)]] by simp
  moreover have "MainNewClient (exampleConfig fl' k) \<in> set (exampleMain kl newClient closeErr envKey (fl'\<lparr>flKey := hexEncode kb\<rparr>))"
    using example_config [of "fl'\<lparr>flKey := hexEncode kb\<rparr>" kl envKey k] given_key(1) [OF assms(3,4)] assms(7) same by simp
  moreover have "MainNewClient (exampleConfig fl' k) \<in> set (exampleMain kl newClient closeErr (hexEncode kb) (fl'\<lparr>flKey := []\<rparr>))"
    using example_config [of "fl'\<lparr>flKey := []\<rparr>" kl "hexEncode kb" k] given_key(2) [OF assms(3,4)] assms(7) same by simp
  ultimately show ?thesis using generated_line by blast
qed

definition namedFlags :: "string \<Rightarrow> mainFlags" where
  "namedFlags name = defaultFlags\<lparr>flName := name\<rparr>"

lemma example_key_reused_witness:
  "MainNewClient (exampleConfig (namedFlags ''second'') ''key'') \<in>
     set (exampleMain \<lparr>klGenerate = Inr ''key'', klMarshal = Inr, klUnmarshal = Inr\<rparr> (\<lambda>cfg. None) None (hexEncode ''key'')
       ((namedFlags ''second'')\<lparr>flKey := []\<rparr>))"
proof -
  let ?kl = "\<lparr>klGenerate = Inr ''key'', klMarshal = Inr, klUnmarshal = Inr\<rparr>"
  have f: "flName (namedFlags ''first'') \<noteq> []" "flKey (namedFlags ''first'') = []" "flName (namedFlags ''second'') \<noteq> []"
    by (simp_all add: namedFlags_def defaultFlags_def)
  have "klGenerate ?kl = Inr ''key''" "klMarshal ?kl ''key'' = Inr ''key''" "klUnmarshal ?kl ''key'' = Inr ''key''" by simp_all
  from example_key_reused [OF this _ f, where newClient = "\<lambda>cfg. None" and closeErr = None] show ?thesis by blast
qed

end
