(* ===== verification/Forward.thy ===== *)
theory Forward
  imports Receive
begin

text \<open>
  \<open>subscribeToTopics\<close> of the example program (src/cmd/example/main.go): one goroutine per topic moves
  the messages of that topic's channel to one merged channel, which \<open>receiveMessages\<close> reads.  The
  goroutines interleave freely; no message is lost or doubled, and each topic keeps its order.
\<close>

section \<open>The forwarding goroutines\<close>

text \<open>
  Per topic, by its position: what is buffered in the client's channel and whether that is closed, the
  message its goroutine has received and not yet sent, and whether the goroutine runs.  The merged channel
  holds each message with the position of its topic, and is never closed.  The history: what the
  client sent on each channel, and what \<open>receiveMessages\<close> has printed.
\<close>

record fwdSys =
  fwIn :: "nat \<Rightarrow> message list"
  fwClosed :: "nat \<Rightarrow> bool"
  fwHeld :: "nat \<Rightarrow> message option"
  fwRuns :: "nat \<Rightarrow> bool"
  fwOut :: "(nat \<times> message) list"
  fwSent :: "nat \<Rightarrow> message list"
  fwShown :: "(nat \<times> message) list"

definition mergedCapacity :: nat where "mergedCapacity = 100"

definition subscribeToTopics :: "string list \<Rightarrow> fwdSys \<times> logline list" where
  "subscribeToTopics topics =
     (\<lparr>fwIn = (\<lambda>i. []), fwClosed = (\<lambda>i. False), fwHeld = (\<lambda>i. None), fwRuns = (\<lambda>i. i < length topics),
       fwOut = [], fwSent = (\<lambda>i. []), fwShown = []\<rparr>,
      map (\<lambda>topic. Infof ''Subscribed to topic: %s'' [FStr topic]) topics)"

inductive fwdStep :: "fwdSys \<Rightarrow> fwdSys \<Rightarrow> bool" where
  fwd_arrive: "\<not> fwClosed s i \<Longrightarrow>
    fwdStep s (s\<lparr>fwIn := (fwIn s)(i := fwIn s i @ [m]), fwSent := (fwSent s)(i := fwSent s i @ [m])\<rparr>)"
| fwd_close: "fwdStep s (s\<lparr>fwClosed := (fwClosed s)(i := True)\<rparr>)"
| fwd_receive: "fwRuns s i \<Longrightarrow> fwHeld s i = None \<Longrightarrow> fwIn s i = m # ms \<Longrightarrow>
    fwdStep s (s\<lparr>fwIn := (fwIn s)(i := ms), fwHeld := (fwHeld s)(i := Some m)\<rparr>)"
| fwd_send: "fwRuns s i \<Longrightarrow> fwHeld s i = Some m \<Longrightarrow> length (fwOut s) < mergedCapacity \<Longrightarrow>
    fwdStep s (s\<lparr>fwHeld := (fwHeld s)(i := None), fwOut := fwOut s @ [(i, m)]\<rparr>)"
| fwd_finish: "fwRuns s i \<Longrightarrow> fwHeld s i = None \<Longrightarrow> fwIn s i = [] \<Longrightarrow> fwClosed s i \<Longrightarrow>
    fwdStep s (s\<lparr>fwRuns := (fwRuns s)(i := False)\<rparr>)"
| fwd_show: "fwOut s = x # xs \<Longrightarrow> fwdStep s (s\<lparr>fwOut := xs, fwShown := fwShown s @ [x]\<rparr>)"

inductive_cases fwdStepE: "fwdStep s t"

section \<open>Nothing is lost\<close>

definition ofTopic :: "nat \<Rightarrow> (nat \<times> message) list \<Rightarrow> message list" where
  "ofTopic i xs = map snd (filter (\<lambda>x. fst x = i) xs)"

lemma ofTopic_simps [simp]:
  "ofTopic i [] = []" "ofTopic i (xs @ ys) = ofTopic i xs @ ofTopic i ys"
  "ofTopic i (x # xs) = (if fst x = i then snd x # ofTopic i xs else ofTopic i xs)"
  by (simp_all add: ofTopic_def)

definition heldList :: "message option \<Rightarrow> message list" where
  "heldList h = (case h of None \<Rightarrow> [] | Some m \<Rightarrow> [m])"

lemma heldList_simps [simp]: "heldList None = []" "heldList (Some m) = [m]"
  by (simp_all add: heldList_def)

definition fwd_inv :: "fwdSys \<Rightarrow> bool" where
  "fwd_inv s \<longleftrightarrow> length (fwOut s) \<le> mergedCapacity
     \<and> (\<forall>i. fwSent s i = ofTopic i (fwShown s) @ ofTopic i (fwOut s) @ heldList (fwHeld s i) @ fwIn s i)"

definition fwdInit :: "fwdSys \<Rightarrow> bool" where
  "fwdInit s \<longleftrightarrow> (\<exists>topics. s = fst (subscribeToTopics topics))"

lemma fwdStep_inv:
  assumes "fwd_inv s" and "fwdStep s t"
  shows "fwd_inv t"
  using assms(2,1) by cases (auto simp: fwd_inv_def)

interpretation forwarding: invariant_system fwdInit fwdStep fwd_inv
proof unfold_locales
  show "fwdInit s \<Longrightarrow> fwd_inv s" for s by (auto simp: fwdInit_def fwd_inv_def subscribeToTopics_def)
qed (rule fwdStep_inv)

lemma forward_prefix: "reach fwdInit fwdStep s \<Longrightarrow> \<exists>rest. fwSent s i = ofTopic i (fwShown s) @ rest"
  using forwarding.reach_inv [of s] by (auto simp: fwd_inv_def)

section \<open>Everything is shown in the end\<close>

text \<open>
  A state in which only the client can move (no goroutine can receive, send or finish, and nothing is
  left to show) has shown, per running topic, all that was sent; and each step that is not the client's
  decreases a measure, so only finitely many come between two of the client's.
\<close>

definition clientMove :: "fwdSys \<Rightarrow> fwdSys \<Rightarrow> bool" where
  "clientMove s t \<longleftrightarrow> fwSent t \<noteq> fwSent s \<or> fwClosed t \<noteq> fwClosed s \<or> t = s"

definition idle :: "fwdSys \<Rightarrow> bool" where
  "idle s \<longleftrightarrow> (\<forall>t. fwdStep s t \<longrightarrow> clientMove s t)"

lemma idle_shown:
  assumes "idle s"
  shows "fwOut s = []"
proof (cases "fwOut s")
  case (Cons x xs)
  let ?t = "s\<lparr>fwOut := xs, fwShown := fwShown s @ [x]\<rparr>"
  have "clientMove s ?t" using assms fwd_show [OF Cons] by (simp add: idle_def)
  then have "?t = s" by (simp add: clientMove_def)
  from arg_cong [OF this, of fwOut] show ?thesis using Cons by simp
qed

lemma idle_held:
  assumes "idle s" and "fwRuns s i"
  shows "fwHeld s i = None"
proof (cases "fwHeld s i")
  case (Some m)
  have "fwdStep s (s\<lparr>fwHeld := (fwHeld s)(i := None), fwOut := fwOut s @ [(i, m)]\<rparr>)"
    using assms Some idle_shown [OF assms(1)] by (intro fwd_send) (simp_all add: mergedCapacity_def)
  then have "clientMove s (s\<lparr>fwHeld := (fwHeld s)(i := None), fwOut := fwOut s @ [(i, m)]\<rparr>)"
    using assms(1) by (simp add: idle_def)
  then have "s\<lparr>fwHeld := (fwHeld s)(i := None), fwOut := fwOut s @ [(i, m)]\<rparr> = s" by (simp add: clientMove_def)
  from arg_cong [OF this, of fwOut] show ?thesis by simp
qed

lemma idle_in:
  assumes "idle s" and "fwRuns s i"
  shows "fwIn s i = []"
proof (cases "fwIn s i")
  case (Cons m ms)
  let ?t = "s\<lparr>fwIn := (fwIn s)(i := ms), fwHeld := (fwHeld s)(i := Some m)\<rparr>"
  have "clientMove s ?t"
    using assms fwd_receive [OF assms(2) idle_held [OF assms] Cons] by (simp add: idle_def)
  then have "?t = s" by (simp add: clientMove_def)
  from arg_cong [OF this, of "\<lambda>s. fwIn s i"] show ?thesis using Cons by simp
qed

definition topicWork :: "fwdSys \<Rightarrow> nat \<Rightarrow> nat" where
  "topicWork s i = 3 * length (fwIn s i) + 2 * length (heldList (fwHeld s i)) + (if fwRuns s i then 1 else 0)"

definition fwdWork :: "nat \<Rightarrow> fwdSys \<Rightarrow> nat" where
  "fwdWork n s = (\<Sum>i<n. topicWork s i) + length (fwOut s)"

lemma sum_step:
  assumes "(i :: nat) < n" and "\<And>j. j \<noteq> i \<Longrightarrow> g j = f j" and "g i + k \<le> f i"
  shows "(\<Sum>j<n. g j) + k \<le> (\<Sum>j<n. f j :: nat)"
proof -
  have "(\<Sum>j \<in> {..<n} - {i}. g j) = (\<Sum>j \<in> {..<n} - {i}. f j)" using assms(2) by (intro sum.cong) auto
  moreover have "sum g {..<n} = g i + sum g ({..<n} - {i})" "sum f {..<n} = f i + sum f ({..<n} - {i})"
    using assms(1) by (auto intro!: sum.remove)
  ultimately show ?thesis using assms(3) by linarith
qed

theorem forward_progress:
  assumes "fwdStep s t" and "\<And>i. fwRuns s i \<Longrightarrow> i < n"
  shows "clientMove s t \<or> fwdWork n t < fwdWork n s"
  using assms(1)
proof cases
  case (fwd_arrive i m)
  then have "fwSent t i \<noteq> fwSent s i" by simp
  then have "fwSent t \<noteq> fwSent s" by (metis)
  then show ?thesis by (simp add: clientMove_def)
next
  case (fwd_close i)
  then show ?thesis by (cases "fwClosed s i") (auto simp: clientMove_def fun_upd_idem dest: fun_cong [of _ _ i])
next
  case (fwd_receive i m ms)
  have "(\<Sum>j<n. topicWork t j) + 1 \<le> (\<Sum>j<n. topicWork s j)"
    by (rule sum_step [of i]) (use fwd_receive assms(2) in \<open>auto simp: topicWork_def\<close>)
  then show ?thesis using fwd_receive(1) by (simp add: fwdWork_def)
next
  case (fwd_send i m)
  have "(\<Sum>j<n. topicWork t j) + 2 \<le> (\<Sum>j<n. topicWork s j)"
    by (rule sum_step [of i]) (use fwd_send assms(2) in \<open>auto simp: topicWork_def\<close>)
  then show ?thesis using fwd_send(1) by (simp add: fwdWork_def)
next
  case (fwd_finish i)
  have "(\<Sum>j<n. topicWork t j) + 1 \<le> (\<Sum>j<n. topicWork s j)"
    by (rule sum_step [of i]) (use fwd_finish assms(2) in \<open>auto simp: topicWork_def\<close>)
  then show ?thesis using fwd_finish(1) by (simp add: fwdWork_def)
qed (simp add: fwdWork_def topicWork_def)

theorem forward_complete:
  assumes "reach fwdInit fwdStep s" and "idle s" and "fwRuns s i"
  shows "ofTopic i (fwShown s) = fwSent s i" and "\<not> fwClosed s i"
proof -
  show "ofTopic i (fwShown s) = fwSent s i"
    using forwarding.reach_inv [OF assms(1)] idle_shown [OF assms(2)] idle_held [OF assms(2,3)] idle_in [OF assms(2,3)]
    by (simp add: fwd_inv_def)
  show "\<not> fwClosed s i"
  proof
    assume "fwClosed s i"
    then have "clientMove s (s\<lparr>fwRuns := (fwRuns s)(i := False)\<rparr>)"
      using assms(2) fwd_finish [OF assms(3) idle_held [OF assms(2,3)] idle_in [OF assms(2,3)]] by (simp add: idle_def)
    then have "s\<lparr>fwRuns := (fwRuns s)(i := False)\<rparr> = s" by (simp add: clientMove_def)
    from arg_cong [OF this, of "\<lambda>s. fwRuns s i"] show False using assms(3) by simp
  qed
qed

end
