(* ===== verification/Spec2Isabelle.thy ===== *)
theory Spec2Isabelle
  imports Setup Delivery Receivers Logging ExampleMain Forward DropReport ScanJson
begin

text \<open>
  A verification development for go-p2p-message-bus, a Go library that gives an application
  topic-based messaging over libp2p: a client joins GossipSub topics, publishes JSON envelopes,
  delivers the envelopes of other peers on Go channels, and keeps itself connected (bootstrap
  and static peers, a DHT or an address exchange between peers, a peer cache on disk).

  \<^bold>\<open>How the parts interact.\<close>  \<open>NewClient\<close> (src/client.go) validates the configuration, builds the
  publisher allowlist (src/allowlist.go), the host options with their resource limits
  (src/resource_limits.go) and the GossipSub options (src/scoring.go), dials the known peers
  and starts the background loops.  \<open>Subscribe\<close> starts one reader goroutine per call, which joins
  the topic and moves messages from pubsub to the caller's channel, recording names, presence and
  malformed messages in the peer tracker (src/types.go).  A client without a DHT periodically asks
  its connected peers for the addresses of topic peers; the responder of that exchange is rate
  limited by the limiter of src/types.go.  \<open>Close\<close> cancels everything and waits for the readers.

  \<^bold>\<open>Theories.\<close>

  \<^item> Prelude: Go's times, durations, strings, errors, log lines, ranges over maps, decimal numbers;
    the locales \<open>invariant_system\<close> and \<open>peel_codec\<close>, which the components interpret.
  \<^item> Limiter: \<open>peerAddressLimiter\<close> of src/types.go; the locale \<open>interval_potential\<close>, interpreted for
    grants and for warnings, gives the bounds over any interval of one window; the locale \<open>window_budget\<close>,
    interpreted for both too, gives those over longer intervals and for clock readings that are out of order.
  \<^item> Utf8, PeerName: decoding and encoding of UTF-8, \<open>sanitizePeerName\<close> of src/types.go.
  \<^item> Tracker: \<open>peerTracker\<close> of src/types.go, its invariant over histories of calls.
  \<^item> DropReport, Allowlist, Scoring: src/allowlist.go and src/scoring.go; the lock-free reporter as
    interleaved atomic steps, the set of publishers, the validator, scoring parameters in a store.
  \<^item> Config, ResLimits: src/config.go and src/resource_limits.go.
  \<^item> Addrs: \<open>parsePeerMultiaddrs\<close> and the choice of bootstrap peers, src/client.go.
  \<^item> Quote: strings as \<open>strconv.Quote\<close> prints them, and text without control characters.
  \<^item> Scanner, Json, ScanJson: the scanner of encoding/json with the texts of its errors; the parser, the JSON,
    base64 and quoting rules for the two wire formats; that both accept the same texts.
  \<^item> Clock, CacheJson: RFC 3339 times on the Gregorian calendar, and the indented JSON text of the list of
    \<open>cachedPeer\<close>, written and read.
  \<^item> Exchange, Lookup: the peer-address protocol, both ends, the periodic scan, the lookups in flight.
  \<^item> PeerCache: loading, evicting, saving and dialing cached peers.
  \<^item> Receive, Lifecycle: \<open>Publish\<close>, one turn of \<open>receiveMessages\<close>, and the interleaved life of readers (each
    a program that takes one critical section of the tracker at a time), channels, the wait group and \<open>Close\<close>.
  \<^item> Delivery: what a channel promises (made, sent on while open, received from, closed once), its
    refinement by the lifecycle, that \<open>Close\<close> completes, and what a delivered message looks like.
  \<^item> Receivers: the readers of all topics together; undisturbed, one is a turn of \<open>receiveMessages\<close>; a flood of
    malformed messages is contained, and every message of a peer in good standing gets through.
  \<^item> Logger, Logging: \<open>DefaultLogger\<close> of src/config.go with the formatting it rests on, and the lines it
    prints about malformed messages.
  \<^item> Maintain: the reconnect, advertise and discover loops and the connection callbacks.
  \<^item> Setup: \<open>NewClient\<close> stage by stage, and what a failing start leaves behind.
  \<^item> Keys, ExampleCmd, ExampleMain: private keys as hex text; the helpers and the \<open>main\<close> of
    src/cmd/example/main.go, as the list of its calls, goroutines and deferred calls.
  \<^item> Forward: the goroutines of that program's \<open>subscribeToTopics\<close>, interleaved; nothing is lost or reordered.

  This theory ends with the properties of whole runs: the validator of a started client, a lookup between
  two nodes, and the dials of a node that restarts with the cache file it wrote.

  Functions and types keep the names they have in Go.  A struct is a record, an interface the
  program only calls is a record of functions (\<open>netLib\<close>, \<open>rcmgrLib\<close>, \<open>keyLib\<close>, \<open>platform\<close>), an error is a
  value of \<open>goerror\<close>, \<open>nil\<close> is \<open>None\<close>, a panic is \<open>None\<close> or the flag \<open>syPanic\<close>, and log calls are
  collected with their format and arguments.  A range over a map takes the order of the visit as an argument.

  \<^bold>\<open>What the lemmas show.\<close>  Invariants over every interleaving: ownership of the message channels,
  exclusive lookups, conservation of the drop counter.  Progress: after cancellation every
  step of a reader decreases a measure, and a client none of whose readers can move has
  drained; before it, readers and a receiving application run out of steps only when everything that arrived
  has been handed over.  Functional behaviour with every error branch: the exchange, receiving, validation, the
  start of a client.  Bounds: limiter, drop lines, malformed-message lines, retry interval, message and name sizes; no
  peer can break a log line.  Round
  trips: envelope, address list, base64, hex, times, peer cache file.  Equivalence: sanitizing against a greedy
  reference, the JSON scanner against the parser.  Refinement: an uninterrupted \<open>recordDrop\<close> against its
  atomic steps, every message channel against an abstract bounded channel.

  \<^bold>\<open>Bounds and fuel.\<close>  Only the JSON parser uses fuel: \<open>jsonParse\<close> starts \<open>parseValue\<close> with
  \<open>2 * length + 2\<close>, and every call consumes text or goes from a value to its elements, so the fuel
  never decides the result (\<open>parse_fuel\<close>), and a text is rejected only where the scanner finds an error.  All other loops are structural or terminate by a measure.  64-bit counters
  are words, durations saturate as \<open>time.Sub\<close> does, and \<open>int64\<close> conversions wrap.

  \<^bold>\<open>Simplifications.\<close>  In Lifecycle a
  transient error of \<open>Next\<close> is a stutter, and the one-second and two-second timers of \<open>Close\<close> may fire at
  any moment.  Deadlines appear as the error a read or write ends with; in the bound on replies a write ends by its deadline,
  and the time a handler waits for the limiter's mutex is bounded.  The offset of the
  local zone in force when the peer cache is saved is an argument of the save, as is that of the log.  The texts of
  \<open>encoding/json\<close> errors are those of the library, except that one text stands for every time a cached peer's
  \<open>LastSeen\<close> cannot be read from.  \<open>%.0f\<close> is given the integer it rounds to.

  \<^bold>\<open>Not modelled.\<close>  The internals of libp2p, pubsub, the DHT, mDNS and the resource manager; the
  decimal text of a \<open>float64\<close>; the command-line parser (the example's \<open>main\<close> starts from parsed flags) and the
  delivery of signals; the tests.
\<close>

section \<open>Properties that span components\<close>

text \<open>C5. A client that has started enforces the configured publishers: the pubsub instance it created has
  the allowlist validator exactly when publishers are configured, and then the validator
  accepts, over any sequence of messages, exactly those by configured IDs, by this node and by the static
  peers the configuration names, and ignores the rest (nothing is rejected, which would cost the
  sender score); DNS and the delivering peer play no part.\<close>

theorem client_enforces_allowlist:
  assumes "NewClient uni pl fs isConn testMode st now config = (Inr c, es, ls)"
    and "PrivateKey config = Some key" and "plIDFromPrivateKey pl key = Inr selfID"
  shows "NewGossipSub (ciPubSub c) \<in> set es
    \<and> (WithDefaultValidator True \<in> set (ciPubSub c)) = (AllowedPublisherIDs config \<noteq> [])
    \<and> validatorRun (Some (ciAllowlist c)) ms =
        map (\<lambda>(src, author, t). if AllowedPublisherIDs config = [] \<or> author = selfID
              \<or> author \<in> configuredIDs (plNet pl) config \<or> author \<in> staticIDs (plNet pl) config
            then ValidationAccept else ValidationIgnore) ms"
proof -
  obtain timeout allowlist hostOpts k es0 ls0 ls1 where
    "PrivateKey config = Some k" "fst (resolveAllowlist pl config k now) = Inr allowlist"
    and sh: "startHost pl fs isConn config st now timeout allowlist
        (fst (parsePeerMultiaddrs (plNet pl) (StaticPeers config)))
        (fst (fst (getBootstrapAndRelayPeers (plNet pl) config testMode)))
        (snd (fst (getBootstrapAndRelayPeers (plNet pl) config testMode))) hostOpts = (Inr c, es, ls1)"
    using NewClient_Inr [OF assms(1)] by blast
  then have al: "fst (newPeerAllowlist (plNet pl) config selfID now) = Inr allowlist"
    using resolved_allowlist [OF _ assms(3), of config now allowlist] assms(2) by simp
  note ps = startHost_pubsub [OF sh] and en = enabled_configured [OF al]
  have "allows (Some allowlist) pid \<longleftrightarrow> AllowedPublisherIDs config = [] \<or> pid = selfID
      \<or> pid \<in> configuredIDs (plNet pl) config \<or> pid \<in> staticIDs (plNet pl) config" for pid
    using allows_configured [OF _ al, of pid] en by (cases "AllowedPublisherIDs config = []") (auto simp: allows_def)
  then show ?thesis using ps en by (simp add: validatorRun_eq)
qed

lemma client_enforces_allowlist_witness:
  "\<exists>c es ls. toyRun None = (Inr c, es, ls) \<and> WithDefaultValidator True \<in> set (ciPubSub c)
     \<and> validatorRun (Some (ciAllowlist c)) [(''x'', ''abc'', 0), (''x'', ''spam'', 1)] = [ValidationAccept, ValidationIgnore]"
proof -
  obtain c es ls where run: "toyRun None = (Inr c, es, ls)"
    using toy_run [of None] by (cases "toyRun None" rule: stage_cases) auto
  have c: "PrivateKey (toyNode []) = Some ()" "plIDFromPrivateKey (toyPlatform None) () = Inr ''me''"
    by (simp_all add: toy_defs)
  have ids: "AllowedPublisherIDs (toyNode []) = [''abc'']" "configuredIDs (plNet (toyPlatform None)) (toyNode []) = {''abc''}"
    "staticIDs (plNet (toyPlatform None)) (toyNode []) = {}"
    by (auto simp: toy_defs configuredIDs_def staticIDs_def textLib_def)
  from client_enforces_allowlist [OF run [unfolded toyRun_def] c, of "[(''x'', ''abc'', 0), (''x'', ''spam'', 1)]"]
  show ?thesis using run by (simp add: ids)
qed

text \<open>C12. Across two nodes: when a connected responder serves a lookup's request whole, and its reply
  arrives whole and within 8 KiB, the requester stores exactly the addresses the responder's
  peerstore holds for the target, without relay circuits and at most 32, both streams are closed,
  and the lookup is over.\<close>

definition textual :: "'ma netLib \<Rightarrow> 'ma \<Rightarrow> bool" where
  "textual lib a \<longleftrightarrow> newMultiaddr lib (maString lib a) = Inr a \<and> toValidUTF8 (maString lib a) = maString lib a"

definition shareable :: "'ma netLib \<Rightarrow> (peerID \<Rightarrow> 'ma list) \<Rightarrow> peerID \<Rightarrow> 'ma list" where
  "shareable lib addrsOf target =
     take maxSharedPeerAddresses (filter (\<lambda>a. \<not> stringsContains (maString lib a) ''/p2p-circuit'') (addrsOf target))"

lemma parseMultiaddrs_textual:
  "list_all (textual lib) as \<Longrightarrow> parseMultiaddrs lib (map toValidUTF8 (map (maString lib) as)) = as"
  by (induction as) (simp_all add: textual_def)

lemma directPeerAddresses_shareable:
  "directPeerAddresses lib addrsOf target = map (maString lib) (shareable lib addrsOf target)"
  by (simp add: directPeerAddresses_eq shareable_def filter_map comp_def take_map)

theorem lookup_between_nodes:
  assumes "named lib target"
    and "delivers (idString lib target) (stReader inbound)" and "healthy inbound" and "16 \<le> length (idString lib self)"
    and "used lmt self t < peerAddressRequestsPerWindow"
    and "delivers (replyFor lib addrsOf target) (stReader outbound)" and "healthy outbound"
    and "length (replyFor lib addrsOf target) \<le> maxPeerAddressResponseBytes"
    and "list_all (textual lib) (addrsOf target)" and "shareable lib addrsOf target \<noteq> []"
    and "target \<notin> inFlight" and "responder \<noteq> self" and "16 \<le> length (idString lib responder)"
  shows "(\<exists>lmt' logs. handlePeerAddressRequest lib pt' addrsOf timeout' lmt inbound self t t' =
             Some (lmt', [OpSetDeadline (timeAdd t' timeout'), OpWrite (replyFor lib addrsOf target), OpClose], logs))
    \<and> map_option (\<lambda>(s, res). (s, lkAdded res, lkExchanges res))
         (requestPeerAddresses errText lib timeout pt self inFlight target
            (\<lparr>prPeer = responder, prCancelled = False, prStream = Inr outbound, prNow = now\<rparr> # probes)) =
        Some (inFlight, Some (shareable lib addrsOf target),
          [(responder, [OpSetDeadline (timeAdd now timeout), OpWrite (idString lib target), OpCloseWrite, OpClose])])"
proof
  show "\<exists>lmt' logs. handlePeerAddressRequest lib pt' addrsOf timeout' lmt inbound self t t' =
             Some (lmt', [OpSetDeadline (timeAdd t' timeout'), OpWrite (replyFor lib addrsOf target), OpClose], logs)"
    by (rule handle_delivers [OF assms(1-5)])
next
  let ?as = "shareable lib addrsOf target"
  have "list_all (textual lib) ?as"
    using assms(9) by (auto simp: shareable_def list_all_iff dest: in_set_takeD)
  moreover have "length ?as \<le> maxSharedPeerAddresses" by (simp add: shareable_def)
  ultimately have stored: "parseMultiaddrs lib (take (min (length ?as) maxSharedPeerAddresses) (map toValidUTF8 (map (maString lib) ?as))) = ?as"
    using parseMultiaddrs_textual [of lib ?as] by (simp add: min_def)
  have short: "slice16 (idString lib responder) = Some (take 16 (idString lib responder))"
    using assms(13) by (simp add: slice16_def)
  show "map_option (\<lambda>(s, res). (s, lkAdded res, lkExchanges res))
         (requestPeerAddresses errText lib timeout pt self inFlight target
            (\<lparr>prPeer = responder, prCancelled = False, prStream = Inr outbound, prNow = now\<rparr> # probes)) =
        Some (inFlight, Some ?as,
          [(responder, [OpSetDeadline (timeAdd now timeout), OpWrite (idString lib target), OpCloseWrite, OpClose])])"
    using assms(10-12) stored short
      exchange_delivers [OF assms(6-8), where timeout = timeout and now = now, unfolded directPeerAddresses_shareable]
    by (simp add: requestPeerAddresses_def beginAddrLookup_def endAddrLookup_def Let_def)
qed

definition otherPeer :: peerID where "otherPeer = ''12D3KooWRespondsRespondsRespondsResponds''"

lemma textual_example: "textual wireLib ''/ip4/1.2.3.4''"
  by (simp add: textual_def wireLib_def textLib_def toValidUTF8_ascii)

lemma lookup_between_nodes_witness:
  "map_option (\<lambda>(s, res). (s, lkAdded res, lkExchanges res))
     (requestPeerAddresses (\<lambda>e. []) wireLib (10 * second) newPeerTracker otherPeer {} somePeer
        [\<lparr>prPeer = somePeer, prCancelled = False,
          prStream = Inr (someStream [replyFor wireLib (\<lambda>p. [''/ip4/1.2.3.4'']) somePeer] peerAddressRequestProtocolV2), prNow = 0\<rparr>]) =
   Some ({}, Some (shareable wireLib (\<lambda>p. [''/ip4/1.2.3.4'']) somePeer),
     [(somePeer, [OpSetDeadline (timeAdd 0 (10 * second)), OpWrite (idString wireLib somePeer), OpCloseWrite, OpClose])])"
proof (rule conjunct2, rule lookup_between_nodes)
  show "named wireLib somePeer" by code_simp
  show "delivers (idString wireLib somePeer) (stReader (someStream [take 7 somePeer, drop 7 somePeer] peerAddressRequestProtocolV2))"
    by code_simp
  show "used newPeerAddressLimiter otherPeer 0 < peerAddressRequestsPerWindow" by (rule used_new)
  show "length (replyFor wireLib (\<lambda>p. [''/ip4/1.2.3.4'']) somePeer) \<le> maxPeerAddressResponseBytes"
    by (simp add: replyFor_def wireLib_def textLib_def jsonQuote_def quoteBody_ascii escAscii_def maxPeerAddressResponseBytes_def)
  show "list_all (textual wireLib) [''/ip4/1.2.3.4'']" using textual_example by simp
  show "shareable wireLib (\<lambda>p. [''/ip4/1.2.3.4'']) somePeer \<noteq> []" by code_simp
  show "16 \<le> length (idString wireLib otherPeer)" "16 \<le> length (idString wireLib somePeer)" by code_simp+
  show "somePeer \<noteq> otherPeer" by (simp add: somePeer_def otherPeer_def)
qed (simp_all add: healthy_someStream, simp add: someStream_def delivers_def)

text \<open>C13. A restart finds its peers again: when the node is started again within the TTL, the new client
  reads the file the old one last wrote and dials the topic peers the old one was connected to then,
  each at the addresses of those connections and under the name it had announced.\<close>

theorem restart_redials_cached:
  assumes "PeerCacheFile config \<noteq> []" and "set ks = set (concat perTopic)" and "fsWriteErr fs (PeerCacheFile config) = None"
    and "filter (\<lambda>p. conns p \<noteq> []) ks = ps" and "ps \<noteq> []" and "addressable (plNet pl) conns ps" and "writable zone saved"
    and "restartsWithin config saved now"
    and "NewClient uni pl (fst (savePeerCache zone (plNet pl) pt conns (PeerCacheFile config) perTopic ks saved fs))
           (\<lambda>p. False) testMode st now config = (Inr c, es, ls)"
  shows "DialCached (map (\<lambda>p. (\<lparr>aiID = p, aiAddrs = conns p\<rparr>, toValidUTF8 (getName pt p))) ps) \<in> set es"
proof -
  obtain timeout allowlist static boot relay hostOpts ls1 where
    "startHost pl (fst (savePeerCache zone (plNet pl) pt conns (PeerCacheFile config) perTopic ks saved fs))
       (\<lambda>p. False) config st now timeout allowlist static boot relay hostOpts = (Inr c, es, ls1)"
    using NewClient_Inr [OF assms(9)] by blast
  from startHost_dials [OF this cache_round_trip [OF assms(1-8)]] show ?thesis using assms(5) by simp
qed

lemma restart_redials_cached_witness:
  "\<exists>fs c es ls. NewClient (\<lambda>r. False) (toyPlatform None) fs (\<lambda>p. False) True [] (someTime + 9) (toyNode ''f'') = (Inr c, es, ls)
     \<and> DialCached (map (\<lambda>p. (\<lparr>aiID = p, aiAddrs = [''/ip4/1'']\<rparr>, toValidUTF8 (getName newPeerTracker p))) [''a'']) \<in> set es"
proof -
  let ?save = "savePeerCache 3600 (plNet (toyPlatform None)) newPeerTracker (\<lambda>p. [''/ip4/1'']) (PeerCacheFile (toyNode ''f''))"
  let ?run = "NewClient (\<lambda>r. False) (toyPlatform None) (fst (?save [[''a'']] [''a''] someTime emptyFs))
      (\<lambda>p. False) True [] (someTime + 9) (toyNode ''f'')"
  obtain c es ls where run: "?run = (Inr c, es, ls)"
    using toy_node [of None "fst (?save [[''a'']] [''a''] someTime emptyFs)" "someTime + 9" "''f''"]
    by (cases ?run rule: stage_cases) auto
  have "DialCached (map (\<lambda>p. (\<lparr>aiID = p, aiAddrs = [''/ip4/1'']\<rparr>, toValidUTF8 (getName newPeerTracker p))) [''a'']) \<in> set es"
    by (rule restart_redials_cached [OF _ _ _ _ _ _ _ _ run, where ps = "[''a'']"])
       (simp_all add: emptyFs_def addressable_def textLib_def writable_def someTime_def daySecs_def second_def
        restartsWithin_def duration_defs toy_defs)
  then show ?thesis using run by blast
qed

end
